(* ===== verification/Derp_Prelude.thy ===== *)
theory Derp_Prelude
  imports Complex_Main "HOL-Library.Word" "HOL-Library.AList" "HOL-Library.Multiset"
begin

text \<open>
  Shared vocabulary of the development: the machine types of the Rust sources, the big-endian
  conversions of the standard library, results as sums, the collections of simplification rules
  the components extend, and the generic lemmas on lists and association lists that the component
  proofs rest on.
\<close>

unbundle bit_operations_syntax

named_theorems wire_simps \<open>unfolding rules for the byte-level encoders and decoders\<close>
named_theorems relay_frame \<open>what an operation of the relay leaves unchanged\<close>

type_synonym byte = "8 word"
type_synonym bytes = "byte list"
type_synonym u16 = "16 word"
type_synonym u32 = "32 word"
type_synonym u64 = "64 word"

text \<open>
  Rust's \<open>Result<T, E>\<close> is the sum \<open>'e + 'a\<close> with \<open>Inl\<close> the error; the \<open>?\<close> operator is
  \<open>try_res\<close>.
\<close>

fun try_res :: "'e + 'a \<Rightarrow> ('a \<Rightarrow> 'e + 'b) \<Rightarrow> 'e + 'b" where
  "try_res (Inl e) f = Inl e"
| "try_res (Inr x) f = f x"

subsection \<open>Big-endian integers\<close>

definition u16_to_be :: "u16 \<Rightarrow> bytes" where
  "u16_to_be w = [ucast (drop_bit 8 w), ucast w]"

definition u16_of_be :: "byte \<Rightarrow> byte \<Rightarrow> u16" where
  "u16_of_be a b = push_bit 8 (ucast a) OR ucast b"

definition u32_to_be :: "u32 \<Rightarrow> bytes" where
  "u32_to_be w = [ucast (drop_bit 24 w), ucast (drop_bit 16 w), ucast (drop_bit 8 w), ucast w]"

definition u32_of_be :: "byte \<Rightarrow> byte \<Rightarrow> byte \<Rightarrow> byte \<Rightarrow> u32" where
  "u32_of_be a b c d =
     push_bit 24 (ucast a) OR push_bit 16 (ucast b) OR push_bit 8 (ucast c) OR ucast d"

text \<open>
  \<open>u32::from_be_bytes(slice.try_into().unwrap())\<close>: the callers pass slices of four bytes, so the
  conversion to an array does not panic.
\<close>

definition u32_from_slice :: "bytes \<Rightarrow> u32" where
  "u32_from_slice xs = u32_of_be (xs ! 0) (xs ! 1) (xs ! 2) (xs ! 3)"

definition subslice :: "nat \<Rightarrow> nat \<Rightarrow> 'a list \<Rightarrow> 'a list" where
  "subslice i j xs = take (j - i) (drop i xs)"

lemma byte_bit_beyond [simp]: "8 \<le> n \<Longrightarrow> \<not> bit (b :: byte) n"
  using bit_imp_le_length [of b n] by auto

lemma u16_of_to_be [simp]: "u16_of_be (ucast (drop_bit 8 w)) (ucast w) = w"
proof (rule bit_word_eqI)
  fix n assume "n < LENGTH(16)"
  then consider "n < 8" | "8 \<le> n" "n < 16" by fastforce
  then show "bit (u16_of_be (ucast (drop_bit 8 w)) (ucast w)) n = bit w n"
    by cases (auto simp: u16_of_be_def bit_simps)
qed

lemma u16_to_of_be [simp]: "u16_to_be (u16_of_be a b) = [a, b]"
  by (auto intro!: bit_word_eqI simp: u16_of_be_def u16_to_be_def bit_simps)

lemma u32_of_to_be [simp]:
  "u32_of_be (ucast (drop_bit 24 w)) (ucast (drop_bit 16 w)) (ucast (drop_bit 8 w)) (ucast w) = w"
    (is "?l = w")
proof (rule bit_word_eqI)
  fix n assume "n < LENGTH(32)"
  then consider "n < 8" | "8 \<le> n" "n < 16" | "16 \<le> n" "n < 24" | "24 \<le> n" "n < 32"
    by fastforce
  then show "bit ?l n = bit w n"
    by cases (auto simp: u32_of_be_def bit_simps)
qed

lemma u32_to_of_be [simp]: "u32_to_be (u32_of_be a b c d) = [a, b, c, d]"
  by (auto intro!: bit_word_eqI simp: u32_of_be_def u32_to_be_def bit_simps)

lemma length_to_be [simp]: "length (u16_to_be w) = 2" "length (u32_to_be v) = 4"
  by (simp_all add: u16_to_be_def u32_to_be_def)

lemma u32_from_slice_to_be [simp]: "u32_from_slice (u32_to_be w) = w"
  by (simp add: u32_to_be_def u32_from_slice_def)

lemma u32_to_be_from_slice [simp]: "length xs = 4 \<Longrightarrow> u32_to_be (u32_from_slice xs) = xs"
  by (auto simp: u32_from_slice_def length_Suc_conv numeral_eq_Suc)

lemma u16_nth_be [simp]: "u16_of_be (u16_to_be w ! 0) (u16_to_be w ! Suc 0) = w"
  by (simp add: u16_to_be_def)

subsection \<open>Results\<close>

lemma try_res_Inr: "try_res r f = Inr y \<longleftrightarrow> (\<exists>x. r = Inr x \<and> f x = Inr y)"
  by (cases r) auto

lemma try_res_Inl: "try_res r f = Inl e \<longleftrightarrow> r = Inl e \<or> (\<exists>x. r = Inr x \<and> f x = Inl e)"
  by (cases r) auto

subsection \<open>Lists\<close>

lemma take_drop_append3 [simp]:
  "length a = n \<Longrightarrow> take n (a @ b) = a" "length a = n \<Longrightarrow> drop n (a @ b) = b"
  by simp_all

lemma length_subslice [simp]: "length (subslice i j xs) = min (j - i) (length xs - i)"
  by (simp add: subslice_def)

lemma subslice_append_mid: "length a = i \<Longrightarrow> length b = j - i \<Longrightarrow> subslice i j (a @ b @ c) = b"
  by (simp add: subslice_def)

lemma length_filter_remove:
  "distinct ys \<Longrightarrow> i \<in> set ys \<Longrightarrow> length ys = Suc (length (filter (\<lambda>j. j \<noteq> i) ys))"
proof (induction ys)
  case (Cons y ys)
  then show ?case by (cases "y = i") (auto intro: filter_True [symmetric] arg_cong [of _ _ length])
qed simp

end
