(* ===== verification/Derp_Crypto.thy ===== *)
theory Derp_Crypto
  imports Derp_Prelude "HOL-Library.List_Lexorder"
begin

text \<open>
  Node keys and the server's key pair (\<open>src/src/crypto.rs\<close>), with the error types of
  \<open>src/src/protocol.rs\<close> and \<open>src/src/crypto.rs\<close>. The crates \<open>hex\<close> and \<open>crypto_box\<close> are
  parameters: a record of their functions, with the documented laws as named predicates. The random
  generator is an argument (the bytes it yields).
\<close>

subsection \<open>Errors\<close>

datatype IoErrorKind = UnexpectedEof | ConnectionReset | BrokenPipe | NotFound | OtherIo

datatype ProtocolError =
    Io IoErrorKind
  | FrameTooLarge nat
  | PacketTooLarge nat
  | Invalid string
  | InvalidKey

datatype 'h KeyError = KeyInvalid | KeyCrypto | KeyIo IoErrorKind | KeyHex 'h

subsection \<open>Node keys\<close>

definition KEY_LEN :: nat where "KEY_LEN = 32"
definition NONCE_LEN :: nat where "NONCE_LEN = 24"

datatype NodeKey = NodeKey (as_bytes: bytes)

definition NodeKey_new :: "bytes \<Rightarrow> ProtocolError + NodeKey" where
  "NodeKey_new bs = (if bs = replicate KEY_LEN 0 then Inl InvalidKey else Inr (NodeKey bs))"

definition from_slice :: "bytes \<Rightarrow> ProtocolError + NodeKey" where
  "from_slice value = (if length value = KEY_LEN then NodeKey_new value else Inl InvalidKey)"

text \<open>
  The type invariant of \<open>NodeKey\<close>: its field is private, an array of \<open>KEY_LEN\<close> bytes, and every
  constructor refuses the zero key.
\<close>

definition nodekey_ok :: "NodeKey \<Rightarrow> bool" where
  "nodekey_ok k \<longleftrightarrow> length (as_bytes k) = KEY_LEN \<and> as_bytes k \<noteq> replicate KEY_LEN 0"

text \<open>The order that \<open>#[derive(PartialOrd, Ord)]\<close> gives: lexicographic on the bytes.\<close>

instantiation NodeKey :: linorder
begin

definition less_eq_NodeKey :: "NodeKey \<Rightarrow> NodeKey \<Rightarrow> bool" where
  "less_eq_NodeKey a b \<longleftrightarrow> as_bytes a \<le> as_bytes b"

definition less_NodeKey :: "NodeKey \<Rightarrow> NodeKey \<Rightarrow> bool" where
  "less_NodeKey a b \<longleftrightarrow> as_bytes a < as_bytes b"

instance
  by standard (auto simp: less_eq_NodeKey_def less_NodeKey_def NodeKey.expand)

end

text \<open>The crate \<open>hex\<close>: \<open>hex::encode\<close> and \<open>hex::decode\<close>.\<close>

record 'h hex_lib =
  hex_encode :: "bytes \<Rightarrow> string"
  hex_decode :: "string \<Rightarrow> 'h + bytes"

text \<open>
  The documented laws: decoding inverts encoding, and an encoding is two digits of
  \<open>0123456789abcdef\<close> for each byte.
\<close>

definition hex_digits :: string where
  "hex_digits = ''0123456789abcdef''"

definition hex_lib_ok :: "'h hex_lib \<Rightarrow> bool" where
  "hex_lib_ok H \<longleftrightarrow>
     (\<forall>bs. hex_decode H (hex_encode H bs) = Inr bs \<and> length (hex_encode H bs) = 2 * length bs \<and>
           set (hex_encode H bs) \<subseteq> set hex_digits)"

definition to_hex :: "'h hex_lib \<Rightarrow> NodeKey \<Rightarrow> string" where
  "to_hex H k = hex_encode H (as_bytes k)"

definition short :: "'h hex_lib \<Rightarrow> NodeKey \<Rightarrow> string" where
  "short H k = hex_encode H (take 4 (as_bytes k))"

definition NodeKey_debug :: "'h hex_lib \<Rightarrow> NodeKey \<Rightarrow> string" where
  "NodeKey_debug H k = ''nodekey:'' @ short H k"

definition NodeKey_display :: "'h hex_lib \<Rightarrow> NodeKey \<Rightarrow> string" where
  "NodeKey_display H k = ''nodekey:'' @ to_hex H k"

text \<open>\<open>str::strip_prefix\<close>.\<close>

definition strip_prefix :: "string \<Rightarrow> string \<Rightarrow> string option" where
  "strip_prefix p s = (if take (length p) s = p then Some (drop (length p) s) else None)"

datatype 'h DeserializeError = DeHex 'h | DeProtocol ProtocolError | DeCustom string

definition NodeKey_serialize :: "'h hex_lib \<Rightarrow> NodeKey \<Rightarrow> string" where
  "NodeKey_serialize H k = to_hex H k"

definition NodeKey_deserialize :: "'h hex_lib \<Rightarrow> string \<Rightarrow> 'h DeserializeError + NodeKey" where
  "NodeKey_deserialize H s =
     (let s' = (case strip_prefix ''nodekey:'' s of Some t \<Rightarrow> t | None \<Rightarrow> s) in
      case hex_decode H s' of
        Inl e \<Rightarrow> Inl (DeHex e)
      | Inr raw \<Rightarrow>
          (case from_slice raw of Inl e \<Rightarrow> Inl (DeProtocol e) | Inr k \<Rightarrow> Inr k))"

subsection \<open>The key pair\<close>

record NodeKeyPair =
  secret :: bytes

text \<open>\<open>raw[0] &= 248; raw[31] &= 127; raw[31] |= 64\<close>\<close>

definition clamp :: "bytes \<Rightarrow> bytes" where
  "clamp raw =
     (let raw = raw[0 := raw ! 0 AND 248];
          raw = raw[31 := raw ! 31 AND 127]
      in raw[31 := raw ! 31 OR 64])"

definition generate :: "bytes \<Rightarrow> NodeKeyPair" where
  "generate rng = \<lparr>secret = clamp rng\<rparr>"

definition from_bytes :: "bytes \<Rightarrow> 'h KeyError + NodeKeyPair" where
  "from_bytes raw =
     (if raw = replicate KEY_LEN 0 then Inl KeyInvalid else Inr \<lparr>secret = clamp raw\<rparr>)"

definition private_bytes :: "NodeKeyPair \<Rightarrow> bytes" where
  "private_bytes kp = secret kp"

text \<open>
  The crate \<open>crypto_box\<close>: the public key of a secret key, and \<open>SalsaBox::new(pk, sk)\<close> with its
  \<open>encrypt\<close> and \<open>decrypt\<close> on a nonce.
\<close>

record box_lib =
  box_public :: "bytes \<Rightarrow> bytes"
  box_encrypt :: "bytes \<Rightarrow> bytes \<Rightarrow> bytes \<Rightarrow> bytes \<Rightarrow> bytes option"
  box_decrypt :: "bytes \<Rightarrow> bytes \<Rightarrow> bytes \<Rightarrow> bytes \<Rightarrow> bytes option"

text \<open>The documented laws: public keys have \<open>KEY_LEN\<close> bytes, and the two ends of a box agree.\<close>

definition box_lib_ok :: "box_lib \<Rightarrow> bool" where
  "box_lib_ok B \<longleftrightarrow>
     (\<forall>sk. length (box_public B sk) = KEY_LEN) \<and>
     (\<forall>a b nonce m c. length nonce = NONCE_LEN \<longrightarrow>
        box_encrypt B (box_public B b) a nonce m = Some c \<longrightarrow>
        box_decrypt B (box_public B a) b nonce c = Some m)"

text \<open>\<open>public\<close> panics on a zero public key; \<open>None\<close> is the panic.\<close>

definition public :: "box_lib \<Rightarrow> NodeKeyPair \<Rightarrow> NodeKey option" where
  "public B kp =
     (case NodeKey_new (box_public B (secret kp)) of Inl _ \<Rightarrow> None | Inr k \<Rightarrow> Some k)"

definition seal_to ::
    "box_lib \<Rightarrow> bytes \<Rightarrow> NodeKeyPair \<Rightarrow> NodeKey \<Rightarrow> bytes \<Rightarrow> 'h KeyError + bytes" where
  "seal_to B nonce kp peer plaintext =
     (case box_encrypt B (as_bytes peer) (secret kp) nonce plaintext of
        None \<Rightarrow> Inl KeyCrypto
      | Some encrypted \<Rightarrow> Inr (nonce @ encrypted))"

definition open_from ::
    "box_lib \<Rightarrow> NodeKeyPair \<Rightarrow> NodeKey \<Rightarrow> bytes \<Rightarrow> 'h KeyError + bytes" where
  "open_from B kp peer sealed =
     (if length sealed < NONCE_LEN then Inl KeyCrypto
      else case box_decrypt B (as_bytes peer) (secret kp)
                  (take NONCE_LEN sealed) (drop NONCE_LEN sealed) of
             None \<Rightarrow> Inl KeyCrypto
           | Some m \<Rightarrow> Inr m)"

subsection \<open>Keys are well formed\<close>

lemma KEY_LEN_eq [simp]: "KEY_LEN = 32" and NONCE_LEN_eq [simp]: "NONCE_LEN = 24"
  by (simp_all add: KEY_LEN_def NONCE_LEN_def)

lemma nodekey_ok_length [simp]: "nodekey_ok k \<Longrightarrow> length (as_bytes k) = 32"
  by (simp add: nodekey_ok_def)

lemma from_slice_Inr: "from_slice bs = Inr k \<longleftrightarrow> k = NodeKey bs \<and> nodekey_ok k"
  by (auto simp: from_slice_def NodeKey_new_def nodekey_ok_def split: if_splits)

lemma from_slice_as_bytes [simp]: "nodekey_ok k \<Longrightarrow> from_slice (as_bytes k) = Inr k"
  by (simp add: from_slice_Inr)

lemma from_slice_Inl: "from_slice bs = Inl e \<longleftrightarrow> e = InvalidKey \<and> \<not> nodekey_ok (NodeKey bs)"
  by (auto simp: from_slice_def NodeKey_new_def nodekey_ok_def split: if_splits)

lemma length_clamp [simp]: "length (clamp raw) = length raw"
  by (simp add: clamp_def Let_def)

lemma strip_prefix_append [simp]: "strip_prefix p (p @ s) = Some s"
  by (simp add: strip_prefix_def)

end
