(* ===== verification/Derp_Protocol.thy ===== *)
theory Derp_Protocol
  imports Derp_Crypto
begin

text \<open>
  The DERP v2 wire protocol (\<open>src/src/protocol.rs\<close>): frame types, the frame datatype, the encoder
  that appends to a batch buffer, the decoder, and reading and writing frames on byte streams.
\<close>

subsection \<open>Constants and frame types\<close>

text \<open>\<open>b"DERP\xF0\x9F\x94\x91"\<close>\<close>

definition MAGIC :: bytes where
  "MAGIC = [0x44, 0x45, 0x52, 0x50, 0xF0, 0x9F, 0x94, 0x91]"

definition PROTOCOL_VERSION :: u32 where "PROTOCOL_VERSION = 2"
definition FRAME_HEADER_LEN :: nat where "FRAME_HEADER_LEN = 5"
definition MAX_PACKET_SIZE :: nat where "MAX_PACKET_SIZE = 65536"
definition MAX_INFO_SIZE :: nat where "MAX_INFO_SIZE = 1048576"
definition MAX_CLIENT_INFO_SIZE :: nat where "MAX_CLIENT_INFO_SIZE = 262144"

datatype FrameType =
    T_ServerKey | T_ClientInfo | T_ServerInfo | T_SendPacket | T_RecvPacket | T_KeepAlive
  | T_NotePreferred | T_PeerGone | T_PeerPresent | T_ForwardPacket | T_WatchConns | T_ClosePeer
  | T_Ping | T_Pong | T_Health | T_Restarting

text \<open>\<open>FrameType::X as u8\<close>: the discriminants of the \<open>repr(u8)\<close> enum.\<close>

fun as_u8 :: "FrameType \<Rightarrow> byte" where
  "as_u8 T_ServerKey = 0x01"
| "as_u8 T_ClientInfo = 0x02"
| "as_u8 T_ServerInfo = 0x03"
| "as_u8 T_SendPacket = 0x04"
| "as_u8 T_RecvPacket = 0x05"
| "as_u8 T_KeepAlive = 0x06"
| "as_u8 T_NotePreferred = 0x07"
| "as_u8 T_PeerGone = 0x08"
| "as_u8 T_PeerPresent = 0x09"
| "as_u8 T_ForwardPacket = 0x0a"
| "as_u8 T_WatchConns = 0x10"
| "as_u8 T_ClosePeer = 0x11"
| "as_u8 T_Ping = 0x12"
| "as_u8 T_Pong = 0x13"
| "as_u8 T_Health = 0x14"
| "as_u8 T_Restarting = 0x15"

definition from_u8 :: "byte \<Rightarrow> FrameType option" where
  "from_u8 value =
     (if value = 0x01 then Some T_ServerKey
      else if value = 0x02 then Some T_ClientInfo
      else if value = 0x03 then Some T_ServerInfo
      else if value = 0x04 then Some T_SendPacket
      else if value = 0x05 then Some T_RecvPacket
      else if value = 0x06 then Some T_KeepAlive
      else if value = 0x07 then Some T_NotePreferred
      else if value = 0x08 then Some T_PeerGone
      else if value = 0x09 then Some T_PeerPresent
      else if value = 0x0a then Some T_ForwardPacket
      else if value = 0x10 then Some T_WatchConns
      else if value = 0x11 then Some T_ClosePeer
      else if value = 0x12 then Some T_Ping
      else if value = 0x13 then Some T_Pong
      else if value = 0x14 then Some T_Health
      else if value = 0x15 then Some T_Restarting
      else None)"

definition DISCONNECTED :: byte where "DISCONNECTED = 0x00"
definition NOT_HERE :: byte where "NOT_HERE = 0x01"

definition FLAG_REGULAR :: byte where "FLAG_REGULAR = 1"
definition FLAG_MESH :: byte where "FLAG_MESH = 2"
definition FLAG_PROBER :: byte where "FLAG_PROBER = 4"
definition FLAG_NOT_IDEAL :: byte where "FLAG_NOT_IDEAL = 8"

subsection \<open>Frames\<close>

text \<open>
  \<open>std::net\<close> addresses by their octets. A frame only carries the address and the port of a
  \<open>SocketAddr\<close>; the flow label and scope of a V6 address never reach the wire.
\<close>

datatype IpAddr = V4 bytes | V6 bytes

record SocketAddr =
  ip :: IpAddr
  port :: u16

definition to_ipv6_mapped :: "bytes \<Rightarrow> bytes" where
  "to_ipv6_mapped v4 = replicate 10 0 @ [0xff, 0xff] @ v4"

datatype Frame =
    ServerKey NodeKey
  | ClientInfoF NodeKey bytes
  | ServerInfoF bytes
  | SendPacket NodeKey bytes
  | ForwardPacket NodeKey NodeKey bytes
  | RecvPacket NodeKey bytes
  | KeepAlive
  | NotePreferred bool
  | PeerGone NodeKey byte
  | PeerPresent NodeKey "SocketAddr option" "byte option" bytes
  | WatchConns
  | ClosePeer NodeKey
  | Ping bytes
  | Pong bytes
  | Health bytes
  | Restarting u32 u32
  | Unknown byte bytes

fun kind :: "Frame \<Rightarrow> byte" where
  "kind (ServerKey _) = as_u8 T_ServerKey"
| "kind (ClientInfoF _ _) = as_u8 T_ClientInfo"
| "kind (ServerInfoF _) = as_u8 T_ServerInfo"
| "kind (SendPacket _ _) = as_u8 T_SendPacket"
| "kind (ForwardPacket _ _ _) = as_u8 T_ForwardPacket"
| "kind (RecvPacket _ _) = as_u8 T_RecvPacket"
| "kind KeepAlive = as_u8 T_KeepAlive"
| "kind (NotePreferred _) = as_u8 T_NotePreferred"
| "kind (PeerGone _ _) = as_u8 T_PeerGone"
| "kind (PeerPresent _ _ _ _) = as_u8 T_PeerPresent"
| "kind WatchConns = as_u8 T_WatchConns"
| "kind (ClosePeer _) = as_u8 T_ClosePeer"
| "kind (Ping _) = as_u8 T_Ping"
| "kind (Pong _) = as_u8 T_Pong"
| "kind (Health _) = as_u8 T_Health"
| "kind (Restarting _ _) = as_u8 T_Restarting"
| "kind (Unknown k _) = k"

definition validate_packet :: "bytes \<Rightarrow> ProtocolError + unit" where
  "validate_packet packet =
     (if length packet > MAX_PACKET_SIZE then Inl (PacketTooLarge (length packet)) else Inr ())"

definition require_len :: "bytes \<Rightarrow> nat \<Rightarrow> string \<Rightarrow> ProtocolError + unit" where
  "require_len payload len why = (if length payload < len then Inl (Invalid why) else Inr ())"

definition require_exact :: "bytes \<Rightarrow> nat \<Rightarrow> string \<Rightarrow> ProtocolError + unit" where
  "require_exact payload len why = (if length payload \<noteq> len then Inl (Invalid why) else Inr ())"

subsection \<open>Encoding into a batch buffer\<close>

text \<open>
  \<open>put_payload\<close> is the match of the closure in \<open>encode_into\<close>: it appends the payload to the buffer
  it is given and returns the buffer with the outcome of the checks.
\<close>

fun put_payload :: "Frame \<Rightarrow> bytes \<Rightarrow> bytes \<times> (ProtocolError + unit)" where
  "put_payload (ServerKey key) out = (out @ MAGIC @ as_bytes key, Inr ())"
| "put_payload (ClientInfoF key sealed) out = (out @ as_bytes key @ sealed, Inr ())"
| "put_payload (ServerInfoF sealed) out = (out @ sealed, Inr ())"
| "put_payload (Health sealed) out = (out @ sealed, Inr ())"
| "put_payload (SendPacket dst packet) out =
     (case validate_packet packet of
        Inl e \<Rightarrow> (out, Inl e)
      | Inr _ \<Rightarrow> (out @ as_bytes dst @ packet, Inr ()))"
| "put_payload (ForwardPacket src dst packet) out =
     (case validate_packet packet of
        Inl e \<Rightarrow> (out, Inl e)
      | Inr _ \<Rightarrow> (out @ as_bytes src @ as_bytes dst @ packet, Inr ()))"
| "put_payload (RecvPacket src packet) out =
     (case validate_packet packet of
        Inl e \<Rightarrow> (out, Inl e)
      | Inr _ \<Rightarrow> (out @ as_bytes src @ packet, Inr ()))"
| "put_payload KeepAlive out = (out, Inr ())"
| "put_payload WatchConns out = (out, Inr ())"
| "put_payload (NotePreferred value) out = (out @ [if value then 1 else 0], Inr ())"
| "put_payload (PeerGone peer reason) out = (out @ as_bytes peer @ [reason], Inr ())"
| "put_payload (PeerPresent peer endpoint flags extra) out =
     (let out = out @ as_bytes peer in
      case endpoint of
        None \<Rightarrow> (out, Inr ())
      | Some ep \<Rightarrow>
          (let octets = (case ip ep of V4 v4 \<Rightarrow> to_ipv6_mapped v4 | V6 v6 \<Rightarrow> v6);
               out = out @ octets;
               out = out @ u16_to_be (port ep);
               out = (case flags of Some f \<Rightarrow> out @ [f] | None \<Rightarrow> out)
           in (out @ extra, Inr ())))"
| "put_payload (ClosePeer peer) out = (out @ as_bytes peer, Inr ())"
| "put_payload (Ping value) out = (out @ value, Inr ())"
| "put_payload (Pong value) out = (out @ value, Inr ())"
| "put_payload (Restarting reconnect_in_ms try_for_ms) out =
     (out @ u32_to_be reconnect_in_ms @ u32_to_be try_for_ms, Inr ())"
| "put_payload (Unknown _ payload) out = (out @ payload, Inr ())"

definition encode_into :: "Frame \<Rightarrow> bytes \<Rightarrow> bytes \<times> (ProtocolError + unit)" where
  "encode_into f out =
     (let frame_start = length out;
          out = out @ [kind f];
          out = out @ u32_to_be 0;
          payload_start = length out;
          (out, encoded) =
            (case put_payload f out of
               (out, Inl e) \<Rightarrow> (out, Inl e)
             | (out, Inr _) \<Rightarrow>
                 (let payload_len = length out - payload_start in
                  if payload_len < 2 ^ 32
                  then (take (frame_start + 1) out @ u32_to_be (of_nat payload_len)
                          @ drop (frame_start + FRAME_HEADER_LEN) out, Inr ())
                  else (out, Inl (FrameTooLarge payload_len))))
      in case encoded of
           Inl e \<Rightarrow> (take frame_start out, Inl e)
         | Inr u \<Rightarrow> (out, Inr u))"

definition encode :: "Frame \<Rightarrow> ProtocolError + bytes" where
  "encode f = (case encode_into f [] of (out, Inl e) \<Rightarrow> Inl e | (out, Inr _) \<Rightarrow> Inr out)"

subsection \<open>Decoding\<close>

definition decode_peer_present :: "bytes \<Rightarrow> ProtocolError + Frame" where
  "decode_peer_present payload =
     try_res (require_len payload KEY_LEN ''short peer present'') (\<lambda>_.
     try_res (from_slice (take KEY_LEN payload)) (\<lambda>peer.
       let endpoint =
             (if length payload \<ge> KEY_LEN + 18
              then Some \<lparr>ip = V6 (subslice KEY_LEN (KEY_LEN + 16) payload),
                         port = u16_of_be (payload ! (KEY_LEN + 16)) (payload ! (KEY_LEN + 17))\<rparr>
              else None);
           flags = (if KEY_LEN + 18 < length payload then Some (payload ! (KEY_LEN + 18)) else None);
           extra = (if length payload > KEY_LEN + 19 then drop (KEY_LEN + 19) payload else [])
       in Inr (PeerPresent peer endpoint flags extra)))"

fun decode_as :: "FrameType \<Rightarrow> bytes \<Rightarrow> ProtocolError + Frame" where
  "decode_as T_ServerKey payload =
     (if length payload < length MAGIC + KEY_LEN \<or> take (length MAGIC) payload \<noteq> MAGIC
      then Inl (Invalid ''bad server greeting'')
      else try_res (from_slice (subslice (length MAGIC) (length MAGIC + KEY_LEN) payload))
             (\<lambda>key. Inr (ServerKey key)))"
| "decode_as T_ClientInfo payload =
     try_res (require_len payload (KEY_LEN + NONCE_LEN) ''short client info'') (\<lambda>_.
     try_res (from_slice (take KEY_LEN payload)) (\<lambda>key.
       Inr (ClientInfoF key (drop KEY_LEN payload))))"
| "decode_as T_ServerInfo payload =
     try_res (require_len payload NONCE_LEN ''short server info'') (\<lambda>_.
       Inr (ServerInfoF payload))"
| "decode_as T_SendPacket payload =
     try_res (require_len payload KEY_LEN ''short send packet'') (\<lambda>_.
     let packet = drop KEY_LEN payload in
     try_res (validate_packet packet) (\<lambda>_.
     try_res (from_slice (take KEY_LEN payload)) (\<lambda>dst.
       Inr (SendPacket dst packet))))"
| "decode_as T_ForwardPacket payload =
     try_res (require_len payload (KEY_LEN * 2) ''short forward packet'') (\<lambda>_.
     let packet = drop (KEY_LEN * 2) payload in
     try_res (validate_packet packet) (\<lambda>_.
     try_res (from_slice (take KEY_LEN payload)) (\<lambda>src.
     try_res (from_slice (subslice KEY_LEN (KEY_LEN * 2) payload)) (\<lambda>dst.
       Inr (ForwardPacket src dst packet)))))"
| "decode_as T_RecvPacket payload =
     try_res (require_len payload KEY_LEN ''short recv packet'') (\<lambda>_.
     let packet = drop KEY_LEN payload in
     try_res (validate_packet packet) (\<lambda>_.
     try_res (from_slice (take KEY_LEN payload)) (\<lambda>src.
       Inr (RecvPacket src packet))))"
| "decode_as T_KeepAlive payload =
     try_res (require_exact payload 0 ''keepalive'') (\<lambda>_. Inr KeepAlive)"
| "decode_as T_NotePreferred payload =
     try_res (require_exact payload 1 ''note preferred'') (\<lambda>_.
       Inr (NotePreferred (payload ! 0 \<noteq> 0)))"
| "decode_as T_PeerGone payload =
     try_res (require_len payload KEY_LEN ''short peer gone'') (\<lambda>_.
     try_res (from_slice (take KEY_LEN payload)) (\<lambda>peer.
       Inr (PeerGone peer
              (if KEY_LEN < length payload then payload ! KEY_LEN else DISCONNECTED))))"
| "decode_as T_PeerPresent payload = decode_peer_present payload"
| "decode_as T_WatchConns payload =
     try_res (require_exact payload 0 ''watch conns'') (\<lambda>_. Inr WatchConns)"
| "decode_as T_ClosePeer payload =
     try_res (require_exact payload KEY_LEN ''close peer'') (\<lambda>_.
     try_res (from_slice payload) (\<lambda>peer. Inr (ClosePeer peer)))"
| "decode_as T_Ping payload =
     try_res (require_len payload 8 ''short ping/pong'') (\<lambda>_.
       if length payload > 1000 then Inl (Invalid ''oversized ping/pong'')
       else Inr (Ping (take 8 payload)))"
| "decode_as T_Pong payload =
     try_res (require_len payload 8 ''short ping/pong'') (\<lambda>_.
       if length payload > 1000 then Inl (Invalid ''oversized ping/pong'')
       else Inr (Pong (take 8 payload)))"
| "decode_as T_Health payload = Inr (Health payload)"
| "decode_as T_Restarting payload =
     try_res (require_len payload 8 ''short restarting'') (\<lambda>_.
       Inr (Restarting (u32_from_slice (take 4 payload)) (u32_from_slice (subslice 4 8 payload))))"

definition decode :: "byte \<Rightarrow> bytes \<Rightarrow> ProtocolError + Frame" where
  "decode k payload =
     (case from_u8 k of
        None \<Rightarrow> Inr (Unknown k payload)
      | Some frame_type \<Rightarrow> decode_as frame_type payload)"

subsection \<open>Frames on streams\<close>

text \<open>
  What is left to read of an \<open>AsyncRead\<close>: the bytes still to come and the error at their end
  (\<open>UnexpectedEof\<close> for an orderly end).
\<close>

type_synonym stream = "bytes \<times> IoErrorKind"

definition read_exact :: "nat \<Rightarrow> stream \<Rightarrow> ProtocolError + (bytes \<times> stream)" where
  "read_exact n r =
     (if n \<le> length (fst r) then Inr (take n (fst r), (drop n (fst r), snd r))
      else Inl (Io (snd r)))"

definition read_frame :: "stream \<Rightarrow> nat \<Rightarrow> ProtocolError + (Frame \<times> stream)" where
  "read_frame reader max_len =
     try_res (read_exact FRAME_HEADER_LEN reader) (\<lambda>(header, reader).
       let len = unat (u32_from_slice (drop 1 header)) in
       if len > max_len then Inl (FrameTooLarge len)
       else try_res (read_exact len reader) (\<lambda>(payload, reader).
            try_res (decode (header ! 0) payload) (\<lambda>f. Inr (f, reader))))"

text \<open>\<open>write_all\<close> of the writer is a parameter, as \<open>W: AsyncWrite\<close> is.\<close>

definition write_frame ::
    "('w \<Rightarrow> bytes \<Rightarrow> IoErrorKind + 'w) \<Rightarrow> 'w \<Rightarrow> Frame \<Rightarrow> ProtocolError + 'w" where
  "write_frame write_all writer f =
     try_res (encode f) (\<lambda>raw.
       case write_all writer raw of Inl e \<Rightarrow> Inl (Io e) | Inr w \<Rightarrow> Inr w)"

subsection \<open>Handshake payloads\<close>

record ClientInfo =
  ci_mesh_key :: "bytes option"
  ci_version :: u32
  ci_can_ack_pings :: bool
  ci_is_prober :: bool

record ServerInfo =
  si_version :: u32
  si_token_bucket_bytes_per_second :: "u64 option"
  si_token_bucket_bytes_burst :: "u64 option"

definition optional_hex_key_serialize :: "'h hex_lib \<Rightarrow> bytes option \<Rightarrow> string option" where
  "optional_hex_key_serialize H v = (case v of Some k \<Rightarrow> Some (hex_encode H k) | None \<Rightarrow> None)"

definition optional_hex_key_deserialize ::
    "'h hex_lib \<Rightarrow> string option \<Rightarrow> 'h DeserializeError + bytes option" where
  "optional_hex_key_deserialize H v =
     (case v of
        None \<Rightarrow> Inr None
      | Some s \<Rightarrow>
          (case hex_decode H s of
             Inl e \<Rightarrow> Inl (DeHex e)
           | Inr b \<Rightarrow> if length b = 32 then Inr (Some b)
                      else Inl (DeCustom ''mesh key must be 32 bytes'')))"

end
