(* ===== verification/Derp_Codec.thy ===== *)
theory Derp_Codec
  imports Derp_Protocol
begin

text \<open>
  Correctness of the frame codec: what \<open>encode_into\<close> appends, what \<open>decode\<close> accepts, and the round
  trip through a byte stream for a single frame and for a whole batch. The contract between a batch
  writer and a frame reader is the locale \<open>stream_codec\<close>; the codec of the program interprets it.
\<close>

subsection \<open>Well-formed frames\<close>

text \<open>The invariants of the Rust types: array lengths and the key invariant.\<close>

fun addr_ok :: "IpAddr \<Rightarrow> bool" where
  "addr_ok (V4 o4) \<longleftrightarrow> length o4 = 4"
| "addr_ok (V6 o6) \<longleftrightarrow> length o6 = 16"

fun frame_wf :: "Frame \<Rightarrow> bool" where
  "frame_wf (ServerKey k) \<longleftrightarrow> nodekey_ok k"
| "frame_wf (ClientInfoF k _) \<longleftrightarrow> nodekey_ok k"
| "frame_wf (SendPacket k _) \<longleftrightarrow> nodekey_ok k"
| "frame_wf (ForwardPacket s d _) \<longleftrightarrow> nodekey_ok s \<and> nodekey_ok d"
| "frame_wf (RecvPacket k _) \<longleftrightarrow> nodekey_ok k"
| "frame_wf (PeerGone k _) \<longleftrightarrow> nodekey_ok k"
| "frame_wf (PeerPresent k ep _ _) \<longleftrightarrow>
     nodekey_ok k \<and> (case ep of None \<Rightarrow> True | Some a \<Rightarrow> addr_ok (ip a))"
| "frame_wf (ClosePeer k) \<longleftrightarrow> nodekey_ok k"
| "frame_wf (Ping v) \<longleftrightarrow> length v = 8"
| "frame_wf (Pong v) \<longleftrightarrow> length v = 8"
| "frame_wf _ \<longleftrightarrow> True"

text \<open>
  What a receiver additionally asks of a frame: a sealed box holds at least its nonce, and an
  unknown frame carries an unassigned type byte.
\<close>

fun frame_acceptable :: "Frame \<Rightarrow> bool" where
  "frame_acceptable (ClientInfoF _ sealed) \<longleftrightarrow> NONCE_LEN \<le> length sealed"
| "frame_acceptable (ServerInfoF sealed) \<longleftrightarrow> NONCE_LEN \<le> length sealed"
| "frame_acceptable (Unknown k _) \<longleftrightarrow> from_u8 k = None"
| "frame_acceptable _ \<longleftrightarrow> True"

text \<open>
  What the wire keeps of a frame. Only \<open>PeerPresent\<close> is not carried verbatim: an IPv4 endpoint
  arrives as the mapped IPv6 address, and the flag byte is positional.
\<close>

fun wire_normal :: "Frame \<Rightarrow> Frame" where
  "wire_normal (PeerPresent k None flags extra) = PeerPresent k None None []"
| "wire_normal (PeerPresent k (Some ep) flags extra) =
     (let ep' = ep\<lparr>ip := V6 (case ip ep of V4 o4 \<Rightarrow> to_ipv6_mapped o4 | V6 o6 \<Rightarrow> o6)\<rparr>
      in case flags of
           Some f \<Rightarrow> PeerPresent k (Some ep') (Some f) extra
         | None \<Rightarrow> (case extra of
                      [] \<Rightarrow> PeerPresent k (Some ep') None []
                    | x # xs \<Rightarrow> PeerPresent k (Some ep') (Some x) xs))"
| "wire_normal f = f"

definition payload_of :: "Frame \<Rightarrow> ProtocolError + bytes" where
  "payload_of f = (case put_payload f [] of (p, Inl e) \<Rightarrow> Inl e | (p, Inr _) \<Rightarrow> Inr p)"

lemma constant_values [simp]:
  "FRAME_HEADER_LEN = 5" "MAX_PACKET_SIZE = 65536" "MAX_INFO_SIZE = 1048576"
  "MAX_CLIENT_INFO_SIZE = 262144" "length MAGIC = 8"
  by (simp_all add: FRAME_HEADER_LEN_def MAX_PACKET_SIZE_def MAX_INFO_SIZE_def
      MAX_CLIENT_INFO_SIZE_def MAGIC_def)

lemma from_u8_as_u8 [simp]: "from_u8 (as_u8 t) = Some t"
  by (cases t) (simp_all add: from_u8_def)

declare as_u8.simps [simp del]

lemma as_u8_from_u8: "from_u8 b = Some t \<Longrightarrow> as_u8 t = b"
  by (auto simp: from_u8_def as_u8.simps split: if_splits)

lemma validate_packet_Inr [simp]: "validate_packet p = Inr u \<longleftrightarrow> length p \<le> 65536"
  by (auto simp: validate_packet_def)

lemma require_len_Inr [simp]: "require_len p n why = Inr u \<longleftrightarrow> n \<le> length p"
  by (auto simp: require_len_def)

lemma require_exact_Inr [simp]: "require_exact p n why = Inr u \<longleftrightarrow> length p = n"
  by (auto simp: require_exact_def)

lemma check_Inl [simp]:
  "validate_packet p = Inl e \<longleftrightarrow> 65536 < length p \<and> e = PacketTooLarge (length p)"
  "require_len p n why = Inl e \<longleftrightarrow> length p < n \<and> e = Invalid why"
  "require_exact p n why = Inl e \<longleftrightarrow> length p \<noteq> n \<and> e = Invalid why"
  by (auto simp: validate_packet_def require_len_def require_exact_def)

lemma put_payload_append:
  "put_payload f out = (case payload_of f of Inl e \<Rightarrow> (out, Inl e) | Inr p \<Rightarrow> (out @ p, Inr ()))"
  by (cases f) (simp_all add: payload_of_def Let_def split: sum.splits option.splits IpAddr.splits)

subsection \<open>What the encoder appends\<close>

definition frame_bytes :: "Frame \<Rightarrow> bytes \<Rightarrow> bytes" where
  "frame_bytes f p = kind f # u32_to_be (of_nat (length p)) @ p"

lemma length_frame_bytes [simp]: "length (frame_bytes f p) = 5 + length p"
  by (simp add: frame_bytes_def)

lemma encode_into_eq:
  "encode_into f out =
     (case payload_of f of
        Inl e \<Rightarrow> (out, Inl e)
      | Inr p \<Rightarrow> if length p < 2 ^ 32 then (out @ frame_bytes f p, Inr ())
                 else (out, Inl (FrameTooLarge (length p))))"
  by (simp add: encode_into_def put_payload_append frame_bytes_def Let_def split: sum.splits)

lemma encode_eq:
  "encode f =
     (case payload_of f of
        Inl e \<Rightarrow> Inl e
      | Inr p \<Rightarrow> if length p < 2 ^ 32 then Inr (frame_bytes f p)
                 else Inl (FrameTooLarge (length p)))"
  by (simp add: encode_def encode_into_eq split: sum.splits)

lemma encode_into_encode:
  "encode_into f out = (case encode f of Inl e \<Rightarrow> (out, Inl e) | Inr raw \<Rightarrow> (out @ raw, Inr ()))"
  by (simp add: encode_into_eq encode_eq split: sum.splits)

lemma encode_Inr:
  "encode f = Inr raw \<longleftrightarrow>
     (\<exists>p. payload_of f = Inr p \<and> length p < 2 ^ 32 \<and> raw = frame_bytes f p)"
  by (auto simp: encode_eq split: sum.splits if_splits)

lemma payload_of_simps [simp]:
  "payload_of (ServerKey k) = Inr (MAGIC @ as_bytes k)"
  "payload_of (ClientInfoF k s) = Inr (as_bytes k @ s)"
  "payload_of (ServerInfoF s) = Inr s"
  "payload_of (Health s) = Inr s"
  "payload_of KeepAlive = Inr []"
  "payload_of WatchConns = Inr []"
  "payload_of (NotePreferred v) = Inr [if v then 1 else 0]"
  "payload_of (PeerGone k r) = Inr (as_bytes k @ [r])"
  "payload_of (ClosePeer k) = Inr (as_bytes k)"
  "payload_of (Ping d) = Inr d"
  "payload_of (Pong d) = Inr d"
  "payload_of (Restarting a b) = Inr (u32_to_be a @ u32_to_be b)"
  "payload_of (Unknown c p) = Inr p"
  "payload_of (PeerPresent k None fl ex) = Inr (as_bytes k)"
  by (simp_all add: payload_of_def)

lemma payload_of_packets:
  "payload_of (SendPacket d p) =
     (if length p \<le> 65536 then Inr (as_bytes d @ p) else Inl (PacketTooLarge (length p)))"
  "payload_of (ForwardPacket s d p) =
     (if length p \<le> 65536 then Inr (as_bytes s @ as_bytes d @ p)
      else Inl (PacketTooLarge (length p)))"
  "payload_of (RecvPacket s p) =
     (if length p \<le> 65536 then Inr (as_bytes s @ p) else Inl (PacketTooLarge (length p)))"
  by (simp_all add: payload_of_def validate_packet_def)

lemma payload_of_present:
  "payload_of (PeerPresent k (Some ep) fl ex) =
     Inr (as_bytes k @ (case ip ep of V4 o4 \<Rightarrow> to_ipv6_mapped o4 | V6 o6 \<Rightarrow> o6)
            @ u16_to_be (port ep) @ (case fl of Some b \<Rightarrow> [b] | None \<Rightarrow> []) @ ex)"
  by (simp add: payload_of_def Let_def split: option.splits)

subsection \<open>The round trip of one frame\<close>

lemma subslice_key [simp]:
  "nodekey_ok d \<Longrightarrow> length s = 32 \<Longrightarrow> subslice 32 64 (s @ as_bytes d @ p) = as_bytes d"
  by (simp add: subslice_def)

lemma decode_present:
  assumes "nodekey_ok k" and "length o6 = 16"
  shows "decode_peer_present (as_bytes k @ o6 @ u16_to_be w @ rest) =
           Inr (PeerPresent k (Some \<lparr>ip = V6 o6, port = w\<rparr>)
                  (case rest of [] \<Rightarrow> None | b # _ \<Rightarrow> Some b) (case rest of [] \<Rightarrow> [] | _ # bs \<Rightarrow> bs))"
  using assms
  by (cases rest)
    (simp_all add: decode_peer_present_def subslice_def nth_append require_len_def u16_to_be_def)

lemmas decode_present_nil = decode_present [where rest = "[]", simplified]

lemma decode_payload:
  assumes "frame_wf f" and "frame_acceptable f" and "payload_of f = Inr p"
  shows "decode (kind f) p = Inr (wire_normal f)"
proof (cases f)
  case (PeerPresent k ep fl ex)
  then show ?thesis
  proof (cases ep)
    case None
    with PeerPresent assms show ?thesis
      by (auto simp: decode_def decode_peer_present_def require_len_def)
  next
    case (Some a)
    have "length (case ip a of V4 o4 \<Rightarrow> to_ipv6_mapped o4 | V6 o6 \<Rightarrow> o6) = 16"
      using assms(1) PeerPresent Some by (cases "ip a") (auto simp: to_ipv6_mapped_def)
    with assms PeerPresent Some show ?thesis
      by (auto simp: decode_def payload_of_present decode_present decode_present_nil Let_def
          split: option.splits list.splits)
  qed
qed (use assms in \<open>auto simp: decode_def payload_of_packets require_len_def require_exact_def
       validate_packet_def subslice_def nth_append split: if_splits\<close>)

lemma unat_u32_len: "n < 2 ^ 32 \<Longrightarrow> unat (of_nat n :: u32) = n"
  by (simp add: unat_of_nat)

lemma read_frame_bytes:
  assumes "length p < 2 ^ 32" and "length p \<le> max_len"
  shows "read_frame (frame_bytes f p @ rest, e) max_len =
           try_res (decode (kind f) p) (\<lambda>g. Inr (g, (rest, e)))"
  using assms by (simp add: read_frame_def read_exact_def frame_bytes_def unat_u32_len Let_def)

lemma read_frame_encode:
  assumes "frame_wf f" "frame_acceptable f" "encode f = Inr raw"
    and "length raw \<le> FRAME_HEADER_LEN + max_len"
  shows "read_frame (raw @ rest, e) max_len = Inr (wire_normal f, (rest, e))"
  using assms by (auto simp: encode_Inr read_frame_bytes decode_payload)

subsection \<open>What the decoder accepts\<close>

lemma decode_frame_wf: "decode k p = Inr f \<Longrightarrow> frame_wf f"
  by (cases "from_u8 k"; cases "the (from_u8 k)")
    (auto simp: decode_def decode_peer_present_def try_res_Inr from_slice_Inr Let_def
      split: if_splits)

lemma decode_kind: "decode k p = Inr f \<Longrightarrow> kind f = k"
  by (cases "from_u8 k"; cases "the (from_u8 k)")
    (auto simp: decode_def decode_peer_present_def try_res_Inr Let_def as_u8_from_u8
      split: if_splits)

lemma decode_acceptable: "decode k p = Inr f \<Longrightarrow> frame_acceptable f"
  by (cases "from_u8 k"; cases "the (from_u8 k)")
    (auto simp: decode_def decode_peer_present_def try_res_Inr Let_def split: if_splits)

lemma decode_wire_normal: "decode k p = Inr f \<Longrightarrow> wire_normal f = f"
  by (cases "from_u8 k"; cases "the (from_u8 k)")
    (auto simp: decode_def decode_peer_present_def try_res_Inr Let_def split: if_splits)

lemma decode_encodable: "decode k p = Inr f \<Longrightarrow> \<exists>p'. payload_of f = Inr p' \<and> length p' \<le> Suc (length p)"
  by (cases "from_u8 k"; cases "the (from_u8 k)")
    (auto simp: decode_def decode_peer_present_def try_res_Inr from_slice_Inr Let_def
      payload_of_packets payload_of_present subslice_def split: if_splits)

subsection \<open>Batches\<close>

text \<open>
  A batch is built by appending frames one after the other to the same buffer, stopping at the
  first error; a peer reads it back frame by frame.
\<close>

fun put_all :: "('f \<Rightarrow> bytes \<Rightarrow> bytes \<times> ('e + unit)) \<Rightarrow> 'f list \<Rightarrow> bytes \<Rightarrow> bytes \<times> ('e + unit)" where
  "put_all put [] out = (out, Inr ())"
| "put_all put (f # fs) out =
     (case put f out of (out, Inl e) \<Rightarrow> (out, Inl e) | (out, Inr _) \<Rightarrow> put_all put fs out)"

fun get_n :: "('s \<Rightarrow> 'e + ('f \<times> 's)) \<Rightarrow> nat \<Rightarrow> 's \<Rightarrow> 'e + ('f list \<times> 's)" where
  "get_n get 0 s = Inr ([], s)"
| "get_n get (Suc n) s =
     try_res (get s) (\<lambda>(f, s). try_res (get_n get n s) (\<lambda>(fs, s). Inr (f # fs, s)))"

locale stream_codec =
  fixes put :: "'f \<Rightarrow> bytes \<Rightarrow> bytes \<times> ('e + unit)"
    and get :: "stream \<Rightarrow> 'd + ('f \<times> stream)"
    and norm :: "'f \<Rightarrow> 'f"
    and sendable :: "'f \<Rightarrow> bool"
  assumes put_get: "sendable f \<Longrightarrow>
    \<exists>raw. (\<forall>out. put f out = (out @ raw, Inr ())) \<and>
          (\<forall>rest e. get (raw @ rest, e) = Inr (norm f, (rest, e)))"
begin

lemma put_all_get_n:
  "\<forall>f\<in>set fs. sendable f \<Longrightarrow>
     \<exists>raw. (\<forall>out. put_all put fs out = (out @ raw, Inr ())) \<and>
           (\<forall>rest e. get_n get (length fs) (raw @ rest, e) = Inr (map norm fs, (rest, e)))"
proof (induction fs)
  case Nil
  then show ?case by simp
next
  case (Cons f fs)
  then obtain ra rb where
    "\<forall>out. put f out = (out @ ra, Inr ())"
    "\<forall>rest e. get (ra @ rest, e) = Inr (norm f, (rest, e))"
    "\<forall>out. put_all put fs out = (out @ rb, Inr ())"
    "\<forall>rest e. get_n get (length fs) (rb @ rest, e) = Inr (map norm fs, (rest, e))"
    using put_get [of f] by auto
  then show ?case by (intro exI [of _ "ra @ rb"]) simp
qed

end

text \<open>A frame that a reader with limit \<open>max_len\<close> takes.\<close>

definition sendable :: "nat \<Rightarrow> Frame \<Rightarrow> bool" where
  "sendable max_len f \<longleftrightarrow> frame_wf f \<and> frame_acceptable f \<and>
     (case encode f of Inl _ \<Rightarrow> False | Inr raw \<Rightarrow> length raw \<le> FRAME_HEADER_LEN + max_len)"

interpretation derp: stream_codec encode_into "\<lambda>r. read_frame r max_len" wire_normal "sendable max_len"
  for max_len
  by unfold_locales
    (fastforce simp: sendable_def encode_into_encode read_frame_encode split: sum.splits)

end
