(* ===== verification/Derp_F64.thy ===== *)
theory Derp_F64
  imports Derp_Prelude "HOL-Library.Log_Nat"
begin

text \<open>
  IEEE 754 binary64 arithmetic as the two token buckets of the program use it: a value is a
  rational, and every operation rounds its exact result to 53 significant bits, half to even. The
  model leaves out subnormal numbers and overflow: every quantity the program computes is zero or
  lies between \<open>10 ^ -9\<close> and \<open>2 ^ 130\<close>.
\<close>

text \<open>Round half to even.\<close>

definition rne :: "rat \<Rightarrow> int" where
  "rne r = (let f = \<lfloor>r\<rfloor>; d = r - of_int f in
            if d < 1 / 2 then f else if d > 1 / 2 then f + 1 else if even f then f else f + 1)"

text \<open>The exponent \<open>e\<close> with \<open>2 ^ e \<le> x < 2 ^ (e + 1)\<close> of a positive \<open>x\<close>.\<close>

definition exponent :: "rat \<Rightarrow> int" where
  "exponent x = (if 1 \<le> x then int (floorlog 2 (nat \<lfloor>x\<rfloor>)) - 1 else - int (ceillog2 (nat \<lceil>1 / x\<rceil>)))"

definition f64_round :: "rat \<Rightarrow> rat" where
  "f64_round x =
     (if x = 0 then 0
      else let q = 2 powi (exponent \<bar>x\<bar> - 52)
           in sgn x * of_int (rne (\<bar>x\<bar> / q)) * q)"

subsection \<open>Rounding to an integer\<close>

lemma rne_of_int [simp]: "rne (of_int n) = n"
  by (simp add: rne_def)

lemma rne_mono: "x \<le> y \<Longrightarrow> rne x \<le> rne y"
proof -
  assume le: "x \<le> y"
  then have fl: "\<lfloor>x\<rfloor> \<le> \<lfloor>y\<rfloor>" by (rule floor_mono)
  show ?thesis
  proof (cases "\<lfloor>x\<rfloor> = \<lfloor>y\<rfloor>")
    case True
    with le show ?thesis by (auto simp: rne_def Let_def)
  next
    case False
    with fl have "\<lfloor>x\<rfloor> + 1 \<le> \<lfloor>y\<rfloor>" by simp
    moreover have "rne x \<le> \<lfloor>x\<rfloor> + 1" and "\<lfloor>y\<rfloor> \<le> rne y"
      by (auto simp: rne_def Let_def)
    ultimately show ?thesis by linarith
  qed
qed

lemma rne_error: "\<bar>of_int (rne r) - r\<bar> \<le> 1 / 2"
proof -
  have "of_int \<lfloor>r\<rfloor> \<le> r" and "r < of_int \<lfloor>r\<rfloor> + 1" by linarith+
  then show ?thesis by (auto simp: rne_def Let_def abs_le_iff)
qed

subsection \<open>The exponent\<close>

lemma exponent_ge_1:
  assumes "1 \<le> x"
  shows "2 powi exponent x \<le> x" and "x < 2 powi (exponent x + 1)"
proof -
  let ?n = "nat \<lfloor>x\<rfloor>"
  have n: "0 < ?n" using assms by simp
  have pos: "0 < floorlog 2 ?n" using n by (simp add: floorlog_def)
  have b: "2 ^ (floorlog 2 ?n - 1) \<le> ?n" "?n < 2 ^ floorlog 2 ?n"
    using floorlog_bounds [OF n, of 2] by auto
  have e: "exponent x = int (floorlog 2 ?n - 1)" using assms pos by (simp add: exponent_def)
  have "2 powi exponent x = of_nat (2 ^ (floorlog 2 ?n - 1))" by (simp add: e)
  also have "\<dots> \<le> (of_nat ?n :: rat)" using b(1) of_nat_le_iff by blast
  also have "\<dots> \<le> x" using assms by simp
  finally show "2 powi exponent x \<le> x" .
  have "x < of_int (\<lfloor>x\<rfloor> + 1)" by linarith
  also have "\<dots> = of_nat (?n + 1)" using assms by simp
  also have "\<dots> \<le> (of_nat (2 ^ floorlog 2 ?n) :: rat)" using b(2) by (subst of_nat_le_iff) linarith
  also have "\<dots> = 2 powi (exponent x + 1)" using pos by (simp add: e power_int_add)
  finally show "x < 2 powi (exponent x + 1)" .
qed

lemma exponent_lt_1:
  assumes "0 < x" "x < 1"
  shows "2 powi exponent x \<le> x" and "x < 2 powi (exponent x + 1)"
proof -
  let ?n = "nat \<lceil>1 / x\<rceil>"
  have inv: "1 < 1 / x" using assms by simp
  then have n: "1 < ?n" by (simp add: less_ceiling_iff)
  have e: "exponent x = - int (ceillog2 ?n)" using assms by (simp add: exponent_def)
  have "1 / x \<le> of_nat ?n" using inv by (simp add: le_of_int_ceiling)
  also have "\<dots> \<le> (of_nat (2 ^ ceillog2 ?n) :: rat)"
    by (subst of_nat_le_iff) (rule le_two_power_ceillog2)
  finally have le: "1 / x \<le> 2 ^ ceillog2 ?n" by simp
  show "2 powi exponent x \<le> x"
    using le assms by (simp add: e power_int_minus field_simps)
  obtain k where k: "ceillog2 ?n = Suc k"
    using n by (metis ceillog2_le_iff le_less_trans less_irrefl not0_implies_Suc order_refl
        power_0 zero_less_one less_trans)
  have "\<not> ?n \<le> 2 ^ k" using k n ceillog2_le_iff [of ?n k] by linarith
  then have "(2 ^ k :: nat) < ?n" by simp
  then have "of_nat (2 ^ k) < (1 / x :: rat)"
    by (metis less_ceiling_iff of_int_of_nat_eq zless_nat_eq_int_zless)
  then have "2 ^ k < 1 / x" by simp
  then show "x < 2 powi (exponent x + 1)"
    using assms by (simp add: e k power_int_minus field_simps)
qed

lemma exponent_bounds:
  assumes "0 < x"
  shows "2 powi exponent x \<le> x" and "x < 2 powi (exponent x + 1)"
  using exponent_ge_1 [of x] exponent_lt_1 [of x] assms by (cases "1 \<le> x"; simp)+

subsection \<open>The rounding\<close>

abbreviation quantum :: "rat \<Rightarrow> rat" where
  "quantum x \<equiv> 2 powi (exponent x - 52)"

lemma f64_round_0 [simp]: "f64_round 0 = 0"
  by (simp add: f64_round_def)

lemma f64_round_pos: "0 < x \<Longrightarrow> f64_round x = of_int (rne (x / quantum x)) * quantum x"
  by (simp add: f64_round_def Let_def)

lemma f64_round_minus: "f64_round (- x) = - f64_round x"
  by (simp add: f64_round_def Let_def sgn_minus)

lemma quantum_pos [simp]: "0 < quantum x"
  by simp

text \<open>Rounding keeps a value inside its binade, so it is monotone across binades too.\<close>

lemma f64_round_binade:
  assumes "0 < x"
  shows "2 powi exponent x \<le> f64_round x" and "f64_round x \<le> 2 powi (exponent x + 1)"
proof -
  have q: "2 powi exponent x = 2 ^ 52 * quantum x" and q': "2 powi (exponent x + 1) = 2 ^ 53 * quantum x"
    by (simp_all add: power_int_diff power_int_add)
  have "of_int (2 ^ 52) \<le> x / quantum x" and "x / quantum x \<le> of_int (2 ^ 53)"
    using exponent_bounds [OF assms] by (simp_all add: q q' pos_le_divide_eq pos_divide_le_eq)
  then have "2 ^ 52 \<le> rne (x / quantum x)" "rne (x / quantum x) \<le> 2 ^ 53"
    using rne_mono rne_of_int by metis+
  then have "(of_int (2 ^ 52) :: rat) \<le> of_int (rne (x / quantum x))"
    "(of_int (rne (x / quantum x)) :: rat) \<le> of_int (2 ^ 53)"
    by (simp_all only: of_int_le_iff)
  then show "2 powi exponent x \<le> f64_round x" and "f64_round x \<le> 2 powi (exponent x + 1)"
    using assms by (simp_all add: f64_round_pos q q' del: of_int_power)
qed

lemma f64_round_mono_pos:
  assumes "0 < x" "x \<le> y"
  shows "f64_round x \<le> f64_round y"
proof (cases "exponent x = exponent y")
  case True
  with assms have "x / quantum x \<le> y / quantum y" by (simp add: divide_right_mono)
  from rne_mono [OF this] True assms show ?thesis by (simp add: f64_round_pos)
next
  case False
  have "2 powi exponent x < (2 :: rat) powi (exponent y + 1)"
    using exponent_bounds(1) [of x] exponent_bounds(2) [of y] assms by linarith
  then have "exponent x < exponent y + 1"
    using power_int_increasing [of "exponent y + 1" "exponent x" "2 :: rat"] by force
  with False have "exponent x + 1 \<le> exponent y" by simp
  then have "2 powi (exponent x + 1) \<le> (2 :: rat) powi exponent y"
    by (simp add: power_int_increasing)
  with f64_round_binade(2) [of x] f64_round_binade(1) [of y] assms show ?thesis by linarith
qed

lemma f64_round_nonneg: "0 \<le> x \<Longrightarrow> 0 \<le> f64_round x"
  using f64_round_binade(1) [of x] by (cases "x = 0") (auto intro: order_trans [rotated])

lemma f64_round_mono: "x \<le> y \<Longrightarrow> f64_round x \<le> f64_round y"
proof -
  assume le: "x \<le> y"
  consider "0 < x" | "x \<le> 0" "0 \<le> y" | "y < 0" by linarith
  then show ?thesis
  proof cases
    case 2
    then show ?thesis
      using f64_round_nonneg [of y] f64_round_nonneg [of "- x"] by (simp add: f64_round_minus)
  next
    case 3
    then show ?thesis
      using f64_round_mono_pos [of "- y" "- x"] le by (simp add: f64_round_minus)
  qed (use le f64_round_mono_pos in blast)
qed

text \<open>Integers up to \<open>2 ^ 53\<close> are exact.\<close>

lemma f64_round_nat:
  assumes "n \<le> 2 ^ 53"
  shows "f64_round (of_nat n) = of_nat n"
proof (cases "n = 0")
  case False
  let ?e = "exponent (of_nat n)"
  have b: "2 powi ?e \<le> (of_nat n :: rat)" "(of_nat n :: rat) < 2 powi (?e + 1)"
    using exponent_bounds [of "of_nat n"] False by simp_all
  have "(of_nat n :: rat) \<le> 2 ^ 53" using assms of_nat_le_iff [of n "2 ^ 53", where 'a = rat] by simp
  with b have "2 powi ?e \<le> (2 :: rat) powi 53" by simp
  then have e53: "?e \<le> 53"
    using power_int_strict_increasing [of 53 ?e "2 :: rat"] by force
  have e0: "0 \<le> ?e" using False by (auto simp: exponent_def floorlog_def)
  have "\<exists>k. (of_nat n :: rat) / quantum (of_nat n) = of_int k"
  proof (cases "?e \<le> 52")
    case True
    then have "(of_nat n :: rat) / quantum (of_nat n) = of_int (int n * 2 ^ nat (52 - ?e))"
      by (simp add: power_int_diff power_int_def field_simps)
    then show ?thesis ..
  next
    case False
    with e53 have "?e = 53" by simp
    with b(1) \<open>of_nat n \<le> 2 ^ 53\<close> have "(of_nat n :: rat) = 2 ^ 53" by simp
    with \<open>?e = 53\<close> have "(of_nat n :: rat) / quantum (of_nat n) = of_int (2 ^ 52)" by simp
    then show ?thesis ..
  qed
  then obtain k where k: "(of_nat n :: rat) / quantum (of_nat n) = of_int k" ..
  then have "(of_nat n :: rat) = of_int k * quantum (of_nat n)" by (simp add: field_simps)
  with k False show ?thesis by (simp add: f64_round_pos)
qed simp

text \<open>The relative error is at most half a unit in the last place.\<close>

lemma f64_round_error: "0 \<le> x \<Longrightarrow> \<bar>f64_round x - x\<bar> \<le> x / 2 ^ 53"
proof (cases "x = 0")
  case False
  assume "0 \<le> x"
  with False have x: "0 < x" by simp
  have "f64_round x - x = (of_int (rne (x / quantum x)) - x / quantum x) * quantum x"
    using x by (simp add: f64_round_pos field_simps)
  then have "\<bar>f64_round x - x\<bar> = \<bar>of_int (rne (x / quantum x)) - x / quantum x\<bar> * quantum x"
    by (simp add: abs_mult)
  also have "\<dots> \<le> 1 / 2 * quantum x" by (intro mult_right_mono rne_error) simp
  also have "\<dots> = 2 powi exponent x / 2 ^ 53" by (simp add: power_int_diff)
  also have "\<dots> \<le> x / 2 ^ 53" using exponent_bounds(1) [OF x] by (simp add: divide_right_mono)
  finally show ?thesis .
qed simp

subsection \<open>The contract of a rounding\<close>

text \<open>
  What the token buckets rely on: rounding is monotone, small integers are exact, and the relative
  error is bounded. The lemmas of the buckets are proved from this contract alone.
\<close>

definition eps :: rat where
  "eps = 1 / 2 ^ 53"

lemma eps_pos [simp]: "0 < eps" "0 \<le> eps"
  by (simp_all add: eps_def)

locale rounding =
  fixes rnd :: "rat \<Rightarrow> rat"
  assumes rnd_mono: "x \<le> y \<Longrightarrow> rnd x \<le> rnd y"
    and rnd_nat: "n \<le> 2 ^ 53 \<Longrightarrow> rnd (of_nat n) = of_nat n"
    and rnd_error: "0 \<le> x \<Longrightarrow> \<bar>rnd x - x\<bar> \<le> x * eps"
begin

lemma rnd_0 [simp]: "rnd 0 = 0"
  using rnd_nat [of 0] by simp

lemma rnd_nonneg: "0 \<le> x \<Longrightarrow> 0 \<le> rnd x"
  using rnd_mono [of 0 x] by simp

lemma rnd_le_nat: "x \<le> of_nat n \<Longrightarrow> n \<le> 2 ^ 53 \<Longrightarrow> rnd x \<le> of_nat n"
  using rnd_mono [of x "of_nat n"] rnd_nat [of n] by simp

lemma rnd_upper: "0 \<le> x \<Longrightarrow> rnd x \<le> x * (1 + eps)"
  using rnd_error [of x] by (simp add: algebra_simps abs_le_iff)

lemma rnd_lower: "0 \<le> x \<Longrightarrow> x * (1 - eps) \<le> rnd x"
  using rnd_error [of x] by (simp add: algebra_simps abs_le_iff)

lemma rnd_upper_le: "0 \<le> x \<Longrightarrow> x \<le> y \<Longrightarrow> rnd x \<le> y * (1 + eps)"
  using rnd_upper [of y] rnd_mono [of x y] by linarith

end

interpretation f64: rounding f64_round
  by unfold_locales (use f64_round_mono f64_round_nat f64_round_error in \<open>auto simp: eps_def\<close>)

end
