(* ===== verification/Derp_Limiter.thy ===== *)
theory Derp_Limiter
  imports Derp_F64
begin

text \<open>
  The two token buckets: \<open>PeerGoneLimiter\<close> of \<open>src/src/relay.rs\<close>, which limits the
  \<open>PeerGone(NotHere)\<close> replies of a session, and \<open>TokenBucket\<close> of \<open>src/src/server.rs\<close>, which limits
  the inbound bytes of a client. An \<open>Instant\<close> and a \<open>Duration\<close> are numbers of nanoseconds; the
  clock reading is an argument. \<open>duration_since\<close> saturates at zero, as subtraction of naturals does.
\<close>

subsection \<open>Durations\<close>

definition NANOS_PER_SEC :: nat where
  "NANOS_PER_SEC = 1000000000"

text \<open>\<open>Duration::as_secs_f64\<close>: \<open>(secs as f64) + (nanos as f64) / 1e9\<close>.\<close>

definition as_secs_f64 :: "nat \<Rightarrow> rat" where
  "as_secs_f64 d =
     f64_round (f64_round (of_nat (d div NANOS_PER_SEC))
       + f64_round (f64_round (of_nat (d mod NANOS_PER_SEC)) / of_nat NANOS_PER_SEC))"

text \<open>\<open>Duration::from_secs_f64\<close>: to the nearest nanosecond, half to even.\<close>

definition from_secs_f64 :: "rat \<Rightarrow> nat" where
  "from_secs_f64 s = nat (rne (s * of_nat NANOS_PER_SEC))"

subsection \<open>The limiter of absent-peer replies\<close>

record PeerGoneLimiter =
  pg_tokens :: rat
  pg_updated :: nat

definition PeerGoneLimiter_new :: "nat \<Rightarrow> PeerGoneLimiter" where
  "PeerGoneLimiter_new now = \<lparr>pg_tokens = 3, pg_updated = now\<rparr>"

definition allow :: "nat \<Rightarrow> PeerGoneLimiter \<Rightarrow> PeerGoneLimiter \<times> bool" where
  "allow now l =
     (let tokens = min (f64_round (pg_tokens l
                          + f64_round (as_secs_f64 (now - pg_updated l) * 3))) 3;
          l = l\<lparr>pg_tokens := tokens, pg_updated := now\<rparr>
      in if tokens < 1 then (l, False)
         else (l\<lparr>pg_tokens := f64_round (tokens - 1)\<rparr>, True))"

subsection \<open>The inbound token bucket\<close>

record TokenBucket =
  tb_rate :: u64
  tb_burst :: rat
  tb_tokens :: rat
  tb_last :: nat

definition u64_as_f64 :: "u64 \<Rightarrow> rat" where
  "u64_as_f64 w = f64_round (of_nat (unat w))"

definition TokenBucket_new :: "u64 \<Rightarrow> u64 \<Rightarrow> nat \<Rightarrow> TokenBucket" where
  "TokenBucket_new rate burst now =
     \<lparr>tb_rate = rate, tb_burst = u64_as_f64 burst, tb_tokens = u64_as_f64 burst, tb_last = now\<rparr>"

text \<open>
  \<open>consume\<close> returns the bucket and the duration it sleeps, if it does; \<open>wake\<close> is the clock after
  that sleep.
\<close>

definition consume :: "nat \<Rightarrow> nat \<Rightarrow> nat \<Rightarrow> TokenBucket \<Rightarrow> TokenBucket \<times> nat option" where
  "consume now wake n tb =
     (if tb_rate tb = 0 then (tb, None)
      else
        let rate = u64_as_f64 (tb_rate tb);
            tokens = min (f64_round (tb_tokens tb
                            + f64_round (as_secs_f64 (now - tb_last tb) * rate))) (tb_burst tb);
            tb = tb\<lparr>tb_tokens := tokens, tb_last := now\<rparr>;
            n = f64_round (of_nat n)
        in if tokens \<ge> n then (tb\<lparr>tb_tokens := f64_round (tokens - n)\<rparr>, None)
           else
             let wait = f64_round (f64_round (n - tokens) / rate)
             in (tb\<lparr>tb_tokens := 0, tb_last := wake\<rparr>, Some (from_secs_f64 wait)))"

subsection \<open>Elapsed time\<close>

definition secs :: "nat \<Rightarrow> rat" where
  "secs d = of_nat d / of_nat NANOS_PER_SEC"

lemma secs_nonneg [simp]: "0 \<le> secs d"
  by (simp add: secs_def)

lemma secs_add: "secs (a + b) = secs a + secs b"
  by (simp add: secs_def add_divide_distrib)

lemma secs_mono: "a \<le> b \<Longrightarrow> secs a \<le> secs b"
  by (simp add: secs_def divide_right_mono)

lemma secs_split: "secs d = of_nat (d div NANOS_PER_SEC) + of_nat (d mod NANOS_PER_SEC) / of_nat NANOS_PER_SEC"
proof -
  have "(of_nat d :: rat) = of_nat (d div NANOS_PER_SEC * NANOS_PER_SEC + d mod NANOS_PER_SEC)"
    by (simp only: div_mult_mod_eq)
  also have "\<dots> / of_nat NANOS_PER_SEC = of_nat (d div NANOS_PER_SEC)
      + (of_nat (d mod NANOS_PER_SEC) / of_nat NANOS_PER_SEC :: rat)"
    unfolding of_nat_add of_nat_mult add_divide_distrib by (simp add: NANOS_PER_SEC_def)
  finally show ?thesis by (simp only: secs_def)
qed

lemma as_secs_f64_nonneg [simp]: "0 \<le> as_secs_f64 d"
  by (simp add: as_secs_f64_def f64.rnd_nonneg)

lemma as_secs_f64_0 [simp]: "as_secs_f64 0 = 0"
  by (simp add: as_secs_f64_def)

lemma as_secs_f64_upper: "as_secs_f64 d \<le> secs d * (1 + eps) ^ 2"
proof -
  let ?s = "of_nat (d div NANOS_PER_SEC) :: rat" and ?n = "of_nat (d mod NANOS_PER_SEC) :: rat"
  have "d mod NANOS_PER_SEC \<le> 2 ^ 53"
    using mod_less_divisor [of NANOS_PER_SEC d] by (simp add: NANOS_PER_SEC_def)
  then have n: "f64_round ?n = ?n" by (rule f64.rnd_nat)
  have "f64_round ?s + f64_round (?n / of_nat NANOS_PER_SEC)
          \<le> ?s * (1 + eps) + ?n / of_nat NANOS_PER_SEC * (1 + eps)"
    by (intro add_mono f64.rnd_upper) simp_all
  also have "\<dots> = secs d * (1 + eps)" by (simp only: secs_split distrib_right)
  finally have "f64_round (f64_round ?s + f64_round (?n / of_nat NANOS_PER_SEC))
      \<le> secs d * (1 + eps) * (1 + eps)"
    by (intro f64.rnd_upper_le) (simp_all add: f64.rnd_nonneg)
  then show ?thesis by (simp add: as_secs_f64_def n power2_eq_square mult.assoc)
qed

subsection \<open>The absent-peer limiter\<close>

definition limiter_ok :: "PeerGoneLimiter \<Rightarrow> bool" where
  "limiter_ok l \<longleftrightarrow> 0 \<le> pg_tokens l \<and> pg_tokens l \<le> 3"

lemma limiter_ok_new [simp]: "limiter_ok (PeerGoneLimiter_new now)"
  by (simp add: limiter_ok_def PeerGoneLimiter_new_def)

lemma limiter_ok_allow: "limiter_ok l \<Longrightarrow> limiter_ok (fst (allow now l))"
  using f64.rnd_le_nat [of _ 3]
  by (auto simp: allow_def limiter_ok_def Let_def f64.rnd_nonneg min_def)

lemma allow_updated [simp]: "pg_updated (fst (allow now l)) = now"
  by (simp add: allow_def Let_def)

text \<open>Repeated calls at the clock readings of a list: the limiter and the number allowed.\<close>

fun allow_run :: "nat list \<Rightarrow> PeerGoneLimiter \<Rightarrow> PeerGoneLimiter \<times> nat" where
  "allow_run [] l = (l, 0)"
| "allow_run (t # ts) l =
     (let (l, ok) = allow t l; (l, k) = allow_run ts l in (l, if ok then Suc k else k))"

lemma allow_eq:
  assumes "t1 = min (f64_round (pg_tokens l
                  + f64_round (as_secs_f64 (now - pg_updated l) * 3))) 3"
  shows "allow now l =
           (if t1 < 1 then (l\<lparr>pg_tokens := t1, pg_updated := now\<rparr>, False)
            else (l\<lparr>pg_tokens := f64_round (t1 - 1), pg_updated := now\<rparr>, True))"
  unfolding allow_def Let_def assms [symmetric] by simp

lemma allow_potential:
  assumes "limiter_ok l"
  shows "(if snd (allow now l) then 1 else 0) + pg_tokens (fst (allow now l))
           \<le> pg_tokens l + 3 * secs (now - pg_updated l) * (1 + eps) ^ 4 + 5 * eps"
proof -
  define t0 where "t0 = pg_tokens l"
  define s where "s = secs (now - pg_updated l)"
  define c where "c = f64_round (as_secs_f64 (now - pg_updated l) * 3)"
  define t1 where "t1 = min (f64_round (t0 + c)) 3"
  have t0: "0 \<le> t0" "t0 \<le> 3" using assms by (simp_all add: limiter_ok_def t0_def)
  have c0: "0 \<le> c" by (simp add: c_def f64.rnd_nonneg)
  have "as_secs_f64 (now - pg_updated l) * 3 \<le> s * (1 + eps) ^ 2 * 3"
    using as_secs_f64_upper [of "now - pg_updated l"] by (simp add: s_def)
  then have "c \<le> s * (1 + eps) ^ 2 * 3 * (1 + eps)"
    unfolding c_def by (intro f64.rnd_upper_le) simp_all
  then have "c * (1 + eps) \<le> s * (1 + eps) ^ 2 * 3 * (1 + eps) * (1 + eps)"
    by (rule mult_right_mono) simp
  also have "\<dots> = 3 * s * (1 + eps) ^ 4" by algebra
  finally have c: "c * (1 + eps) \<le> 3 * s * (1 + eps) ^ 4" .
  have "f64_round (t0 + c) \<le> (t0 + c) * (1 + eps)" using t0 c0 by (intro f64.rnd_upper) simp
  then have "t1 \<le> t0 + t0 * eps + c * (1 + eps)" by (simp add: t1_def algebra_simps)
  moreover have "t0 * eps \<le> 3 * eps" using t0 by (intro mult_right_mono) simp_all
  ultimately have t1: "t1 \<le> t0 + 3 * s * (1 + eps) ^ 4 + 3 * eps" using c by linarith
  note al = allow_eq [OF t1_def [unfolded t0_def c_def]]
  show ?thesis
  proof (cases "t1 < 1")
    case True
    then have "snd (allow now l) = False" "pg_tokens (fst (allow now l)) = t1"
      by (simp_all add: al)
    moreover have "t1 \<le> t0 + 3 * s * (1 + eps) ^ 4 + 5 * eps" using t1 eps_pos(1) by linarith
    ultimately show ?thesis by (simp add: t0_def s_def)
  next
    case False
    then have r: "snd (allow now l)" "pg_tokens (fst (allow now l)) = f64_round (t1 - 1)"
      by (simp_all add: al)
    have "f64_round (t1 - 1) \<le> (t1 - 1) + (t1 - 1) * eps"
      using False f64.rnd_upper [of "t1 - 1"] by (simp add: distrib_left)
    moreover have "(t1 - 1) * eps \<le> 2 * eps" by (intro mult_right_mono) (simp_all add: t1_def)
    ultimately have "1 + f64_round (t1 - 1) \<le> t1 + 2 * eps" by linarith
    with t1 r show ?thesis unfolding t0_def s_def by simp
  qed
qed

lemma allow_run_potential:
  assumes "limiter_ok l" and "sorted (pg_updated l # ts)"
  shows "of_nat (snd (allow_run ts l)) + pg_tokens (fst (allow_run ts l))
           \<le> pg_tokens l + 3 * secs (last (pg_updated l # ts) - pg_updated l) * (1 + eps) ^ 4
              + 5 * eps * of_nat (length ts)"
  using assms
proof (induction ts arbitrary: l)
  case Nil
  then show ?case by (simp add: secs_def)
next
  case (Cons t ts)
  define l' where "l' = fst (allow t l)"
  define z where "z = last (t # ts)"
  have up: "pg_updated l' = t" by (simp add: l'_def)
  have "sorted (t # ts)" and tl: "pg_updated l \<le> t" using Cons.prems(2) by auto
  then have z: "t \<le> z" unfolding z_def by (metis last_in_set list.distinct(1) sorted_simps(2) set_ConsD order_refl)
  have "z - pg_updated l = (z - t) + (t - pg_updated l)" using z tl by simp
  then have split: "3 * secs (z - t) * (1 + eps) ^ 4 + 3 * secs (t - pg_updated l) * (1 + eps) ^ 4
      = 3 * secs (z - pg_updated l) * (1 + eps) ^ 4"
    by (simp add: secs_add algebra_simps)
  have "of_nat (snd (allow_run ts l')) + pg_tokens (fst (allow_run ts l'))
           \<le> pg_tokens l' + 3 * secs (z - t) * (1 + eps) ^ 4 + 5 * eps * of_nat (length ts)"
    using Cons.IH [of l'] Cons.prems limiter_ok_allow [of l t] \<open>sorted (t # ts)\<close>
    by (auto simp: up z_def simp flip: l'_def)
  with allow_potential [OF Cons.prems(1), of t] split show ?case
    by (auto simp: l'_def z_def case_prod_beta Let_def algebra_simps split: if_splits)
qed

lemma allow_burst:
  assumes "0 \<le> pg_tokens l" "pg_tokens l \<le> of_nat k" "k \<le> 3" "pg_updated l = t"
  shows "snd (allow_run (replicate n t) l) \<le> k"
  using assms
proof (induction n arbitrary: l k)
  case (Suc n)
  define t1 where "t1 = min (f64_round (pg_tokens l)) 3"
  have t1: "t1 \<le> of_nat k" using f64.rnd_le_nat [OF Suc.prems(2)] Suc.prems(3) by (simp add: t1_def)
  have al: "allow t l = (if t1 < 1 then (l\<lparr>pg_tokens := t1, pg_updated := t\<rparr>, False)
      else (l\<lparr>pg_tokens := f64_round (t1 - 1), pg_updated := t\<rparr>, True))"
    using Suc.prems(4) by (intro allow_eq) (simp add: t1_def)
  show ?case
  proof (cases "t1 < 1")
    case True
    have "0 \<le> t1" using Suc.prems(1) by (simp add: t1_def f64.rnd_nonneg)
    with True t1 Suc.prems show ?thesis
      using Suc.IH [of "l\<lparr>pg_tokens := t1, pg_updated := t\<rparr>" k] by (simp add: al Let_def case_prod_beta)
  next
    case False
    then obtain j where k: "k = Suc j" using t1 by (cases k) simp_all
    have "f64_round (t1 - 1) \<le> of_nat j" using t1 k Suc.prems(3) by (intro f64.rnd_le_nat) simp_all
    with False k Suc.prems show ?thesis
      using Suc.IH [of "l\<lparr>pg_tokens := f64_round (t1 - 1), pg_updated := t\<rparr>" j]
      by (simp add: al Let_def f64.rnd_nonneg case_prod_beta)
  qed
qed simp

lemma allow_new: "snd (allow now (PeerGoneLimiter_new now))"
  using f64.rnd_nat [of 3] by (simp add: allow_def PeerGoneLimiter_new_def Let_def)

end
