(* ===== verification/Derp_Codec_Props.thy ===== *)
theory Derp_Codec_Props
  imports Derp_Codec Derp_Limiter
begin

text \<open>
  The properties of the wire protocol, and of the limiter of absent-peer replies.
\<close>

subsection \<open>Frames on the wire\<close>

text \<open>
  C11: A batch of frames appended to one buffer is read back frame by frame, each as the wire keeps it,
  and the reader stops exactly behind the batch, whatever follows.
\<close>

theorem batch_round_trip:
  assumes "\<forall>f\<in>set fs. sendable max_len f"
  shows "\<exists>raw. put_all encode_into fs out = (out @ raw, Inr ()) \<and>
    get_n (\<lambda>r. read_frame r max_len) (length fs) (raw @ rest, e) = Inr (map wire_normal fs, (rest, e))"
  using derp.put_all_get_n [OF assms] by blast

theorem batch_round_trip_witness:
  "\<exists>raw. put_all encode_into [KeepAlive, Ping [1, 2, 3, 4, 5, 6, 7, 8]] [] = (raw, Inr ()) \<and>
    get_n (\<lambda>r. read_frame r 1024) 2 (raw @ [9], UnexpectedEof) =
      Inr ([KeepAlive, Ping [1, 2, 3, 4, 5, 6, 7, 8]], ([9], UnexpectedEof))"
proof -
  have "\<forall>f\<in>set [KeepAlive, Ping [1, 2, 3, 4, 5, 6, 7, 8]]. sendable 1024 f"
    by (simp add: sendable_def encode_eq)
  from batch_round_trip [OF this, of "[]" "[9]" UnexpectedEof] show ?thesis by (simp add: numeral_2_eq_2)
qed

text \<open>
  Appending a frame to a batch buffer is atomic and does not look at the buffer: it appends exactly
  the frame's own encoding, or fails with the same error and leaves the buffer as it was.
\<close>

theorem encode_into_atomic:
  "encode_into f out = (case encode f of Inl e \<Rightarrow> (out, Inl e) | Inr raw \<Rightarrow> (out @ raw, Inr ())) \<and>
   (case encode f of
      Inl e \<Rightarrow> (\<exists>n. e = PacketTooLarge n \<or> e = FrameTooLarge n)
    | Inr raw \<Rightarrow> FRAME_HEADER_LEN \<le> length raw \<and> hd raw = kind f \<and>
        unat (u32_from_slice (subslice 1 5 raw)) = length raw - FRAME_HEADER_LEN)"
proof -
  have err: "payload_of f = Inl e \<Longrightarrow> \<exists>n. e = PacketTooLarge n" for e
    by (cases f rule: wire_normal.cases) (auto simp: payload_of_packets payload_of_present split: if_splits)
  have "unat (u32_from_slice (subslice 1 5 (frame_bytes f p))) = length p \<and> hd (frame_bytes f p) = kind f"
    if "length p < 2 ^ 32" for p
    using that by (simp add: frame_bytes_def subslice_def unat_u32_len)
  then show ?thesis using err by (auto simp: encode_into_encode encode_eq split: sum.splits)
qed



text \<open>
  An accepted frame can be sent on: it encodes, and a reader whose limit leaves one byte more than
  the payload had reads the same frame again.
\<close>

theorem accepted_frames_relay:
  assumes "decode k payload = Inr f" "length payload + 1 < 2 ^ 32" "length payload < max_len"
  shows "\<exists>raw. encode f = Inr raw \<and> read_frame (raw @ rest, e) max_len = Inr (f, (rest, e))"
proof -
  from decode_encodable [OF assms(1)] obtain p where p: "payload_of f = Inr p" "length p \<le> Suc (length payload)"
    by blast
  then have "encode f = Inr (frame_bytes f p)" using assms(2) by (simp add: encode_eq)
  moreover from this have "read_frame (frame_bytes f p @ rest, e) max_len = Inr (wire_normal f, (rest, e))"
    using assms p by (intro read_frame_encode decode_frame_wf decode_acceptable) simp_all
  ultimately show ?thesis using decode_wire_normal [OF assms(1)] by simp
qed

theorem accepted_frames_relay_witness:
  "\<exists>raw. encode (NotePreferred True) = Inr raw \<and> read_frame (raw @ [], UnexpectedEof) 2 = Inr (NotePreferred True, ([], UnexpectedEof))"
proof -
  have "decode 7 [200] = Inr (NotePreferred True)" by code_simp
  from accepted_frames_relay [OF this, of 2 "[]" UnexpectedEof] show ?thesis by simp
qed

text \<open>
  A frame cut short is never accepted: on a stream that ends inside it the reader returns the
  stream's error.
\<close>

theorem cut_frames_rejected:
  assumes "encode f = Inr raw" "n < length raw" "length raw \<le> FRAME_HEADER_LEN + max_len"
  shows "read_frame (take n raw, e) max_len = Inl (Io e)"
proof (cases "n < 5")
  case True
  then show ?thesis by (simp add: read_frame_def read_exact_def)
next
  case False
  from assms(1) obtain p where p: "raw = frame_bytes f p" "length p < 2 ^ 32" by (auto simp: encode_Inr)
  have "take n raw = kind f # u32_to_be (of_nat (length p)) @ take (n - 5) p"
    using False by (simp add: p(1) frame_bytes_def take_Cons')
  moreover have "n - 5 < length p" using assms(2) False by (simp add: p(1))
  ultimately show ?thesis
    using p assms(3) by (simp add: read_frame_def read_exact_def unat_u32_len Let_def)
qed

theorem cut_frames_rejected_witness:
  "read_frame (take 9 [18, 0, 0, 0, 8, 1, 2, 3, 4, 5, 6, 7, 8], ConnectionReset) 64 = Inl (Io ConnectionReset)"
proof -
  have "encode (Ping [1, 2, 3, 4, 5, 6, 7, 8]) = Inr [18, 0, 0, 0, 8, 1, 2, 3, 4, 5, 6, 7, 8]"
    by (simp add: encode_eq frame_bytes_def as_u8.simps u32_to_be_def)
  from cut_frames_rejected [OF this, of 9 64] show ?thesis by simp
qed

subsection \<open>The limiter of absent-peer replies\<close>



end
