(* ===== verification/Derp_Text.thy ===== *)
theory Derp_Text
  imports Derp_Prelude
begin

text \<open>
  The operations of Rust's \<open>str\<close> and \<open>String\<close> that the sources use, on strings as the bytes of their
  UTF-8 form: whitespace, letter case, splitting, decimal numbers and the lossy conversion of bytes.
\<close>

subsection \<open>Strings and bytes\<close>

text \<open>A \<open>String\<close> is the list of the bytes of its UTF-8 form, each as a \<open>char\<close>.\<close>

definition str_bytes :: "string \<Rightarrow> bytes" where
  "str_bytes = map of_char"

definition crlf :: string where
  "crlf = [CHR 0x0D, CHR 0x0A]"

lemma length_str_bytes [simp]: "length (str_bytes s) = length s"
  by (simp add: str_bytes_def)

lemma str_bytes_append [simp]: "str_bytes (s @ t) = str_bytes s @ str_bytes t"
  by (simp add: str_bytes_def)

subsection \<open>Whitespace\<close>

text \<open>The UTF-8 forms of the characters with the property \<open>White_Space\<close>.\<close>

definition white_space :: "string list" where
  "white_space =
    [[CHR 0x09], [CHR 0x0A], [CHR 0x0B], [CHR 0x0C], [CHR 0x0D], [CHR 0x20], [CHR 0xC2, CHR 0x85],
     [CHR 0xC2, CHR 0xA0], [CHR 0xE1, CHR 0x9A, CHR 0x80], [CHR 0xE2, CHR 0x80, CHR 0x80],
     [CHR 0xE2, CHR 0x80, CHR 0x81], [CHR 0xE2, CHR 0x80, CHR 0x82], [CHR 0xE2, CHR 0x80, CHR 0x83],
     [CHR 0xE2, CHR 0x80, CHR 0x84], [CHR 0xE2, CHR 0x80, CHR 0x85], [CHR 0xE2, CHR 0x80, CHR 0x86],
     [CHR 0xE2, CHR 0x80, CHR 0x87], [CHR 0xE2, CHR 0x80, CHR 0x88], [CHR 0xE2, CHR 0x80, CHR 0x89],
     [CHR 0xE2, CHR 0x80, CHR 0x8A], [CHR 0xE2, CHR 0x80, CHR 0xA8], [CHR 0xE2, CHR 0x80, CHR 0xA9],
     [CHR 0xE2, CHR 0x80, CHR 0xAF], [CHR 0xE2, CHR 0x81, CHR 0x9F], [CHR 0xE3, CHR 0x80, CHR 0x80]]"

text \<open>Strip words of a list from the front, as long as there is one.\<close>

function strip_words :: "'a list list \<Rightarrow> 'a list \<Rightarrow> 'a list" where
  "strip_words ws s =
     (case find (\<lambda>w. w \<noteq> [] \<and> take (length w) s = w) ws of
        None \<Rightarrow> s
      | Some w \<Rightarrow> strip_words ws (drop (length w) s))"
  by pat_completeness auto
termination
proof (relation "measure (\<lambda>(ws, s). length s)")
  fix ws s and w :: "'a list"
  assume "find (\<lambda>w. w \<noteq> [] \<and> take (length w) s = w) ws = Some w"
  then have "w \<noteq> []" "take (length w) s = w" by (auto simp: find_Some_iff)
  then have "s \<noteq> []" by auto
  with \<open>w \<noteq> []\<close> show "((ws, drop (length w) s), ws, s) \<in> measure (\<lambda>(ws, s). length s)" by simp
qed simp

declare strip_words.simps [simp del]

text \<open>\<open>str::trim\<close>; the encoding is self-synchronising, so the last character is a suffix of the bytes.\<close>

definition trim :: "string \<Rightarrow> string" where
  "trim s = rev (strip_words (map rev white_space) (rev (strip_words white_space s)))"

lemma strip_words_id:
  assumes "s = [] \<or> (\<forall>w\<in>set ws. w = [] \<or> hd w \<noteq> hd s)"
  shows "strip_words ws s = s"
proof -
  have "\<not> (w \<noteq> [] \<and> take (length w) s = w)" if "w \<in> set ws" for w
    using assms that by (cases s; cases w) auto
  then have "find (\<lambda>w. w \<noteq> [] \<and> take (length w) s = w) ws = None" by (auto simp: find_None_iff)
  then show ?thesis by (simp add: strip_words.simps)
qed

definition visible :: "char \<Rightarrow> bool" where
  "visible c \<longleftrightarrow> 33 \<le> (of_char c :: nat) \<and> (of_char c :: nat) < 128"

lemma white_space_ends:
  assumes "w \<in> set white_space"
  shows "w \<noteq> []" "\<not> visible (hd w)" "\<not> visible (last w)"
proof -
  have "\<forall>w\<in>set white_space. w \<noteq> [] \<and> \<not> visible (hd w) \<and> \<not> visible (last w)" by (simp add: white_space_def visible_def)
  with assms show "w \<noteq> []" "\<not> visible (hd w)" "\<not> visible (last w)" by blast+
qed

lemma trim_front: "visible (hd s) \<Longrightarrow> strip_words white_space s = s"
  by (rule strip_words_id) (auto dest: white_space_ends(2))

lemma trim_back: "visible (last s) \<Longrightarrow> strip_words (map rev white_space) (rev s) = rev s"
  by (rule strip_words_id) (auto simp: hd_rev dest: white_space_ends(3))

lemma trim_id: "s = [] \<or> (visible (hd s) \<and> visible (last s)) \<Longrightarrow> trim s = s"
  unfolding trim_def by (auto simp: trim_front trim_back strip_words_id)

lemma trim_newline:
  assumes "visible (hd s)" "visible (last s)" "s \<noteq> []"
  shows "trim (s @ [CHR 0x0A]) = s"
proof -
  have "map rev white_space = [CHR 0x09] # [CHR 0x0A] # drop 2 (map rev white_space)" by code_simp
  then have "find (\<lambda>w. w \<noteq> [] \<and> take (length w) (CHR 0x0A # xs) = w) (map rev white_space) = Some [CHR 0x0A]" for xs
    by (elim ssubst) simp
  then have "strip_words (map rev white_space) (CHR 0x0A # xs) = strip_words (map rev white_space) xs" for xs
    by (subst strip_words.simps) simp
  with assms show ?thesis by (simp add: trim_def trim_front trim_back)
qed

subsection \<open>Letter case, splitting and prefixes\<close>

definition ascii_lower :: "char \<Rightarrow> char" where
  "ascii_lower c = (if 65 \<le> (of_char c :: nat) \<and> (of_char c :: nat) \<le> 90 then char_of (of_char c + (32 :: nat)) else c)"

definition to_ascii_lowercase :: "string \<Rightarrow> string" where
  "to_ascii_lowercase = map ascii_lower"

definition eq_ignore_ascii_case :: "string \<Rightarrow> string \<Rightarrow> bool" where
  "eq_ignore_ascii_case a b \<longleftrightarrow> to_ascii_lowercase a = to_ascii_lowercase b"

definition starts_with :: "'a list \<Rightarrow> 'a list \<Rightarrow> bool" where
  "starts_with p s \<longleftrightarrow> take (length p) s = p"

definition ends_with :: "'a list \<Rightarrow> 'a list \<Rightarrow> bool" where
  "ends_with p s \<longleftrightarrow> length p \<le> length s \<and> drop (length s - length p) s = p"

text \<open>\<open>str::split\<close> on one character: always at least one piece.\<close>

fun split_on :: "'a \<Rightarrow> 'a list \<Rightarrow> 'a list list" where
  "split_on c [] = [[]]"
| "split_on c (x # xs) =
     (if x = c then [] # split_on c xs
      else case split_on c xs of [] \<Rightarrow> [[x]] | p # ps \<Rightarrow> (x # p) # ps)"

lemma split_on_ne [simp]: "split_on c xs \<noteq> []"
  by (cases xs) (auto split: list.splits)

lemma hd_split_on: "hd (split_on c xs) = takeWhile (\<lambda>x. x \<noteq> c) xs"
  by (induction xs) (auto split: list.splits)

lemma starts_with_append [simp]: "starts_with p (p @ s)"
  by (simp add: starts_with_def)

subsection \<open>Decimal numbers\<close>

definition digit_char :: "nat \<Rightarrow> char" where
  "digit_char d = char_of (48 + d)"

fun show_nat :: "nat \<Rightarrow> string" where
  "show_nat n = (if n < 10 then [digit_char n] else show_nat (n div 10) @ [digit_char (n mod 10)])"

declare show_nat.simps [simp del]

subsection \<open>Lossy UTF-8\<close>

definition cont :: "byte \<Rightarrow> bool" where
  "cont b \<longleftrightarrow> 0x80 \<le> b \<and> b < 0xC0"

definition ok3 :: "byte \<Rightarrow> byte \<Rightarrow> bool" where
  "ok3 b c \<longleftrightarrow> (if b = 0xE0 then 0xA0 \<le> c \<and> c < 0xC0 else if b = 0xED then 0x80 \<le> c \<and> c < 0xA0 else cont c)"

definition ok4 :: "byte \<Rightarrow> byte \<Rightarrow> bool" where
  "ok4 b c \<longleftrightarrow> (if b = 0xF0 then 0x90 \<le> c \<and> c < 0xC0 else if b = 0xF4 then 0x80 \<le> c \<and> c < 0x90 else cont c)"

text \<open>
  How many bytes after the first belong to the next chunk, and whether the chunk is a character. A
  byte beyond the end counts as zero.
\<close>

definition utf8_next :: "byte \<Rightarrow> bytes \<Rightarrow> nat \<times> bool" where
  "utf8_next b bs =
     (let get = (\<lambda>i. if i < length bs then bs ! i else 0) in
      if b < 0x80 then (0, True)
      else if 0xC2 \<le> b \<and> b < 0xE0 then (if cont (get 0) then (1, True) else (0, False))
      else if 0xE0 \<le> b \<and> b < 0xF0 then
        (if \<not> ok3 b (get 0) then (0, False) else if cont (get 1) then (2, True) else (1, False))
      else if 0xF0 \<le> b \<and> b < 0xF5 then
        (if \<not> ok4 b (get 0) then (0, False) else if \<not> cont (get 1) then (1, False)
         else if cont (get 2) then (3, True) else (2, False))
      else (0, False))"

text \<open>\<open>String::from_utf8_lossy\<close>: every chunk that is no character becomes U+FFFD.\<close>

function utf8_lossy :: "bytes \<Rightarrow> bytes" where
  "utf8_lossy [] = []"
| "utf8_lossy (b # bs) =
     (case utf8_next b bs of
        (n, ok) \<Rightarrow> (if ok then b # take n bs else [0xEF, 0xBF, 0xBD]) @ utf8_lossy (drop n bs))"
  by pat_completeness auto
termination by (relation "measure length") auto

definition ascii :: "bytes \<Rightarrow> bool" where
  "ascii bs \<longleftrightarrow> (\<forall>b\<in>set bs. b < 0x80)"

lemma utf8_lossy_ascii: "ascii bs \<Longrightarrow> utf8_lossy (bs @ cs) = bs @ utf8_lossy cs"
  by (induction bs) (simp_all add: ascii_def utf8_next_def)

definition bytes_str :: "bytes \<Rightarrow> string" where
  "bytes_str = map (\<lambda>b. char_of (unat b))"

lemma unat_of_char: "unat (of_char c :: byte) = (of_char c :: nat)"
proof -
  have "(of_char c :: byte) = of_nat (of_char c :: nat)" by (rule of_nat_of_char [symmetric])
  moreover have "(of_char c :: nat) < 2 ^ LENGTH(8)" using nat_of_char_less_256 [of c] by simp
  ultimately show ?thesis by (simp only: unat_of_nat mod_less)
qed

lemma bytes_str_str_bytes [simp]: "bytes_str (str_bytes s) = s"
  by (simp add: bytes_str_def str_bytes_def comp_def unat_of_char)

end
