(* ===== verification/Derp_Keyfile.thy ===== *)
theory Derp_Keyfile
  imports Derp_Crypto Derp_Text
begin

text \<open>
  The persistent private key (\<open>load_or_create\<close> of \<open>src/src/crypto.rs\<close>) and the properties of keys,
  key pairs and sealed boxes. The file system is a map from paths to contents; each of its calls may
  also fail with an error of its own (\<open>fault\<close>).
\<close>

subsection \<open>The file system\<close>

datatype fs_call = FsRead | FsMkdir | FsOpen | FsWrite | FsSync

record file_system =
  files :: "string \<rightharpoonup> string"
  fault :: "fs_call \<Rightarrow> IoErrorKind option"

definition read_to_string :: "string \<Rightarrow> file_system \<Rightarrow> IoErrorKind + string" where
  "read_to_string path fs =
     (case fault fs FsRead of
        Some e \<Rightarrow> Inl e
      | None \<Rightarrow> (case files fs path of None \<Rightarrow> Inl NotFound | Some v \<Rightarrow> Inr v))"

definition fs_check :: "fs_call \<Rightarrow> file_system \<Rightarrow> IoErrorKind + unit" where
  "fs_check c fs = (case fault fs c of Some e \<Rightarrow> Inl e | None \<Rightarrow> Inr ())"

subsection \<open>Loading and creating the key\<close>

definition parse_key :: "'h hex_lib \<Rightarrow> string \<Rightarrow> 'h KeyError + NodeKeyPair" where
  "parse_key H v =
     (let v = (case strip_prefix ''privkey:'' (trim v) of Some t \<Rightarrow> t | None \<Rightarrow> trim v) in
      case hex_decode H v of
        Inl e \<Rightarrow> Inl (KeyHex e)
      | Inr raw \<Rightarrow> if length raw = KEY_LEN then from_bytes raw else Inl KeyInvalid)"

text \<open>\<open>writeln!(file, "privkey:{}", hex::encode(key.private_bytes()))\<close>\<close>

definition key_text :: "'h hex_lib \<Rightarrow> NodeKeyPair \<Rightarrow> string" where
  "key_text H key = ''privkey:'' @ hex_encode H (private_bytes key) @ [CHR 0x0A]"

text \<open>
  \<open>path.parent()\<close> is \<open>None\<close> for the empty path and for the root; the root exists, so it is never
  reported as not found.
\<close>

definition has_parent :: "string \<Rightarrow> bool" where
  "has_parent path \<longleftrightarrow> path \<noteq> []"

definition load_or_create ::
    "'h hex_lib \<Rightarrow> bytes \<Rightarrow> string \<Rightarrow> file_system \<Rightarrow> ('h KeyError + NodeKeyPair) \<times> file_system" where
  "load_or_create H rng path fs =
     (case read_to_string path fs of
        Inr v \<Rightarrow> (parse_key H v, fs)
      | Inl NotFound \<Rightarrow>
          (let key = generate rng in
           case (if has_parent path then fs_check FsMkdir fs else Inr ()) of
             Inl e \<Rightarrow> (Inl (KeyIo e), fs)
           | Inr _ \<Rightarrow>
           case fs_check FsOpen fs of
             Inl e \<Rightarrow> (Inl (KeyIo e), fs)
           | Inr _ \<Rightarrow>
               (let fs = fs\<lparr>files := (files fs)(path \<mapsto> [])\<rparr> in
                case fs_check FsWrite fs of
                  Inl e \<Rightarrow> (Inl (KeyIo e), fs)
                | Inr _ \<Rightarrow>
                    (let fs = fs\<lparr>files := (files fs)(path \<mapsto> key_text H key)\<rparr> in
                     case fs_check FsSync fs of
                       Inl e \<Rightarrow> (Inl (KeyIo e), fs)
                     | Inr _ \<Rightarrow> (Inr key, fs))))
      | Inl e \<Rightarrow> (Inl (KeyIo e), fs))"

subsection \<open>Clamping\<close>

lemma and_idem3: "((b :: byte) AND x) AND x = b AND x"
  by (simp add: and.assoc)

lemma clamp_bits:
  assumes "length raw = 32"
  shows "clamp raw ! 0 = raw ! 0 AND 248" "clamp raw ! 31 = (raw ! 31 AND 127) OR 64"
  using assms by (simp_all add: clamp_def Let_def)

lemma clamp_idem: "length raw = 32 \<Longrightarrow> clamp (clamp raw) = clamp raw"
proof -
  assume l: "length raw = 32"
  have "((raw ! 31 AND 127) OR 64) AND 127 OR 64 = (raw ! 31 AND 127) OR (64 :: byte)"
    by (rule bit_word_eqI) (auto simp: bit_simps)
  then show ?thesis using l
    by (intro nth_equalityI) (auto simp: clamp_def Let_def nth_list_update and.assoc)
qed

lemma clamp_not_zero: "length raw = 32 \<Longrightarrow> clamp raw \<noteq> replicate 32 0"
proof
  assume l: "length raw = 32" and z: "clamp raw = replicate 32 0"
  have "clamp raw ! 31 = (raw ! 31 AND 127) OR 64" using l by (rule clamp_bits(2))
  moreover have "bit ((raw ! 31 AND 127) OR (64 :: byte)) 6" by (simp add: bit_simps)
  moreover have "clamp raw ! 31 = 0" using z by simp
  ultimately show False by simp
qed

subsection \<open>Reading back what was written\<close>

lemma hex_visible: "set xs \<subseteq> set hex_digits \<Longrightarrow> c \<in> set xs \<Longrightarrow> visible c"
proof -
  assume "set xs \<subseteq> set hex_digits" "c \<in> set xs"
  then have "c \<in> set hex_digits" by blast
  then show ?thesis by (auto simp: hex_digits_def visible_def)
qed

lemma trim_key_text:
  assumes "set xs \<subseteq> set hex_digits" "xs \<noteq> []"
  shows "trim (''privkey:'' @ xs @ [CHR 0x0A]) = ''privkey:'' @ xs"
proof -
  have "visible (last xs)" using assms by (intro hex_visible) auto
  with trim_newline [of "''privkey:'' @ xs"] assms(2) show ?thesis by (simp add: visible_def)
qed

lemma parse_key_text:
  assumes "hex_lib_ok H" "length rng = 32"
  shows "parse_key H (key_text H (generate rng)) = Inr (generate rng)"
proof -
  let ?raw = "clamp rng"
  have h: "hex_decode H (hex_encode H ?raw) = Inr ?raw" "set (hex_encode H ?raw) \<subseteq> set hex_digits"
    "length (hex_encode H ?raw) = 2 * length ?raw"
    using assms(1) by (simp_all add: hex_lib_ok_def)
  have "hex_encode H ?raw \<noteq> []" using h(3) assms(2) by force
  from trim_key_text [OF h(2) this]
  have "trim (key_text H (generate rng)) = ''privkey:'' @ hex_encode H ?raw"
    by (simp add: key_text_def generate_def private_bytes_def)
  moreover have "strip_prefix ''privkey:'' (''privkey:'' @ hex_encode H ?raw) = Some (hex_encode H ?raw)"
    by (rule strip_prefix_append)
  ultimately show ?thesis
    using h(1) assms(2) clamp_not_zero [OF assms(2)] clamp_idem [OF assms(2)]
    by (simp add: parse_key_def from_bytes_def generate_def)
qed

subsection \<open>A reference hex codec and a transparent box\<close>

text \<open>Concrete functions that satisfy the documented laws of the two crates.\<close>

definition nibble :: "nat \<Rightarrow> char" where
  "nibble n = hex_digits ! n"

fun unnibble :: "char list \<Rightarrow> nat \<Rightarrow> char \<Rightarrow> nat" where
  "unnibble [] n c = n"
| "unnibble (d # ds) n c = (if c = d then n else unnibble ds (Suc n) c)"

fun hex_pairs :: "string \<Rightarrow> unit + bytes" where
  "hex_pairs [] = Inr []"
| "hex_pairs [c] = Inl ()"
| "hex_pairs (c # d # cs) =
     (let a = unnibble hex_digits 0 c; b = unnibble hex_digits 0 d in
      if a < 16 \<and> b < 16
      then (case hex_pairs cs of Inl e \<Rightarrow> Inl e | Inr bs \<Rightarrow> Inr (of_nat (16 * a + b) # bs)) else Inl ())"

definition hex_ref :: "unit hex_lib" where
  "hex_ref = \<lparr>hex_encode = (\<lambda>bs. concat (map (\<lambda>b. [nibble (unat b div 16), nibble (unat b mod 16)]) bs)),
     hex_decode = hex_pairs\<rparr>"

lemma unnibble_nibble: "n < 16 \<Longrightarrow> unnibble hex_digits 0 (nibble n) = n"
  by (simp add: less_Suc_eq numeral_eq_Suc, elim disjE) (simp_all add: nibble_def hex_digits_def)

lemma hex_ref_ok: "hex_lib_ok hex_ref"
proof -
  have nib: "unat (b :: byte) div 16 < 16" "unat b mod 16 < 16" for b
    using unsigned_less [of b, where ?'a = nat] by auto
  have w: "(of_nat (unat b mod 16) :: byte) + 16 * of_nat (unat b div 16) = b" for b :: byte
  proof -
    have "b = of_nat (16 * (unat b div 16) + unat b mod 16)" by simp
    also have "\<dots> = of_nat (unat b mod 16) + 16 * of_nat (unat b div 16)"
      by (simp only: of_nat_add of_nat_mult of_nat_numeral add.commute)
    finally show ?thesis by simp
  qed
  have "hex_pairs (concat (map (\<lambda>b. [nibble (unat b div 16), nibble (unat b mod 16)]) bs)) = Inr bs" for bs
    by (induction bs) (simp_all add: unnibble_nibble nib w add.commute)
  moreover have "length (concat (map (\<lambda>b. [nibble (unat b div 16), nibble (unat b mod 16)]) bs)) = 2 * length bs"
    for bs :: bytes by (induction bs) simp_all
  moreover have "nibble n \<in> set hex_digits" if "n < 16" for n
    using that by (simp add: nibble_def hex_digits_def nth_mem del: set_simps)
  ultimately show ?thesis by (auto simp: hex_lib_ok_def hex_ref_def nib)
qed

definition open_box :: box_lib where
  "open_box = \<lparr>box_public = (\<lambda>sk. 1 # take 31 (sk @ replicate 31 0)),
     box_encrypt = (\<lambda>pk sk nonce m. Some m), box_decrypt = (\<lambda>pk sk nonce c. Some c)\<rparr>"

lemma open_box_ok: "box_lib_ok open_box"
  by (auto simp: box_lib_ok_def open_box_def)

subsection \<open>Properties\<close>

text \<open>
  What one node seals for another, the other opens with the sender's public key, and reads the
  same bytes: the identity proof of the handshake and the server's answer arrive intact.
\<close>

theorem sealed_box_round_trip:
  assumes "box_lib_ok B" "length nonce = NONCE_LEN"
    and "public B a = Some pa" "public B b = Some pb" "seal_to B nonce a pb plaintext = Inr sealed"
  shows "open_from B b pa sealed = Inr plaintext \<and> NONCE_LEN \<le> length sealed"
proof -
  have keys: "as_bytes pa = box_public B (secret a)" "as_bytes pb = box_public B (secret b)"
    using assms(3,4) by (auto simp: public_def NodeKey_new_def split: if_splits)
  obtain c where c: "box_encrypt B (as_bytes pb) (secret a) nonce plaintext = Some c" "sealed = nonce @ c"
    using assms(5) by (auto simp: seal_to_def split: option.splits)
  have "box_decrypt B (as_bytes pa) (secret b) nonce c = Some plaintext"
    using assms(1,2) c(1) unfolding keys box_lib_ok_def by blast
  with assms(2) c(2) show ?thesis by (simp add: open_from_def)
qed

theorem sealed_box_round_trip_witness:
  "\<exists>pa pb. public open_box (generate (replicate 32 1)) = Some pa \<and> public open_box (generate (replicate 32 2)) = Some pb \<and>
    open_from open_box (generate (replicate 32 2)) pa (replicate 24 5 @ [1, 2, 3]) = Inr [1, 2, 3]"
proof -
  obtain pa pb where p: "public open_box (generate (replicate 32 1)) = Some pa"
    "public open_box (generate (replicate 32 2)) = Some pb"
    by (simp add: public_def NodeKey_new_def open_box_def eval_nat_numeral)
  have n: "length (replicate 24 5 :: bytes) = NONCE_LEN" by simp
  have s: "seal_to open_box (replicate 24 5) (generate (replicate 32 1)) pb [1, 2, 3] = Inr (replicate 24 5 @ [1, 2, 3])"
    by (simp add: seal_to_def open_box_def)
  from sealed_box_round_trip [OF open_box_ok n p s] p show ?thesis by blast
qed

text \<open>
  C31: A key that was created for a missing file is the key that every later start loads from it: the
  text written parses back to the same key pair, which is clamped and not zero.
\<close>

theorem private_key_persists:
  assumes "hex_lib_ok H" "length rng = KEY_LEN" "\<forall>c. fault fs c = None" "files fs path = None"
    and "(r, fs') = load_or_create H rng path fs"
  shows "r = Inr (generate rng) \<and> load_or_create H rng' path fs' = (Inr (generate rng), fs') \<and>
    private_bytes (generate rng) \<noteq> replicate KEY_LEN 0 \<and> private_bytes (generate rng) ! 0 AND 7 = 0"
proof -
  have l: "length rng = 32" using assms(2) by simp
  have created: "r = Inr (generate rng)" "fs' = fs\<lparr>files := (files fs)(path \<mapsto> key_text H (generate rng))\<rparr>"
    using assms(3-5)
    by (cases "has_parent path"; simp add: load_or_create_def read_to_string_def fs_check_def Let_def)+
  have "load_or_create H rng' path fs' = (parse_key H (key_text H (generate rng)), fs')"
    using assms(3) by (simp add: load_or_create_def read_to_string_def created(2))
  moreover have "(rng ! 0 AND 248) AND 7 = (0 :: byte)" by (simp add: and.assoc)
  then have "private_bytes (generate rng) ! 0 AND 7 = 0"
    using clamp_bits(1) [OF l] by (simp add: private_bytes_def generate_def)
  ultimately show ?thesis
    using created(1) parse_key_text [OF assms(1) l] clamp_not_zero [OF l] by (simp add: private_bytes_def generate_def)
qed

definition empty_fs :: file_system where
  "empty_fs = \<lparr>files = Map.empty, fault = (\<lambda>_. None)\<rparr>"

theorem private_key_persists_witness:
  "fst (load_or_create hex_ref (replicate 32 0) ''derper.key''
     (snd (load_or_create hex_ref (replicate 32 255) ''derper.key'' empty_fs))) = Inr (generate (replicate 32 255))"
proof -
  obtain r fs' where r: "load_or_create hex_ref (replicate 32 255) ''derper.key'' empty_fs = (r, fs')" by fastforce
  have a: "length (replicate 32 255 :: bytes) = KEY_LEN" "\<forall>c. fault empty_fs c = None"
    "files empty_fs ''derper.key'' = None" by (simp_all add: empty_fs_def)
  from private_key_persists [OF hex_ref_ok a r [symmetric]] r show ?thesis by simp
qed

text \<open>
  A node key survives its two textual forms, with and without the \<open>nodekey:\<close> prefix, and no text
  at all is read as a key that is zero or not 32 bytes long.
\<close>

theorem node_key_text_round_trip:
  assumes "hex_lib_ok H"
  shows "(nodekey_ok k \<longrightarrow> NodeKey_deserialize H (NodeKey_serialize H k) = Inr k \<and>
      NodeKey_deserialize H (NodeKey_display H k) = Inr k) \<and>
    (NodeKey_deserialize H text = Inr k' \<longrightarrow> nodekey_ok k')"
proof -
  have dec: "hex_decode H (hex_encode H bs) = Inr bs" and dig: "set (hex_encode H bs) \<subseteq> set hex_digits" for bs
    using assms by (simp_all add: hex_lib_ok_def)
  have "CHR ''n'' \<notin> set hex_digits" by (simp add: hex_digits_def)
  with dig have np: "strip_prefix ''nodekey:'' (hex_encode H bs) = None" for bs
  proof -
    have "CHR ''n'' \<notin> set (hex_encode H bs)" using dig \<open>CHR ''n'' \<notin> set hex_digits\<close> by blast
    then have "take (length ''nodekey:'') (hex_encode H bs) \<noteq> ''nodekey:''"
      by (metis in_set_takeD list.set_intros(1))
    then show ?thesis by (simp add: strip_prefix_def)
  qed
  have "strip_prefix ''nodekey:'' (''nodekey:'' @ hex_encode H bs) = Some (hex_encode H bs)" for bs
    by (rule strip_prefix_append)
  with np dec have "nodekey_ok k \<Longrightarrow> NodeKey_deserialize H (NodeKey_serialize H k) = Inr k \<and>
      NodeKey_deserialize H (NodeKey_display H k) = Inr k"
    by (simp add: NodeKey_deserialize_def NodeKey_serialize_def NodeKey_display_def to_hex_def)
  moreover have "NodeKey_deserialize H text = Inr k' \<Longrightarrow> nodekey_ok k'"
    by (auto simp: NodeKey_deserialize_def from_slice_Inr Let_def split: sum.splits)
  ultimately show ?thesis by blast
qed

theorem node_key_text_round_trip_witness:
  "NodeKey_deserialize hex_ref (NodeKey_display hex_ref (NodeKey (replicate 32 9))) = Inr (NodeKey (replicate 32 9))"
proof -
  have "nodekey_ok (NodeKey (replicate 32 9))" by code_simp
  with node_key_text_round_trip [OF hex_ref_ok] show ?thesis by blast
qed


end
