(* ===== verification/Derp_Metrics.thy ===== *)
theory Derp_Metrics
  imports Derp_Text
begin

text \<open>
  The counters and gauges of the server (\<open>src/src/metrics.rs\<close>): seventeen \<open>AtomicU64\<close> fields,
  updated by wrapping additions and subtractions, and their Prometheus text form.
\<close>

record Metrics =
  accepts :: u64
  current_clients :: u64
  preferred_clients :: u64
  home_moves_in :: u64
  home_moves_out :: u64
  packets_received :: u64
  packets_sent :: u64
  bytes_received :: u64
  bytes_sent :: u64
  packets_dropped :: u64
  queue_dropped :: u64
  unknown_frames :: u64
  websocket_accepts :: u64
  stun_requests :: u64
  admission_rejected :: u64
  mesh_forwarded_in :: u64
  mesh_forwarded_out :: u64

definition Metrics_default :: Metrics where
  "Metrics_default = \<lparr>accepts = 0, current_clients = 0, preferred_clients = 0, home_moves_in = 0,
     home_moves_out = 0, packets_received = 0, packets_sent = 0, bytes_received = 0, bytes_sent = 0,
     packets_dropped = 0, queue_dropped = 0, unknown_frames = 0, websocket_accepts = 0,
     stun_requests = 0, admission_rejected = 0, mesh_forwarded_in = 0, mesh_forwarded_out = 0\<rparr>"

definition inc :: "u64 \<Rightarrow> u64 \<Rightarrow> u64" where
  "inc v n = v + n"

definition dec :: "u64 \<Rightarrow> u64" where
  "dec v = v - 1"

subsection \<open>Decimal numbers\<close>

definition u64_to_string :: "u64 \<Rightarrow> string" where
  "u64_to_string v = show_nat (unat v)"

definition newline :: string where
  "newline = [CHR 0x0A]"

subsection \<open>The Prometheus text\<close>

text \<open>One expansion of the macro \<open>m!\<close>.\<close>

definition metric_text :: "string \<Rightarrow> u64 \<Rightarrow> string \<Rightarrow> string" where
  "metric_text name v typ =
     ''# TYPE '' @ name @ '' '' @ typ @ newline @ name @ '' '' @ u64_to_string v @ newline"

definition metric_table :: "Metrics \<Rightarrow> (string \<times> u64 \<times> string) list" where
  "metric_table m =
     [(''derp_accepts_total'', accepts m, ''counter''),
      (''derp_current_clients'', current_clients m, ''gauge''),
      (''derp_preferred_clients'', preferred_clients m, ''gauge''),
      (''derp_home_moves_in_total'', home_moves_in m, ''counter''),
      (''derp_home_moves_out_total'', home_moves_out m, ''counter''),
      (''derp_packets_received_total'', packets_received m, ''counter''),
      (''derp_packets_sent_total'', packets_sent m, ''counter''),
      (''derp_bytes_received_total'', bytes_received m, ''counter''),
      (''derp_bytes_sent_total'', bytes_sent m, ''counter''),
      (''derp_packets_dropped_total'', packets_dropped m, ''counter''),
      (''derp_queue_dropped_total'', queue_dropped m, ''counter''),
      (''derp_unknown_frames_total'', unknown_frames m, ''counter''),
      (''derp_websocket_accepts_total'', websocket_accepts m, ''counter''),
      (''derp_stun_requests_total'', stun_requests m, ''counter''),
      (''derp_admission_rejected_total'', admission_rejected m, ''counter''),
      (''derp_mesh_forwarded_in_total'', mesh_forwarded_in m, ''counter''),
      (''derp_mesh_forwarded_out_total'', mesh_forwarded_out m, ''counter'')]"

definition prometheus :: "Metrics \<Rightarrow> string" where
  "prometheus m = concat (map (\<lambda>(name, v, typ). metric_text name v typ) (metric_table m))"

lemma inc_dec [simp]: "dec (inc v 1) = v"
  by (simp add: inc_def dec_def)

end
