(* ===== verification/Derp_Stun.thy ===== *)
theory Derp_Stun
  imports Derp_Codec Derp_Metrics
begin

text \<open>
  The STUN responder (\<open>src/src/stun.rs\<close>): the check of a binding request and the response with the
  XOR-mapped source address, and the loop over the datagrams. The checksum of the crate \<open>crc32fast\<close> is a parameter. The reference
  definitions at the end are a client's: building a request, and reading the address of a response.
\<close>

definition COOKIE :: bytes where
  "COOKIE = [0x21, 0x12, 0xa4, 0x42]"

text \<open>\<open>b"tailnode"\<close>\<close>

definition TAILNODE :: bytes where
  "TAILNODE = map of_char ''tailnode''"

text \<open>\<open>(len + 3) & !3\<close> on \<open>usize\<close>\<close>

definition round4 :: "nat \<Rightarrow> nat" where
  "round4 len = unat ((of_nat (len + 3) :: u64) AND NOT 3)"

text \<open>The loop over the attributes; \<open>None\<close> is its early return.\<close>

function scan_attrs ::
    "bytes \<Rightarrow> nat \<Rightarrow> bool \<Rightarrow> (nat \<times> u32) option \<Rightarrow> (bool \<times> (nat \<times> u32) option) option" where
  "scan_attrs attrs pos software fingerprint =
     (if pos + 4 \<le> length attrs then
        (let k = u16_of_be (attrs ! pos) (attrs ! (pos + 1));
             len = unat (u16_of_be (attrs ! (pos + 2)) (attrs ! (pos + 3)))
         in if pos + 4 + len > length attrs then None
            else
              (let software = (if k = 0x8022 \<and> subslice (pos + 4) (pos + 4 + len) attrs = TAILNODE
                               then True else software);
                   fingerprint = (if k = 0x8028 \<and> len = 4 \<and> pos + 8 = length attrs
                                  then Some (pos, u32_from_slice (subslice (pos + 4) (pos + 8) attrs))
                                  else fingerprint)
               in scan_attrs attrs (pos + 4 + round4 len) software fingerprint))
      else Some (software, fingerprint))"
  by pat_completeness auto
termination
  by (relation "measure (\<lambda>(attrs, pos, _, _). length attrs - pos)") auto

declare scan_attrs.simps [simp del]

fun xor_bytes :: "bytes \<Rightarrow> bytes \<Rightarrow> bytes" where
  "xor_bytes (b # bs) (m # ms) = (b XOR m) # xor_bytes bs ms"
| "xor_bytes _ _ = []"

definition respond :: "(bytes \<Rightarrow> u32) \<Rightarrow> bytes \<Rightarrow> SocketAddr \<Rightarrow> bytes option" where
  "respond crc packet source =
     (if length packet < 20 \<or> subslice 0 2 packet \<noteq> [0, 1] \<or> subslice 4 8 packet \<noteq> COOKIE then None
      else
        (let declared = unat (u16_of_be (packet ! 2) (packet ! 3)) in
         if length packet < 20 + declared then None
         else
           case scan_attrs (subslice 20 (20 + declared) packet) 0 False None of
             None \<Rightarrow> None
           | Some (software, None) \<Rightarrow> None
           | Some (software, Some (fp_pos, got)) \<Rightarrow>
               (let absolute = 20 + fp_pos;
                    want = crc (take absolute packet) XOR 0x5354554e
                in if \<not> software \<or> got \<noteq> want then None
                   else
                     (let out = [0x01, 0x01, 0, 0] @ COOKIE @ subslice 8 20 packet @ u16_to_be 0x0020;
                          out = (case ip source of
                                   V4 octets \<Rightarrow>
                                     out @ u16_to_be 8 @ [0, 1] @ u16_to_be (port source XOR 0x2112)
                                       @ xor_bytes octets COOKIE
                                 | V6 octets \<Rightarrow>
                                     out @ u16_to_be 20 @ [0, 2] @ u16_to_be (port source XOR 0x2112)
                                       @ xor_bytes octets (COOKIE @ subslice 8 20 packet));
                          attr_len = length out - 20
                      in Some (take 2 out @ u16_to_be (of_nat attr_len) @ drop 4 out)))))"

text \<open>The body of the loop of \<open>serve\<close> for one received datagram: what is sent back, if anything.\<close>

definition serve_datagram :: "(bytes \<Rightarrow> u32) \<Rightarrow> bytes \<Rightarrow> SocketAddr \<Rightarrow> Metrics \<Rightarrow> Metrics \<times> bytes option" where
  "serve_datagram crc buf source m =
     (case respond crc buf source of
        Some response \<Rightarrow> (m\<lparr>stun_requests := inc (stun_requests m) 1\<rparr>, Some response)
      | None \<Rightarrow> (m, None))"

text \<open>
  The loop of \<open>serve\<close> over what happens at its socket: the shutdown flag changed, a datagram arrived (of
  which the buffer takes the first 2048 bytes), or receiving failed. The result has the answers with their
  destinations and how the loop ended, if it has; an answer that cannot be sent is ignored.
\<close>

datatype stun_event = ShutdownChanged bool | Datagram bytes SocketAddr | RecvFailed IoErrorKind

definition STUN_BUF :: nat where
  "STUN_BUF = 2048"

fun stun_serve ::
    "(bytes \<Rightarrow> u32) \<Rightarrow> stun_event list \<Rightarrow> Metrics \<Rightarrow> Metrics \<times> (bytes \<times> SocketAddr) list \<times> (IoErrorKind + unit) option" where
  "stun_serve crc [] m = (m, [], None)"
| "stun_serve crc (ShutdownChanged stop # es) m = (if stop then (m, [], Some (Inr ())) else stun_serve crc es m)"
| "stun_serve crc (RecvFailed e # es) m = (m, [], Some (Inl e))"
| "stun_serve crc (Datagram data source # es) m =
     (let (m, response) = serve_datagram crc (take STUN_BUF data) source m;
          (m, out, ended) = stun_serve crc es m
      in (m, (case response of Some r \<Rightarrow> (r, source) # out | None \<Rightarrow> out), ended))"

subsection \<open>Attribute alignment\<close>

lemma and_not_mask: "(x :: 'a :: len word) AND NOT (mask n) = push_bit n (drop_bit n x)"
  by (rule bit_word_eqI) (auto simp: bit_simps)

lemma round4_eq:
  assumes "n < 65536"
  shows "round4 n = (n + 3) div 4 * 4"
proof -
  have "(3 :: u64) = mask 2" by (simp add: mask_eq_exp_minus_1)
  then have "round4 n = unat (push_bit 2 (drop_bit 2 (of_nat (n + 3) :: u64)))"
    by (simp only: round4_def and_not_mask)
  also have "\<dots> = (n + 3) div 4 * 4"
    using assms by (simp add: drop_bit_eq_div push_bit_eq_mult unat_word_ariths unat_div unat_of_nat
        del: of_nat_add)
  finally show ?thesis .
qed

subsection \<open>A client's requests\<close>

text \<open>An attribute, padded to four bytes, and a binding request ending in its fingerprint.\<close>

definition attr_bytes :: "u16 \<times> bytes \<Rightarrow> bytes" where
  "attr_bytes a = (case a of (k, v) \<Rightarrow>
     u16_to_be k @ u16_to_be (of_nat (length v)) @ v @ replicate (round4 (length v) - length v) 0)"

definition request_body :: "(u16 \<times> bytes) list \<Rightarrow> u32 \<Rightarrow> bytes" where
  "request_body as fp = concat (map attr_bytes as) @ attr_bytes (0x8028, u32_to_be fp)"

definition request_head :: "bytes \<Rightarrow> (u16 \<times> bytes) list \<Rightarrow> bytes" where
  "request_head tx as =
     [0, 1] @ u16_to_be (of_nat (length (concat (map attr_bytes as)) + 8)) @ COOKIE @ tx
       @ concat (map attr_bytes as)"

definition request_packet :: "bytes \<Rightarrow> (u16 \<times> bytes) list \<Rightarrow> u32 \<Rightarrow> bytes" where
  "request_packet tx as fp = request_head tx as @ attr_bytes (0x8028, u32_to_be fp)"

text \<open>The address in a binding response, as a client reads it.\<close>

definition mapped_address :: "bytes \<Rightarrow> SocketAddr option" where
  "mapped_address out =
     (let p = u16_of_be (out ! 26) (out ! 27) XOR 0x2112 in
      if subslice 20 22 out = u16_to_be 0x0020 \<and> out ! 25 = 1
      then Some \<lparr>ip = V4 (xor_bytes (subslice 28 32 out) COOKIE), port = p\<rparr>
      else if subslice 20 22 out = u16_to_be 0x0020 \<and> out ! 25 = 2
      then Some \<lparr>ip = V6 (xor_bytes (subslice 28 44 out) (COOKIE @ subslice 8 20 out)), port = p\<rparr>
      else None)"

lemma attr_bytes_len: "length v < 65536 \<Longrightarrow> length (attr_bytes (k, v)) = 4 + round4 (length v)"
  by (simp add: attr_bytes_def round4_eq)

lemma nth_at: "length pre = n \<Longrightarrow> (pre @ xs) ! (n + i) = xs ! i"
  by (simp add: nth_append)

lemma scan_turn:
  assumes "pos + 4 \<le> length attrs" "u16_of_be (attrs ! pos) (attrs ! (pos + 1)) = k"
    and "unat (u16_of_be (attrs ! (pos + 2)) (attrs ! (pos + 3))) = len" "pos + 4 + len \<le> length attrs"
    and "subslice (pos + 4) (pos + 4 + len) attrs = v"
  shows "scan_attrs attrs pos sw fp = scan_attrs attrs (pos + 4 + round4 len)
    (sw \<or> k = 0x8022 \<and> v = TAILNODE)
    (if k = 0x8028 \<and> len = 4 \<and> pos + 8 = length attrs
     then Some (pos, u32_from_slice (subslice (pos + 4) (pos + 8) attrs)) else fp)"
proof -
  have "(if k = 0x8022 \<and> v = TAILNODE then True else sw) = (sw \<or> k = 0x8022 \<and> v = TAILNODE)" by auto
  with assms show ?thesis by (subst scan_attrs.simps) (simp only: Let_def if_True not_less [symmetric] not_False_eq_True if_False)
qed

text \<open>One turn of the loop, on an attribute in front of others.\<close>

lemma scan_step:
  assumes v: "length v < 65536"
  shows "scan_attrs (pre @ attr_bytes (k, v) @ post) (length pre) sw fp =
    scan_attrs (pre @ attr_bytes (k, v) @ post) (length pre + length (attr_bytes (k, v)))
      (sw \<or> k = 0x8022 \<and> v = TAILNODE)
      (if k = 0x8028 \<and> length v = 4 \<and> post = []
       then Some (length pre, u32_from_slice v) else fp)"
proof -
  let ?as = "pre @ attr_bytes (k, v) @ post" and ?n = "length pre"
  have r: "length v \<le> round4 (length v)" using v by (simp add: round4_eq)
  have hd: "?as ! ?n = ucast (drop_bit 8 k)" "?as ! (?n + 1) = ucast k"
    "?as ! (?n + 2) = ucast (drop_bit 8 (of_nat (length v) :: u16))" "?as ! (?n + 3) = ucast (of_nat (length v) :: u16)"
    by (simp_all add: attr_bytes_def nth_append u16_to_be_def)
  have l: "unat (of_nat (length v) :: u16) = length v" using v by (simp add: unat_of_nat)
  have sub: "subslice (?n + 4) (?n + 4 + length v) ?as = v"
    by (simp add: subslice_def attr_bytes_def u16_to_be_def)
  have sub4: "length v = 4 \<Longrightarrow> subslice (?n + 4) (?n + 8) ?as = v"
    by (simp add: subslice_def attr_bytes_def u16_to_be_def)
  have "length v = 4 \<Longrightarrow> round4 (length v) = 4" by (simp add: round4_eq)
  then have last: "length v = 4 \<Longrightarrow> ?n + 8 = length ?as \<longleftrightarrow> post = []"
    using attr_bytes_len [OF v, of k] by simp
  have le: "?n + 4 + length v \<le> length ?as" using r attr_bytes_len [OF v, of k] by simp
  then have le4: "?n + 4 \<le> length ?as" by linarith
  have kw: "u16_of_be (?as ! ?n) (?as ! (?n + 1)) = k" unfolding hd by simp
  have lw: "unat (u16_of_be (?as ! (?n + 2)) (?as ! (?n + 3))) = length v" unfolding hd by (simp add: l)
  have "(if k = 0x8028 \<and> length v = 4 \<and> ?n + 8 = length ?as
      then Some (?n, u32_from_slice (subslice (?n + 4) (?n + 8) ?as)) else fp) =
    (if k = 0x8028 \<and> length v = 4 \<and> post = [] then Some (?n, u32_from_slice v) else fp)"
    using sub4 last by auto
  with scan_turn [OF le4 kw lw le sub, of sw fp] show ?thesis
    by (simp only: attr_bytes_len [OF v] add.assoc)
qed

lemma scan_request:
  assumes "\<forall>(k, v)\<in>set as. length v < 65536"
  shows "scan_attrs (pre @ request_body as w) (length pre) sw fp =
    Some (sw \<or> (0x8022, TAILNODE) \<in> set as, Some (length pre + length (concat (map attr_bytes as)), w))"
  using assms
proof (induction as arbitrary: pre sw fp)
  case Nil
  have "scan_attrs (pre @ attr_bytes (0x8028, u32_to_be w)) (length (pre @ attr_bytes (0x8028, u32_to_be w))) sw' fp'
      = Some (sw', fp')" for sw' fp'
    by (subst scan_attrs.simps) simp
  with scan_step [of "u32_to_be w" pre "0x8028" "[]" sw fp] show ?case by (simp add: request_body_def)
next
  case (Cons a as)
  obtain k v where a: "a = (k, v)" by (cases a)
  with Cons.prems have v: "length v < 65536" by simp
  have ne: "request_body as w \<noteq> []" by (simp add: request_body_def attr_bytes_def u16_to_be_def)
  have body: "request_body (a # as) w = attr_bytes (k, v) @ request_body as w" by (simp add: request_body_def a)
  from scan_step [OF v, of pre k "request_body as w" sw fp] ne
    Cons.IH [of "pre @ attr_bytes (k, v)" "sw \<or> k = 0x8022 \<and> v = TAILNODE" fp] Cons.prems
  show ?case by (simp add: body [unfolded a] a add.assoc eq_commute [of TAILNODE])
qed

subsection \<open>Responses\<close>

lemma length_xor_bytes [simp]: "length (xor_bytes bs ms) = min (length bs) (length ms)"
  by (induction bs ms rule: xor_bytes.induct) simp_all

lemma xor_bytes_twice: "length bs \<le> length ms \<Longrightarrow> xor_bytes (xor_bytes bs ms) ms = bs"
  by (induction bs ms rule: xor_bytes.induct) (simp_all add: xor.assoc)

lemma COOKIE_len [simp]: "length COOKIE = 4"
  by (simp add: COOKIE_def)

text \<open>The response to a request with transaction id \<open>tx\<close>.\<close>

definition response :: "bytes \<Rightarrow> SocketAddr \<Rightarrow> bytes" where
  "response tx source =
     [0x01, 0x01] @ u16_to_be (case ip source of V4 _ \<Rightarrow> 12 | V6 _ \<Rightarrow> 24) @ COOKIE @ tx @ u16_to_be 0x0020 @
       (case ip source of
          V4 octets \<Rightarrow> u16_to_be 8 @ [0, 1] @ u16_to_be (port source XOR 0x2112) @ xor_bytes octets COOKIE
        | V6 octets \<Rightarrow> u16_to_be 20 @ [0, 2] @ u16_to_be (port source XOR 0x2112) @ xor_bytes octets (COOKIE @ tx))"

lemma mapped_response:
  assumes "length tx = 12" "addr_ok (ip source)"
  shows "mapped_address (response tx source) = Some source"
proof -
  define w where "w = port source XOR 0x2112"
  have p: "w XOR 0x2112 = port source" by (simp add: w_def xor.assoc)
  show ?thesis
  proof (cases "ip source")
    case (V4 o4)
    with assms have "length o4 = 4" by simp
    then have "mapped_address (response tx source) = Some \<lparr>ip = V4 o4, port = w XOR 0x2112\<rparr>"
      unfolding response_def w_def [symmetric] using V4 assms(1)
      by (simp add: mapped_address_def subslice_def nth_append u16_to_be_def Let_def COOKIE_def xor_bytes_twice)
    with V4 p show ?thesis by (cases source) simp
  next
    case (V6 o6)
    with assms have "length o6 = 16" by simp
    then have "mapped_address (response tx source) = Some \<lparr>ip = V6 o6, port = w XOR 0x2112\<rparr>"
      unfolding response_def w_def [symmetric] using V6 assms(1)
      by (simp add: mapped_address_def subslice_def nth_append u16_to_be_def Let_def COOKIE_def xor_bytes_twice)
    with V6 p show ?thesis by (cases source) simp
  qed
qed

text \<open>
  The responder on a request with any well-formed attributes and any fingerprint value: it answers
  exactly when the software attribute is there and the fingerprint is right.
\<close>

lemma respond_request:
  assumes "length tx = 12" "\<forall>(k, v)\<in>set as. length v < 65536"
    and len: "length (concat (map attr_bytes as)) + 8 < 65536" and "addr_ok (ip source)"
  shows "respond crc (request_packet tx as fp) source =
    (if (0x8022, TAILNODE) \<in> set as \<and> fp = crc (request_head tx as) XOR 0x5354554e
     then Some (response tx source) else None)"
proof -
  let ?p = "request_packet tx as fp" and ?n = "length (concat (map attr_bytes as))"
  have pk: "?p = [0, 1] @ u16_to_be (of_nat (?n + 8)) @ COOKIE @ tx @ request_body as fp"
    by (simp add: request_packet_def request_head_def request_body_def)
  have body: "length (request_body as fp) = ?n + 8"
    using attr_bytes_len [of "u32_to_be fp" "0x8028"] by (simp add: request_body_def round4_eq)
  have decl: "unat (u16_of_be (?p ! 2) (?p ! 3)) = ?n + 8"
  proof -
    have "u16_of_be (?p ! 2) (?p ! 3) = of_nat (?n + 8)" unfolding pk by (simp add: u16_to_be_def)
    with len show ?thesis by (simp add: unat_of_nat del: of_nat_add length_concat)
  qed
  have lp: "length ?p = 20 + (?n + 8)" using assms(1) body unfolding pk by simp
  have at: "subslice 20 (20 + (?n + 8)) ?p = request_body as fp"
    using assms(1) body unfolding pk by (simp add: subslice_def u16_to_be_def)
  have sub: "subslice 0 2 ?p = [0, 1]" "subslice 4 8 ?p = COOKIE" "subslice 8 20 ?p = tx"
    using assms(1) unfolding pk by (simp_all add: subslice_def u16_to_be_def COOKIE_def)
  have tk: "take (20 + ?n) ?p = request_head tx as"
  proof -
    have "length (request_head tx as) = 20 + ?n" using assms(1) by (simp add: request_head_def)
    then show ?thesis by (simp only: request_packet_def take_drop_append3)
  qed
  have sc: "scan_attrs (request_body as fp) 0 False None = Some ((0x8022, TAILNODE) \<in> set as, Some (?n, fp))"
    using scan_request [OF assms(2), of "[]" fp False None] by simp
  have fin: "take 2 out' @ u16_to_be (of_nat (length out' - 20)) @ drop 4 out' = response tx source"
    if "out' = (case ip source of
         V4 octets \<Rightarrow> ([0x01, 0x01, 0, 0] @ COOKIE @ tx @ u16_to_be 0x0020) @ u16_to_be 8 @ [0, 1]
            @ u16_to_be (port source XOR 0x2112) @ xor_bytes octets COOKIE
       | V6 octets \<Rightarrow> ([0x01, 0x01, 0, 0] @ COOKIE @ tx @ u16_to_be 0x0020) @ u16_to_be 20 @ [0, 2]
            @ u16_to_be (port source XOR 0x2112) @ xor_bytes octets (COOKIE @ tx))" for out'
    using that assms(1,4) by (cases "ip source") (simp_all add: response_def)
  show ?thesis
    unfolding respond_def Let_def decl lp at sub sc option.case prod.case tk fin [OF refl] by auto
qed

lemma guarded_some:
  "(if A then None else if B then None else
      case S of None \<Rightarrow> None | Some (sw, None) \<Rightarrow> None
      | Some (sw, Some (p, g)) \<Rightarrow> if Q sw p g then None else Some R) = Some out \<Longrightarrow> out = R"
  by (auto split: if_splits option.splits prod.splits)

lemma respond_shape:
  assumes "respond crc packet source = Some out" "addr_ok (ip source)"
  shows "out = response (subslice 8 20 packet) source" "20 \<le> length packet" "subslice 4 8 packet = COOKIE"
proof -
  let ?tx = "subslice 8 20 packet"
  have acc: "20 \<le> length packet" "subslice 4 8 packet = COOKIE"
    using assms(1) by (auto simp: respond_def split: if_splits)
  then show "20 \<le> length packet" "subslice 4 8 packet = COOKIE" by auto
  have tx: "length ?tx = 12" using acc(1) by simp
  have "take 2 out' @ u16_to_be (of_nat (length out' - 20)) @ drop 4 out' = response ?tx source"
    if "out' = (case ip source of
         V4 octets \<Rightarrow> ([0x01, 0x01, 0, 0] @ COOKIE @ ?tx @ u16_to_be 0x0020) @ u16_to_be 8 @ [0, 1]
            @ u16_to_be (port source XOR 0x2112) @ xor_bytes octets COOKIE
       | V6 octets \<Rightarrow> ([0x01, 0x01, 0, 0] @ COOKIE @ ?tx @ u16_to_be 0x0020) @ u16_to_be 20 @ [0, 2]
            @ u16_to_be (port source XOR 0x2112) @ xor_bytes octets (COOKIE @ ?tx))" for out'
    using that tx assms(2) by (cases "ip source") (simp_all add: response_def)
  note fin = this [OF refl]
  show "out = response ?tx source"
    by (rule guarded_some [OF assms(1) [unfolded respond_def Let_def fin]])
qed

lemma response_fields:
  assumes "length tx = 12" "addr_ok (ip source)"
  shows "subslice 8 20 (response tx source) = tx"
    "length (response tx source) = (case ip source of V4 _ \<Rightarrow> 32 | V6 _ \<Rightarrow> 44)"
    "unat (u16_of_be (response tx source ! 2) (response tx source ! 3)) =
       (case ip source of V4 _ \<Rightarrow> 12 | V6 _ \<Rightarrow> 24)"
proof -
  show "subslice 8 20 (response tx source) = tx"
    using assms(1) by (simp add: response_def subslice_def u16_to_be_def COOKIE_def)
  show "length (response tx source) = (case ip source of V4 _ \<Rightarrow> 32 | V6 _ \<Rightarrow> 44)"
    using assms by (cases "ip source") (simp_all add: response_def)
  have "u16_of_be (response tx source ! 2) (response tx source ! 3) = (case ip source of V4 _ \<Rightarrow> 12 | V6 _ \<Rightarrow> 24)"
    unfolding response_def u16_to_be_def by simp
  then show "unat (u16_of_be (response tx source ! 2) (response tx source ! 3)) =
       (case ip source of V4 _ \<Rightarrow> 12 | V6 _ \<Rightarrow> 24)"
    by (simp split: IpAddr.split)
qed

subsection \<open>Properties\<close>

text \<open>
  C32: A binding request with any well-formed attributes is answered exactly when it carries the
  \<open>tailnode\<close> software attribute and a correct fingerprint, and a client reads its own address and
  transaction id from the answer.
\<close>

theorem stun_answers_clients:
  assumes "length tx = 12" "\<forall>(k, v)\<in>set as. length v < 65536"
    and "length (concat (map attr_bytes as)) + 8 < 65536" "addr_ok (ip source)"
  shows "if (0x8022, TAILNODE) \<in> set as \<and> fp = crc (request_head tx as) XOR 0x5354554e
    then \<exists>out. respond crc (request_packet tx as fp) source = Some out \<and>
           mapped_address out = Some source \<and> subslice 8 20 out = tx
    else respond crc (request_packet tx as fp) source = None"
  using respond_request [OF assms, of crc fp] mapped_response [OF assms(1,4)] response_fields(1) [OF assms(1,4)]
  by (auto simp del: not_None_eq)

theorem stun_answers_clients_witness:
  "\<exists>out. respond (\<lambda>_. 7) (request_packet (replicate 12 9) [(0x8022, TAILNODE)] (7 XOR 0x5354554e))
      \<lparr>ip = V4 [192, 0, 2, 1], port = 1234\<rparr> = Some out \<and>
    mapped_address out = Some \<lparr>ip = V4 [192, 0, 2, 1], port = 1234\<rparr>"
proof -
  have "length (replicate 12 (9 :: byte)) = 12" "\<forall>(k, v)\<in>set [(0x8022 :: u16, TAILNODE)]. length v < 65536"
    "length (concat (map attr_bytes [(0x8022, TAILNODE)])) + 8 < 65536"
    "addr_ok (ip \<lparr>ip = V4 [192, 0, 2, 1], port = 1234\<rparr>)"
    by (simp_all add: attr_bytes_def TAILNODE_def round4_eq)
  from stun_answers_clients [OF this, of "7 XOR 0x5354554e" "\<lambda>_. 7"] show ?thesis by auto
qed

text \<open>
  Whatever datagram arrives, an answer is at most 44 bytes, echoes the transaction id of a packet
  with the STUN cookie, and names exactly the address the datagram came from, and it is counted; a
  datagram that is not answered changes nothing.
\<close>

theorem stun_answers_are_sound:
  assumes "addr_ok (ip source)" "(m', sent) = serve_datagram crc buf source m"
  shows "case sent of
      None \<Rightarrow> m' = m
    | Some out \<Rightarrow> stun_requests m' = stun_requests m + 1 \<and> length out \<le> 44 \<and>
        subslice 4 8 buf = COOKIE \<and> subslice 8 20 out = subslice 8 20 buf \<and>
        unat (u16_of_be (out ! 2) (out ! 3)) = length out - 20 \<and> mapped_address out = Some source"
proof (cases "respond crc buf source")
  case None
  with assms(2) show ?thesis by (simp add: serve_datagram_def)
next
  case (Some out)
  note r = respond_shape [OF Some assms(1)]
  have tx: "length (subslice 8 20 buf) = 12" using r(2) by simp
  have "length out \<le> 44" "unat (u16_of_be (out ! 2) (out ! 3)) = length out - 20"
    using response_fields(2,3) [OF tx assms(1)] by (simp_all add: r(1) split: IpAddr.splits)
  with assms(2) Some r response_fields(1) [OF tx assms(1)] mapped_response [OF tx assms(1)]
  show ?thesis by (simp add: serve_datagram_def inc_def)
qed

theorem stun_answers_are_sound_witness:
  "\<exists>m' out. serve_datagram (\<lambda>_. 7) (request_packet (replicate 12 9) [(0x8022, TAILNODE)] (7 XOR 0x5354554e))
      \<lparr>ip = V4 [192, 0, 2, 1], port = 1234\<rparr> Metrics_default = (m', Some out) \<and> stun_requests m' = 1 \<and>
    mapped_address out = Some \<lparr>ip = V4 [192, 0, 2, 1], port = 1234\<rparr>"
proof -
  let ?a = "\<lparr>ip = V4 [192, 0, 2, 1], port = 1234\<rparr>"
    and ?p = "request_packet (replicate 12 9) [(0x8022, TAILNODE)] (7 XOR 0x5354554e)"
  have ok: "addr_ok (ip ?a)" by simp
  obtain m' sent where e: "serve_datagram (\<lambda>_. 7) ?p ?a Metrics_default = (m', sent)" by fastforce
  have "snd (serve_datagram (\<lambda>_. 7) ?p ?a Metrics_default) \<noteq> None" by code_simp
  with e obtain out where s: "sent = Some out" by auto
  from stun_answers_are_sound [OF ok e [symmetric]] s e show ?thesis
    by (simp add: Metrics_default_def)
qed

subsection \<open>The loop\<close>

fun stun_goes_on :: "stun_event \<Rightarrow> bool" where
  "stun_goes_on (ShutdownChanged stop) = (\<not> stop)"
| "stun_goes_on (Datagram _ _) = True"
| "stun_goes_on (RecvFailed _) = False"

fun stun_answer :: "(bytes \<Rightarrow> u32) \<Rightarrow> stun_event \<Rightarrow> (bytes \<times> SocketAddr) option" where
  "stun_answer crc (Datagram data source) = map_option (\<lambda>r. (r, source)) (respond crc (take STUN_BUF data) source)"
| "stun_answer crc _ = None"

text \<open>
  The STUN loop answers the datagrams up to the event that ends it, each to its source and in
  order, ends at the shutdown or the first socket error, and counts exactly its answers.
\<close>

theorem stun_serves:
  "stun_serve crc es m = (m', out, ended) \<Longrightarrow>
     out = List.map_filter (stun_answer crc) (takeWhile stun_goes_on es) \<and> (ended = None \<longleftrightarrow> list_all stun_goes_on es) \<and>
     stun_requests m' = stun_requests m + of_nat (length out)"
proof (induction crc es m arbitrary: m' out ended rule: stun_serve.induct)
  case (4 crc data source es m)
  obtain m1 r where r: "serve_datagram crc (take STUN_BUF data) source m = (m1, r)" by fastforce
  obtain m2 out2 e2 where s: "stun_serve crc es m1 = (m2, out2, e2)" by (cases "stun_serve crc es m1")
  have "r = respond crc (take STUN_BUF data) source" "stun_requests m1 = stun_requests m + (if r = None then 0 else 1)"
    using r by (auto simp: serve_datagram_def inc_def split: option.splits)
  moreover have "out2 = List.map_filter (stun_answer crc) (takeWhile stun_goes_on es)"
    "e2 = None \<longleftrightarrow> list_all stun_goes_on es" "stun_requests m2 = stun_requests m1 + of_nat (length out2)"
    using 4(1) [OF r [symmetric] refl s] by simp_all
  moreover have "m' = m2" "out = (case r of Some b \<Rightarrow> (b, source) # out2 | None \<Rightarrow> out2)" "ended = e2"
    using 4(2) r s by simp_all
  ultimately show ?case
    by (cases "respond crc (take STUN_BUF data) source") (simp_all add: map_filter_simps)
qed (auto simp: map_filter_simps split: if_splits)

theorem stun_serves_witness:
  "stun_requests (fst (stun_serve (\<lambda>_. 0) [Datagram [] \<lparr>ip = V4 [1, 2, 3, 4], port = 5\<rparr>, ShutdownChanged True] Metrics_default)) = 0"
proof -
  let ?es = "[Datagram [] \<lparr>ip = V4 [1, 2, 3, 4], port = 5\<rparr>, ShutdownChanged True]"
  obtain m' out ended where s: "stun_serve (\<lambda>_. 0) ?es Metrics_default = (m', out, ended)" by (cases "stun_serve (\<lambda>_. 0) ?es Metrics_default")
  have "respond (\<lambda>_. 0) [] \<lparr>ip = V4 [1, 2, 3, 4], port = 5\<rparr> = None" by (simp add: respond_def)
  with stun_serves [OF s] s show ?thesis by (simp add: map_filter_simps Metrics_default_def)
qed

end
