(* ===== verification/Derp_Relay.thy ===== *)
theory Derp_Relay
  imports Derp_Protocol Derp_Metrics Derp_Limiter
begin

text \<open>
  The relay (\<open>src/src/relay.rs\<close>): sessions, the per-key session sets, the hot-path index of active
  sessions, reverse paths, watchers and mesh routes.

  A handle is shared (\<open>Arc<SessionHandle>\<close>) between the session sets, the index and the watchers, so
  handles live in a store \<open>heap\<close> addressed by their session id, and every container holds ids. The
  ids come from \<open>next_id\<close>, a 64-bit counter, so a reference determines its id as long as the
  counter has not wrapped. A \<open>DashMap\<close> that the code iterates is an association list with distinct
  keys, one that it only looks up is a map. The bounded channels of \<open>tokio::sync::mpsc\<close> are a
  parameter (record \<open>mpsc\<close>), and a sender is a reference into the store \<open>chans\<close>. Every operation is
  one atomic step, except \<open>unregister\<close>, whose two critical sections are two definitions.
\<close>

type_synonym SessionId = u64

text \<open>
  \<open>mpsc::channel\<close>, \<open>Sender::try_send\<close> (\<open>None\<close> is the error of a full or closed channel),
  \<open>Receiver::try_recv\<close> and the drop of the receiver.
\<close>

record 'ch mpsc =
  channel :: "nat \<Rightarrow> 'ch"
  try_send :: "Frame \<Rightarrow> 'ch \<Rightarrow> 'ch option"
  try_recv :: "'ch \<Rightarrow> (Frame \<times> 'ch) option"
  drop_rx :: "'ch \<Rightarrow> 'ch"

datatype chan_id = SessionChan SessionId | MeshChan u64

subsection \<open>Data\<close>

record SessionHandle =
  sh_id :: SessionId
  sh_key :: NodeKey
  endpoint :: SocketAddr
  can_mesh :: bool
  can_ack_pings :: bool
  is_prober :: bool
  not_ideal :: bool
  sh_tx :: chan_id
  sh_closed :: bool
  duplicate :: bool
  preferred :: bool
  preferred_seen :: bool
  seen_sources :: "NodeKey set"
  peer_gone_limiter :: PeerGoneLimiter

record PeerSet =
  sessions :: "SessionId list"
  ps_active :: SessionId

record MeshRoute =
  mr_mesh_id :: u64
  mr_tx :: chan_id

record 'ch Relay =
  heap :: "SessionId \<rightharpoonup> SessionHandle"
  chans :: "chan_id \<rightharpoonup> 'ch"
  peers :: "(NodeKey \<times> PeerSet) list"
  active_ix :: "NodeKey \<rightharpoonup> SessionId"
  reverse_paths :: "NodeKey \<rightharpoonup> NodeKey list"
  watchers :: "SessionId list"
  mesh_routes :: "(NodeKey \<times> MeshRoute list) list"
  next_id :: SessionId
  mesh_key :: "bytes option"
  queue_depth :: nat
  metrics :: Metrics

abbreviation upd_metrics :: "(Metrics \<Rightarrow> Metrics) \<Rightarrow> 'ch Relay \<Rightarrow> 'ch Relay" where
  "upd_metrics g s \<equiv> s\<lparr>metrics := g (metrics s)\<rparr>"

definition upd_handle :: "SessionId \<Rightarrow> (SessionHandle \<Rightarrow> SessionHandle) \<Rightarrow> 'ch Relay \<Rightarrow> 'ch Relay" where
  "upd_handle sid g s = s\<lparr>heap := (heap s)(sid := map_option g (heap s sid))\<rparr>"

subsection \<open>Sessions\<close>

definition flags :: "SessionHandle \<Rightarrow> byte" where
  "flags h =
     (let f = 0;
          f = (if can_mesh h then f OR FLAG_MESH else f);
          f = (if is_prober h then f OR FLAG_PROBER else f);
          f = (if not_ideal h then f OR FLAG_NOT_IDEAL else f)
      in if f = 0 then FLAG_REGULAR else f)"

definition chan_send :: "'ch mpsc \<Rightarrow> chan_id \<Rightarrow> Frame \<Rightarrow> 'ch Relay \<Rightarrow> 'ch Relay \<times> bool" where
  "chan_send C ch f s =
     (case chans s ch of
        None \<Rightarrow> (s, False)
      | Some c \<Rightarrow>
          (case try_send C f c of
             None \<Rightarrow> (s, False)
           | Some c' \<Rightarrow> (s\<lparr>chans := (chans s)(ch \<mapsto> c')\<rparr>, True)))"

definition send :: "'ch mpsc \<Rightarrow> SessionId \<Rightarrow> Frame \<Rightarrow> 'ch Relay \<Rightarrow> 'ch Relay \<times> bool" where
  "send C sid f s =
     (case heap s sid of
        None \<Rightarrow> (s, False)
      | Some h \<Rightarrow>
          (case chan_send C (sh_tx h) f s of
             (s, True) \<Rightarrow> (s, True)
           | (s, False) \<Rightarrow>
               (upd_metrics (\<lambda>m. m\<lparr>queue_dropped := inc (queue_dropped m) 1\<rparr>) s, False)))"

definition close :: "SessionId \<Rightarrow> 'ch Relay \<Rightarrow> 'ch Relay" where
  "close sid s = upd_handle sid (\<lambda>h. h\<lparr>sh_closed := True\<rparr>) s"

definition is_closed :: "SessionHandle \<Rightarrow> bool" where
  "is_closed h = sh_closed h"

text \<open>\<open>b"TS\xF0\x9F\x92\xAC"\<close>\<close>

definition DISCO_MAGIC :: bytes where
  "DISCO_MAGIC = [0x54, 0x53, 0xF0, 0x9F, 0x92, 0xAC]"

definition looks_like_disco_wrapper :: "bytes \<Rightarrow> bool" where
  "looks_like_disco_wrapper packet \<longleftrightarrow>
     length packet \<ge> length DISCO_MAGIC + 32 + 24 \<and>
     take (length DISCO_MAGIC) packet = DISCO_MAGIC"

definition send_peer_not_here ::
    "'ch mpsc \<Rightarrow> nat \<Rightarrow> SessionId \<Rightarrow> NodeKey \<Rightarrow> bytes \<Rightarrow> 'ch Relay \<Rightarrow> 'ch Relay" where
  "send_peer_not_here C now sid peer packet s =
     (if looks_like_disco_wrapper packet then
        case heap s sid of
          None \<Rightarrow> s
        | Some h \<Rightarrow>
            (let (l, ok) = allow now (peer_gone_limiter h);
                 s = upd_handle sid (\<lambda>h. h\<lparr>peer_gone_limiter := l\<rparr>) s
             in if ok then fst (send C sid (PeerGone peer NOT_HERE) s) else s)
      else s)"

definition PeerSet_active :: "PeerSet \<Rightarrow> SessionId option" where
  "PeerSet_active ps =
     (case find (\<lambda>i. i = ps_active ps) (sessions ps) of
        Some i \<Rightarrow> Some i
      | None \<Rightarrow> (if sessions ps = [] then None else Some (last (sessions ps))))"

subsection \<open>The relay\<close>

definition Relay_new :: "nat \<Rightarrow> bytes option \<Rightarrow> 'ch Relay" where
  "Relay_new depth mkey =
     \<lparr>heap = Map.empty, chans = Map.empty, peers = [], active_ix = Map.empty,
      reverse_paths = Map.empty, watchers = [], mesh_routes = [], next_id = 1,
      mesh_key = mkey, queue_depth = max depth 1, metrics = Metrics_default\<rparr>"

definition client_count :: "'ch Relay \<Rightarrow> nat" where
  "client_count s = sum_list (map (\<lambda>(k, ps). length (sessions ps)) (peers s))"

definition public_peer_count :: "'ch Relay \<Rightarrow> nat" where
  "public_peer_count s = length (peers s)"

text \<open>\<open>ct_eq\<close> compares in constant time; its result is equality.\<close>

definition is_mesh_key :: "bytes option \<Rightarrow> 'ch Relay \<Rightarrow> bool" where
  "is_mesh_key value s =
     (case (mesh_key s, value) of (Some a, Some b) \<Rightarrow> a = b | _ \<Rightarrow> False)"

definition active :: "NodeKey \<Rightarrow> 'ch Relay \<Rightarrow> SessionId option" where
  "active key s = active_ix s key"

definition broadcast_presence :: "'ch mpsc \<Rightarrow> SessionId \<Rightarrow> bool \<Rightarrow> 'ch Relay \<Rightarrow> 'ch Relay" where
  "broadcast_presence C sid present s =
     (case heap s sid of
        None \<Rightarrow> s
      | Some peer \<Rightarrow>
          (let frame = (if present
                        then PeerPresent (sh_key peer) (Some (endpoint peer)) (Some (flags peer)) []
                        else PeerGone (sh_key peer) DISCONNECTED)
           in fold (\<lambda>w s. if w \<noteq> sid then fst (send C w frame s) else s) (watchers s) s))"

text \<open>\<open>b"duplicate DERP connection for node key"\<close>\<close>

definition DUPLICATE_HEALTH :: bytes where
  "DUPLICATE_HEALTH = map of_char ''duplicate DERP connection for node key''"

definition register ::
    "'ch mpsc \<Rightarrow> nat \<Rightarrow> NodeKey \<Rightarrow> SocketAddr \<Rightarrow> bool \<Rightarrow> bool \<Rightarrow> bool \<Rightarrow> bool
       \<Rightarrow> 'ch Relay \<Rightarrow> SessionId \<times> 'ch Relay" where
  "register C now key ep mesh ack prober nideal s =
     (let sid = next_id s;
          s = s\<lparr>next_id := sid + 1\<rparr>;
          s = s\<lparr>chans := (chans s)(SessionChan sid \<mapsto> channel C (queue_depth s))\<rparr>;
          handle = \<lparr>sh_id = sid, sh_key = key, endpoint = ep, can_mesh = mesh, can_ack_pings = ack,
                    is_prober = prober, not_ideal = nideal, sh_tx = SessionChan sid,
                    sh_closed = False, duplicate = False, preferred = False,
                    preferred_seen = False, seen_sources = {},
                    peer_gone_limiter = PeerGoneLimiter_new now\<rparr>;
          s = s\<lparr>heap := (heap s)(sid \<mapsto> handle)\<rparr>;
          pset = (case map_of (peers s) key of
                   Some ps \<Rightarrow> ps
                 | None \<Rightarrow> \<lparr>sessions = [], ps_active = sid\<rparr>);
          pset = pset\<lparr>sessions := sessions pset @ [sid], ps_active := sid\<rparr>;
          s = s\<lparr>peers := AList.update key pset (peers s)\<rparr>;
          s = s\<lparr>active_ix := (active_ix s)(key \<mapsto> sid)\<rparr>;
          s = (if length (sessions pset) > 1
               then fold (\<lambda>i s. fst (send C i (Health DUPLICATE_HEALTH)
                                  (upd_handle i (\<lambda>h. h\<lparr>duplicate := True\<rparr>) s)))
                      (sessions pset) s
               else s);
          s = upd_metrics (\<lambda>m. m\<lparr>current_clients := inc (current_clients m) 1\<rparr>) s;
          s = broadcast_presence C sid True s
      in (sid, s))"

definition note_activity :: "SessionId \<Rightarrow> 'ch Relay \<Rightarrow> 'ch Relay" where
  "note_activity sid s =
     (case heap s sid of
        None \<Rightarrow> s
      | Some handle \<Rightarrow>
          (if \<not> duplicate handle then s
           else case map_of (peers s) (sh_key handle) of
                  None \<Rightarrow> s
                | Some pset \<Rightarrow>
                    (let pset = pset\<lparr>ps_active := sid\<rparr>;
                         s = s\<lparr>peers := AList.update (sh_key handle) pset (peers s)\<rparr>
                     in case PeerSet_active pset of
                          None \<Rightarrow> s
                        | Some a \<Rightarrow> s\<lparr>active_ix := (active_ix s)(sh_key handle \<mapsto> a)\<rparr>)))"

definition note_preferred :: "SessionId \<Rightarrow> bool \<Rightarrow> 'ch Relay \<Rightarrow> 'ch Relay" where
  "note_preferred sid pref s =
     (case heap s sid of
        None \<Rightarrow> s
      | Some handle \<Rightarrow>
          (let was_preferred = preferred handle;
               was_seen = preferred_seen handle;
               s = upd_handle sid (\<lambda>h. h\<lparr>preferred := pref, preferred_seen := True\<rparr>) s
           in if was_preferred = pref then s
              else if pref then
                (let s = upd_metrics (\<lambda>m. m\<lparr>preferred_clients := inc (preferred_clients m) 1\<rparr>) s
                 in if was_seen
                    then upd_metrics (\<lambda>m. m\<lparr>home_moves_in := inc (home_moves_in m) 1\<rparr>) s else s)
              else
                (let s = upd_metrics (\<lambda>m. m\<lparr>preferred_clients := dec (preferred_clients m)\<rparr>) s
                 in if was_seen
                    then upd_metrics (\<lambda>m. m\<lparr>home_moves_out := inc (home_moves_out m) 1\<rparr>) s else s)))"

text \<open>
  \<open>unregister\<close> up to the release of the session set's lock; the second component is \<open>gone\<close>.
\<close>

definition unregister_begin :: "'ch mpsc \<Rightarrow> SessionId \<Rightarrow> 'ch Relay \<Rightarrow> 'ch Relay \<times> bool" where
  "unregister_begin C sid s =
     (case heap s sid of
        None \<Rightarrow> (s, False)
      | Some handle \<Rightarrow>
          (let s = s\<lparr>watchers := removeAll sid (watchers s)\<rparr>;
               s = close sid s;
               was_preferred = preferred handle;
               s = upd_handle sid (\<lambda>h. h\<lparr>preferred := False\<rparr>) s;
               s = (if was_preferred
                    then upd_metrics (\<lambda>m. m\<lparr>preferred_clients := dec (preferred_clients m)\<rparr>) s
                    else s)
           in case map_of (peers s) (sh_key handle) of
                None \<Rightarrow> (s, False)
              | Some pset \<Rightarrow>
                  (let pset = pset\<lparr>sessions := filter (\<lambda>i. i \<noteq> sid) (sessions pset)\<rparr> in
                   if sessions pset = []
                   then (s\<lparr>peers := AList.update (sh_key handle) pset (peers s)\<rparr>, True)
                   else
                     (let a = last (sessions pset);
                          pset = pset\<lparr>ps_active := a\<rparr>;
                          s = s\<lparr>peers := AList.update (sh_key handle) pset (peers s)\<rparr>;
                          s = s\<lparr>active_ix := (active_ix s)(sh_key handle \<mapsto> a)\<rparr>;
                          s = (if length (sessions pset) = 1
                               then fst (send C (hd (sessions pset)) (Health [])
                                      (upd_handle (hd (sessions pset)) (\<lambda>h. h\<lparr>duplicate := False\<rparr>) s))
                               else s)
                      in (s, False)))))"

definition unregister_finish :: "'ch mpsc \<Rightarrow> SessionId \<Rightarrow> bool \<Rightarrow> 'ch Relay \<Rightarrow> 'ch Relay" where
  "unregister_finish C sid gone s =
     (case heap s sid of
        None \<Rightarrow> s
      | Some handle \<Rightarrow>
          (let key = sh_key handle;
               s = (if gone then
                      (let s = s\<lparr>peers := AList.delete key (peers s)\<rparr>;
                           s = s\<lparr>active_ix := (active_ix s)(key := None)\<rparr>;
                           s = broadcast_presence C sid False s;
                           s = (case reverse_paths s key of
                                  None \<Rightarrow> s
                                | Some ws \<Rightarrow>
                                    fold (\<lambda>w s. case active w s of
                                                  None \<Rightarrow> s
                                                | Some dst \<Rightarrow>
                                                    fst (send C dst (PeerGone key DISCONNECTED) s))
                                      ws (s\<lparr>reverse_paths := (reverse_paths s)(key := None)\<rparr>))
                       in s\<lparr>reverse_paths := (\<lambda>k. map_option (removeAll key) (reverse_paths s k))\<rparr>)
                    else s)
           in upd_metrics (\<lambda>m. m\<lparr>current_clients := dec (current_clients m)\<rparr>) s))"

definition unregister :: "'ch mpsc \<Rightarrow> SessionId \<Rightarrow> 'ch Relay \<Rightarrow> 'ch Relay" where
  "unregister C sid s =
     (let (s, gone) = unregister_begin C sid s in unregister_finish C sid gone s)"

subsection \<open>Mesh routes\<close>

fun try_routes :: "'ch mpsc \<Rightarrow> Frame \<Rightarrow> MeshRoute list \<Rightarrow> 'ch Relay \<Rightarrow> 'ch Relay \<times> bool" where
  "try_routes C f [] s = (s, False)"
| "try_routes C f (r # rs) s =
     (case chan_send C (mr_tx r) f s of
        (s, True) \<Rightarrow> (s, True)
      | (s, False) \<Rightarrow> try_routes C f rs s)"

definition forward_to_mesh ::
    "'ch mpsc \<Rightarrow> NodeKey \<Rightarrow> NodeKey \<Rightarrow> bytes \<Rightarrow> 'ch Relay \<Rightarrow> 'ch Relay \<times> bool" where
  "forward_to_mesh C src dst packet s =
     (case map_of (mesh_routes s) dst of
        None \<Rightarrow> (s, False)
      | Some routes \<Rightarrow> try_routes C (ForwardPacket src dst packet) routes s)"

definition add_mesh_route :: "u64 \<Rightarrow> NodeKey \<Rightarrow> chan_id \<Rightarrow> 'ch Relay \<Rightarrow> 'ch Relay" where
  "add_mesh_route mid peer ch s =
     (let routes = (case map_of (mesh_routes s) peer of Some rs \<Rightarrow> rs | None \<Rightarrow> []);
          routes = (if \<not> list_ex (\<lambda>r. mr_mesh_id r = mid) routes
                    then routes @ [\<lparr>mr_mesh_id = mid, mr_tx = ch\<rparr>] else routes)
      in s\<lparr>mesh_routes := AList.update peer routes (mesh_routes s)\<rparr>)"

definition remove_mesh_route :: "u64 \<Rightarrow> NodeKey \<Rightarrow> 'ch Relay \<Rightarrow> 'ch Relay" where
  "remove_mesh_route mid peer s =
     (case map_of (mesh_routes s) peer of
        None \<Rightarrow> s
      | Some routes \<Rightarrow>
          (let routes = filter (\<lambda>r. mr_mesh_id r \<noteq> mid) routes;
               s = s\<lparr>mesh_routes := AList.update peer routes (mesh_routes s)\<rparr>
           in if routes = [] then s\<lparr>mesh_routes := AList.delete peer (mesh_routes s)\<rparr> else s))"

definition remove_mesh :: "u64 \<Rightarrow> 'ch Relay \<Rightarrow> 'ch Relay" where
  "remove_mesh mid s =
     (let ks = map fst (filter (\<lambda>(k, routes). list_ex (\<lambda>r. mr_mesh_id r = mid) routes) (mesh_routes s))
      in fold (remove_mesh_route mid) ks s)"

subsection \<open>Routing, watching, closing\<close>

definition route ::
    "'ch mpsc \<Rightarrow> nat \<Rightarrow> SessionId \<Rightarrow> NodeKey \<Rightarrow> NodeKey \<Rightarrow> bytes \<Rightarrow> bool \<Rightarrow> 'ch Relay \<Rightarrow> 'ch Relay" where
  "route C now source src dst packet forwarded s =
     (let s = upd_metrics (\<lambda>m. m\<lparr>packets_received := inc (packets_received m) 1\<rparr>) s;
          s = upd_metrics (\<lambda>m. m\<lparr>bytes_received :=
                             inc (bytes_received m) (of_nat (length packet))\<rparr>) s;
          s = (case active dst s of
                 Some dest \<Rightarrow>
                   (case send C dest (RecvPacket src packet) s of
                      (s, True) \<Rightarrow>
                        (let s = upd_metrics (\<lambda>m. m\<lparr>packets_sent := inc (packets_sent m) 1\<rparr>) s;
                             s = upd_metrics (\<lambda>m. m\<lparr>bytes_sent :=
                                   inc (bytes_sent m) (of_nat (length packet))\<rparr>) s
                         in case heap s dest of
                              None \<Rightarrow> s
                            | Some d \<Rightarrow>
                                (if src \<in> seen_sources d then s
                                 else
                                   (let s = upd_handle dest
                                          (\<lambda>h. h\<lparr>seen_sources := insert src (seen_sources h)\<rparr>) s;
                                        paths = (case reverse_paths s src of
                                                   Some ks \<Rightarrow> ks | None \<Rightarrow> [])
                                    in s\<lparr>reverse_paths :=
                                          (reverse_paths s)(src \<mapsto> List.insert dst paths)\<rparr>)))
                    | (s, False) \<Rightarrow>
                        upd_metrics (\<lambda>m. m\<lparr>packets_dropped := inc (packets_dropped m) 1\<rparr>) s)
               | None \<Rightarrow>
                   (case (if forwarded then (s, False) else forward_to_mesh C src dst packet s) of
                      (s, True) \<Rightarrow>
                        upd_metrics (\<lambda>m. m\<lparr>mesh_forwarded_out := inc (mesh_forwarded_out m) 1\<rparr>) s
                    | (s, False) \<Rightarrow>
                        send_peer_not_here C now source dst packet
                          (upd_metrics (\<lambda>m. m\<lparr>packets_dropped := inc (packets_dropped m) 1\<rparr>) s)))
      in if forwarded
         then upd_metrics (\<lambda>m. m\<lparr>mesh_forwarded_in := inc (mesh_forwarded_in m) 1\<rparr>) s
         else s)"

definition watch :: "'ch mpsc \<Rightarrow> SessionId \<Rightarrow> 'ch Relay \<Rightarrow> 'ch Relay \<times> bool" where
  "watch C sid s =
     (case heap s sid of
        None \<Rightarrow> (s, False)
      | Some watcher \<Rightarrow>
          (if \<not> can_mesh watcher then (s, False)
           else
             (let s = s\<lparr>watchers := List.insert sid (watchers s)\<rparr>
              in (fold (\<lambda>(key, pset) s.
                          case Option.bind (PeerSet_active pset) (heap s) of
                            None \<Rightarrow> s
                          | Some a \<Rightarrow>
                              fst (send C sid (PeerPresent key (Some (endpoint a)) (Some (flags a)) []) s))
                    (peers s) s, True))))"

definition close_peer :: "SessionId \<Rightarrow> NodeKey \<Rightarrow> 'ch Relay \<Rightarrow> 'ch Relay \<times> bool" where
  "close_peer requester peer s =
     (case heap s requester of
        None \<Rightarrow> (s, False)
      | Some h \<Rightarrow>
          (if \<not> can_mesh h then (s, False)
           else case map_of (peers s) peer of
                  None \<Rightarrow> (s, False)
                | Some pset \<Rightarrow> (fold close (sessions pset) s, True)))"

definition broadcast_restart :: "'ch mpsc \<Rightarrow> u32 \<Rightarrow> u32 \<Rightarrow> 'ch Relay \<Rightarrow> 'ch Relay" where
  "broadcast_restart C reconnect_in_ms try_for_ms s =
     fold (\<lambda>(key, pset) s.
             fold (\<lambda>i s. fst (send C i (Restarting reconnect_in_ms try_for_ms) s)) (sessions pset) s)
       (peers s) s"

end
