(* ===== verification/Derp_Relay_Inv.thy ===== *)
theory Derp_Relay_Inv
  imports Derp_Relay Derp_Codec
begin

text \<open>
  The invariant of the relay and its preservation by every operation: the session sets are
  non-empty and duplicate-free, the duplicate flags and the hot-path index agree with them, the
  watchers are live mesh sessions, and the gauges count the live and the preferred sessions.
\<close>

subsection \<open>Sending only touches queues\<close>

text \<open>
  \<open>only_queues s t\<close>: the state \<open>t\<close> differs from \<open>s\<close> in channel contents and the counter of
  refused sends at most.
\<close>

definition only_queues :: "'ch Relay \<Rightarrow> 'ch Relay \<Rightarrow> bool" where
  "only_queues s t \<longleftrightarrow>
     (\<exists>ch q. dom (chans s) \<subseteq> dom ch \<and>
        t = s\<lparr>chans := ch, metrics := (metrics s)\<lparr>queue_dropped := q\<rparr>\<rparr>)"

text \<open>
  Every routed packet is delivered, forwarded or dropped, so this difference of the counters is 0.
\<close>

definition balance :: "Metrics \<Rightarrow> u64" where
  "balance m = packets_received m - packets_sent m - packets_dropped m - mesh_forwarded_out m"

lemma only_queuesE:
  assumes "only_queues s t"
  obtains ch q where "dom (chans s) \<subseteq> dom ch" "t = s\<lparr>chans := ch, metrics := (metrics s)\<lparr>queue_dropped := q\<rparr>\<rparr>"
  using assms by (auto simp: only_queues_def)

lemma only_queuesI: "dom (chans s) \<subseteq> dom ch \<Longrightarrow>
    only_queues s (s\<lparr>chans := ch, metrics := (metrics s)\<lparr>queue_dropped := q\<rparr>\<rparr>)"
  unfolding only_queues_def by blast

lemma only_queues_chans: "dom (chans s) \<subseteq> dom ch \<Longrightarrow> only_queues s (s\<lparr>chans := ch\<rparr>)"
  using only_queuesI [where s = s and ch = ch and q = "queue_dropped (metrics s)"] by simp

lemma only_queues_refl [simp, intro]: "only_queues s s"
  using only_queues_chans [where s = s and ch = "chans s"] by simp

lemma only_queues_trans [trans]: "only_queues s t \<Longrightarrow> only_queues t u \<Longrightarrow> only_queues s u"
  by (elim only_queuesE) (simp, rule only_queuesI, blast)

lemma only_queues_fields [relay_frame]:
  assumes "only_queues s t"
  shows "heap t = heap s" "peers t = peers s" "active_ix t = active_ix s"
    "reverse_paths t = reverse_paths s" "watchers t = watchers s" "mesh_routes t = mesh_routes s"
    "next_id t = next_id s" "mesh_key t = mesh_key s" "queue_depth t = queue_depth s"
    "current_clients (metrics t) = current_clients (metrics s)"
    "preferred_clients (metrics t) = preferred_clients (metrics s)"
    "balance (metrics t) = balance (metrics s)" "packets_sent (metrics t) = packets_sent (metrics s)"
    "packets_received (metrics t) = packets_received (metrics s)"
    "packets_dropped (metrics t) = packets_dropped (metrics s)"
    "mesh_forwarded_out (metrics t) = mesh_forwarded_out (metrics s)"
  using assms by (auto simp: balance_def elim!: only_queuesE)

lemma only_queues_dom: "only_queues s t \<Longrightarrow> dom (chans s) \<subseteq> dom (chans t)"
  by (auto elim!: only_queuesE)

lemma only_queues_fieldI:
  assumes "heap t = heap s" "peers t = peers s" "active_ix t = active_ix s"
    "reverse_paths t = reverse_paths s" "watchers t = watchers s" "mesh_routes t = mesh_routes s"
    "next_id t = next_id s" "mesh_key t = mesh_key s" "queue_depth t = queue_depth s"
    "metrics t = metrics s" "dom (chans s) \<subseteq> dom (chans t)"
  shows "only_queues s t"
proof -
  have "t = s\<lparr>chans := chans t\<rparr>" using assms by (intro Relay.equality) simp_all
  with assms(11) show ?thesis by (metis only_queues_chans)
qed

lemma only_queues_heap_cong: "only_queues s t \<Longrightarrow> only_queues (s\<lparr>heap := H\<rparr>) (t\<lparr>heap := H\<rparr>)"
proof (elim only_queuesE)
  fix ch q assume d: "dom (chans s) \<subseteq> dom ch" and t: "t = s\<lparr>chans := ch, metrics := (metrics s)\<lparr>queue_dropped := q\<rparr>\<rparr>"
  have "t\<lparr>heap := H\<rparr> = (s\<lparr>heap := H\<rparr>)\<lparr>chans := ch, metrics := (metrics (s\<lparr>heap := H\<rparr>))\<lparr>queue_dropped := q\<rparr>\<rparr>"
    by (simp add: t)
  moreover have "dom (chans (s\<lparr>heap := H\<rparr>)) \<subseteq> dom ch" using d by simp
  ultimately show ?thesis by (metis only_queuesI)
qed

lemma only_queues_chan_send: "only_queues s (fst (chan_send C ch f s))"
  by (auto simp: chan_send_def split: option.splits intro!: only_queues_chans)

lemma only_queues_send: "only_queues s (fst (send C i f s))"
proof (cases "heap s i")
  case (Some h)
  obtain t ok where t: "chan_send C (sh_tx h) f s = (t, ok)" by (cases "chan_send C (sh_tx h) f s")
  have "only_queues s t" using only_queues_chan_send [of s C "sh_tx h" f] by (simp add: t)
  then show ?thesis
    by (cases ok) (auto simp: send_def Some t elim!: only_queuesE intro!: only_queuesI)
qed (simp add: send_def)

lemma only_queues_fold:
  "(\<And>x s. only_queues s (g x s)) \<Longrightarrow> only_queues s (fold g xs s)"
  by (induction xs arbitrary: s) (auto intro: only_queues_trans)

lemma only_queues_broadcast: "only_queues s (broadcast_presence C i b s)"
  by (auto simp: broadcast_presence_def Let_def intro!: only_queues_fold only_queues_send
      split: option.splits)

text \<open>A loop that sets a flag of every handle and notifies it.\<close>

lemma mark_and_send:
  assumes "\<And>h. g (g h) = g h"
  shows "only_queues (s\<lparr>heap := (\<lambda>j. if j \<in> set js then map_option g (heap s j) else heap s j)\<rparr>)
           (fold (\<lambda>i s. fst (send C i f (upd_handle i g s))) js s)"
proof (induction js arbitrary: s)
  case (Cons i js)
  let ?t = "fst (send C i f (upd_handle i g s))"
  have t: "only_queues (upd_handle i g s) ?t" by (rule only_queues_send)
  then have "only_queues
      ((upd_handle i g s)\<lparr>heap := (\<lambda>j. if j \<in> set js then map_option g (heap ?t j) else heap ?t j)\<rparr>)
      (?t\<lparr>heap := (\<lambda>j. if j \<in> set js then map_option g (heap ?t j) else heap ?t j)\<rparr>)"
    by (rule only_queues_heap_cong)
  also have "only_queues \<dots> (fold (\<lambda>i s. fst (send C i f (upd_handle i g s))) js ?t)"
    by (rule Cons.IH)
  also have "(upd_handle i g s)\<lparr>heap := (\<lambda>j. if j \<in> set js then map_option g (heap ?t j) else heap ?t j)\<rparr>
      = s\<lparr>heap := (\<lambda>j. if j \<in> set (i # js) then map_option g (heap s j) else heap s j)\<rparr>"
    using only_queues_fields(1) [OF t] assms
    by (auto simp: upd_handle_def fun_eq_iff option.map_comp comp_def)
  finally show ?case by simp
qed simp

subsection \<open>The invariant\<close>

definition pset_ok :: "'ch Relay \<Rightarrow> NodeKey \<Rightarrow> PeerSet \<Rightarrow> bool" where
  "pset_ok s k ps \<longleftrightarrow> sessions ps \<noteq> [] \<and> distinct (sessions ps) \<and>
     (\<forall>i\<in>set (sessions ps). \<exists>h. heap s i = Some h \<and> sh_id h = i \<and> sh_key h = k \<and>
        sh_tx h = SessionChan i \<and> duplicate h = (1 < length (sessions ps)))"

definition peers_inv :: "'ch Relay \<Rightarrow> bool" where
  "peers_inv s \<longleftrightarrow> distinct (map fst (peers s)) \<and>
     (\<forall>k ps. map_of (peers s) k = Some ps \<longrightarrow> pset_ok s k ps)"

text \<open>The hot-path index holds exactly what a locked lookup in the session sets would return.\<close>

definition index_inv :: "'ch Relay \<Rightarrow> bool" where
  "index_inv s \<longleftrightarrow> (\<forall>k. active_ix s k = Option.bind (map_of (peers s) k) PeerSet_active)"

definition ids_inv :: "'ch Relay \<Rightarrow> bool" where
  "ids_inv s \<longleftrightarrow> (\<forall>i h. heap s i = Some h \<longrightarrow> i < next_id s \<and> sh_tx h = SessionChan i)"

definition live_set :: "'ch Relay \<Rightarrow> SessionId set" where
  "live_set s = (\<Union>(k, ps) \<in> set (peers s). set (sessions ps))"

definition watch_inv :: "'ch Relay \<Rightarrow> bool" where
  "watch_inv s \<longleftrightarrow> distinct (watchers s) \<and>
     (\<forall>w\<in>set (watchers s). w \<in> live_set s \<and> (\<exists>h. heap s w = Some h \<and> can_mesh h))"

definition preferred_set :: "'ch Relay \<Rightarrow> SessionId set" where
  "preferred_set s = {i \<in> live_set s. \<exists>h. heap s i = Some h \<and> preferred h}"

definition gauge_inv :: "'ch Relay \<Rightarrow> bool" where
  "gauge_inv s \<longleftrightarrow>
     current_clients (metrics s) = of_nat (client_count s) \<and>
     preferred_clients (metrics s) = of_nat (card (preferred_set s))"

definition relay_inv :: "'ch Relay \<Rightarrow> bool" where
  "relay_inv s \<longleftrightarrow> peers_inv s \<and> index_inv s \<and> ids_inv s \<and> watch_inv s \<and> gauge_inv s"

lemmas relay_inv_defs = relay_inv_def peers_inv_def index_inv_def ids_inv_def watch_inv_def gauge_inv_def

lemma live_set_lookup:
  "distinct (map fst (peers s)) \<Longrightarrow>
     i \<in> live_set s \<longleftrightarrow> (\<exists>k ps. map_of (peers s) k = Some ps \<and> i \<in> set (sessions ps))"
  by (fastforce simp: live_set_def)

lemma finite_live_set [simp]: "finite (live_set s)"
  by (auto simp: live_set_def)

lemma live_handle:
  assumes "peers_inv s" "i \<in> live_set s"
  obtains h ps where "heap s i = Some h" "sh_id h = i" "map_of (peers s) (sh_key h) = Some ps"
    "i \<in> set (sessions ps)" "pset_ok s (sh_key h) ps"
proof -
  from assms obtain k ps where "map_of (peers s) k = Some ps" "i \<in> set (sessions ps)" "pset_ok s k ps"
    by (auto simp: peers_inv_def live_set_lookup)
  moreover from this obtain h where "heap s i = Some h" "sh_id h = i" "sh_key h = k"
    by (auto simp: pset_ok_def)
  ultimately show thesis by (intro that) auto
qed

text \<open>Sessions of different keys are different, so the session sets count every session once.\<close>

lemma card_sessions:
  assumes "distinct (map fst xs)"
    and "\<forall>(k, ps)\<in>set xs. distinct (sessions ps) \<and> (\<forall>i\<in>set (sessions ps). own i = k)"
  shows "card (\<Union>(k, ps)\<in>set xs. set (sessions ps)) = sum_list (map (\<lambda>(k, ps). length (sessions ps)) xs)"
  using assms
proof (induction xs)
  case (Cons x xs)
  obtain k ps where x: "x = (k, ps)" by (cases x)
  have "card (set (sessions ps) \<union> (\<Union>(k, ps)\<in>set xs. set (sessions ps)))
      = card (set (sessions ps)) + card (\<Union>(k, ps)\<in>set xs. set (sessions ps))"
    using Cons.prems by (intro card_Un_disjoint) (force simp: x)+
  with Cons show ?case by (simp add: x distinct_card)
qed simp

lemma client_count_card: "peers_inv s \<Longrightarrow> client_count s = card (live_set s)"
  unfolding client_count_def live_set_def
  by (rule card_sessions [symmetric, where own = "\<lambda>i. sh_key (the (heap s i))"])
    (force simp: peers_inv_def pset_ok_def)+

lemma relay_inv_only_queues: "only_queues s t \<Longrightarrow> relay_inv s \<Longrightarrow> relay_inv t"
  by (simp add: relay_inv_defs pset_ok_def live_set_def preferred_set_def client_count_def relay_frame)

lemma live_only_queues [relay_frame]: "only_queues s t \<Longrightarrow> live_set t = live_set s"
  by (simp add: live_set_def relay_frame)

subsection \<open>Registration\<close>

definition new_handle ::
    "SessionId \<Rightarrow> nat \<Rightarrow> NodeKey \<Rightarrow> SocketAddr \<Rightarrow> bool \<Rightarrow> bool \<Rightarrow> bool \<Rightarrow> bool \<Rightarrow> SessionHandle" where
  "new_handle i now key ep mesh ack prober nideal =
     \<lparr>sh_id = i, sh_key = key, endpoint = ep, can_mesh = mesh, can_ack_pings = ack,
      is_prober = prober, not_ideal = nideal, sh_tx = SessionChan i, sh_closed = False,
      duplicate = False, preferred = False, preferred_seen = False, seen_sources = {},
      peer_gone_limiter = PeerGoneLimiter_new now\<rparr>"

definition joined :: "NodeKey \<Rightarrow> 'ch Relay \<Rightarrow> SessionId list" where
  "joined key s = (case map_of (peers s) key of Some ps \<Rightarrow> sessions ps | None \<Rightarrow> []) @ [next_id s]"

definition mark_dup :: "SessionId list \<Rightarrow> (SessionId \<rightharpoonup> SessionHandle) \<Rightarrow> SessionId \<rightharpoonup> SessionHandle" where
  "mark_dup js H = (\<lambda>j. if 1 < length js \<and> j \<in> set js
                         then map_option (\<lambda>h. h\<lparr>duplicate := True\<rparr>) (H j) else H j)"

text \<open>The state after \<open>register\<close>, up to the frames it queued.\<close>

definition registered :: "NodeKey \<Rightarrow> SessionHandle \<Rightarrow> 'ch Relay \<Rightarrow> 'ch Relay" where
  "registered key h s =
     s\<lparr>next_id := next_id s + 1,
       heap := mark_dup (joined key s) ((heap s)(next_id s \<mapsto> h)),
       peers := AList.update key \<lparr>sessions = joined key s, ps_active = next_id s\<rparr> (peers s),
       active_ix := (active_ix s)(key \<mapsto> next_id s),
       metrics := (metrics s)\<lparr>current_clients := inc (current_clients (metrics s)) 1\<rparr>\<rparr>"

lemma only_queues_upd_current:
  "only_queues s t \<Longrightarrow>
     only_queues (upd_metrics (\<lambda>m. m\<lparr>current_clients := g (current_clients m)\<rparr>) s)
                 (upd_metrics (\<lambda>m. m\<lparr>current_clients := g (current_clients m)\<rparr>) t)"
proof (elim only_queuesE)
  fix ch q assume d: "dom (chans s) \<subseteq> dom ch" and t: "t = s\<lparr>chans := ch, metrics := (metrics s)\<lparr>queue_dropped := q\<rparr>\<rparr>"
  let ?u = "upd_metrics (\<lambda>m. m\<lparr>current_clients := g (current_clients m)\<rparr>)"
  have "?u t = (?u s)\<lparr>chans := ch, metrics := (metrics (?u s))\<lparr>queue_dropped := q\<rparr>\<rparr>"
    by (simp add: t)
  moreover have "dom (chans (?u s)) \<subseteq> dom ch" using d by simp
  ultimately show "only_queues (?u s) (?u t)" by (metis only_queuesI)
qed

lemma PeerSet_upd_both [simp]:
  "(ps :: PeerSet)\<lparr>sessions := xs, ps_active := i\<rparr> = \<lparr>sessions = xs, ps_active = i\<rparr>"
  by (cases ps) simp

lemma register_id: "fst (register C now key ep mesh ack prober nideal s) = next_id s"
  by (simp add: register_def Let_def)

lemma register_registered:
  "only_queues (registered key (new_handle (next_id s) now key ep mesh ack prober nideal) s)
     (snd (register C now key ep mesh ack prober nideal s))"
proof -
  define h where "h = new_handle (next_id s) now key ep mesh ack prober nideal"
  define s1 where "s1 = s\<lparr>next_id := next_id s + 1,
    chans := (chans s)(SessionChan (next_id s) \<mapsto> channel C (queue_depth s)),
    heap := (heap s)(next_id s \<mapsto> h),
    peers := AList.update key \<lparr>sessions = joined key s, ps_active = next_id s\<rparr> (peers s),
    active_ix := (active_ix s)(key \<mapsto> next_id s)\<rparr>"
  define s2 where "s2 = (if 1 < length (joined key s)
      then fold (\<lambda>i s. fst (send C i (Health DUPLICATE_HEALTH)
                 (upd_handle i (\<lambda>h. h\<lparr>duplicate := True\<rparr>) s))) (joined key s) s1 else s1)"
  have reg: "snd (register C now key ep mesh ack prober nideal s) =
      broadcast_presence C (next_id s) True
        (upd_metrics (\<lambda>m. m\<lparr>current_clients := inc (current_clients m) 1\<rparr>) s2)"
    by (cases "map_of (peers s) key")
      (simp_all add: register_def Let_def s2_def s1_def h_def joined_def new_handle_def)
  have "only_queues (s1\<lparr>heap := mark_dup (joined key s) (heap s1)\<rparr>) s2"
    using mark_and_send [where g = "\<lambda>h. h\<lparr>duplicate := True\<rparr>" and s = s1 and js = "joined key s"]
    by (auto simp: s2_def mark_dup_def)
  moreover have "only_queues (s\<lparr>next_id := next_id s1, heap := mark_dup (joined key s) (heap s1),
      peers := peers s1, active_ix := active_ix s1\<rparr>) (s1\<lparr>heap := mark_dup (joined key s) (heap s1)\<rparr>)"
    by (rule only_queues_fieldI) (auto simp: s1_def)
  ultimately have "only_queues (s\<lparr>next_id := next_id s1, heap := mark_dup (joined key s) (heap s1),
      peers := peers s1, active_ix := active_ix s1\<rparr>) s2"
    using only_queues_trans by blast
  from only_queues_upd_current [OF this, of "\<lambda>v. inc v 1"]
  have "only_queues (registered key h s)
     (upd_metrics (\<lambda>m. m\<lparr>current_clients := inc (current_clients m) 1\<rparr>) s2)"
    by (simp add: registered_def s1_def)
  then show ?thesis
    unfolding reg h_def [symmetric] using only_queues_broadcast only_queues_trans by blast
qed

text \<open>The counter of session ids has not wrapped.\<close>

abbreviation ids_left :: "'ch Relay \<Rightarrow> bool" where
  "ids_left s \<equiv> next_id s < next_id s + 1"

lemma find_last [simp]: "find (\<lambda>i. i = x) (xs @ [x]) = Some x"
  by (induction xs) auto

lemma PeerSet_active_in: "PeerSet_active ps = Some i \<Longrightarrow> i \<in> set (sessions ps)"
  by (auto simp: PeerSet_active_def find_Some_iff split: option.splits if_splits) (metis nth_mem)

lemma PeerSet_active_None [simp]: "PeerSet_active ps = None \<longleftrightarrow> sessions ps = []"
  by (auto simp: PeerSet_active_def split: option.splits)

lemma not_live_next: "peers_inv s \<Longrightarrow> ids_inv s \<Longrightarrow> next_id s \<notin> live_set s"
  by (auto elim!: live_handle simp: ids_inv_def)

lemma fresh_id: "ids_inv s \<Longrightarrow> heap s (next_id s) = None"
  by (metis ids_inv_def not_Some_eq order_less_irrefl)

lemma registered_simps [simp]:
  "peers (registered key h s) =
     AList.update key \<lparr>sessions = joined key s, ps_active = next_id s\<rparr> (peers s)"
  "heap (registered key h s) = mark_dup (joined key s) ((heap s)(next_id s \<mapsto> h))"
  "active_ix (registered key h s) = (active_ix s)(key \<mapsto> next_id s)"
  "next_id (registered key h s) = next_id s + 1"
  "watchers (registered key h s) = watchers s"
  "mesh_routes (registered key h s) = mesh_routes s"
  "reverse_paths (registered key h s) = reverse_paths s"
  by (simp_all add: registered_def)

lemma registered_peers_inv:
  assumes inv: "peers_inv s" "ids_inv s"
    and h: "sh_id h = next_id s" "sh_key h = key" "sh_tx h = SessionChan (next_id s)" "\<not> duplicate h"
  shows "peers_inv (registered key h s)"
proof -
  have d: "distinct (map fst (peers s))" using inv by (simp add: peers_inv_def)
  have old: "map_of (peers s) k = Some ps \<Longrightarrow> pset_ok s k ps" for k ps
    using inv by (simp add: peers_inv_def)
  have fresh: "heap s (next_id s) = None" using inv(2) by (rule fresh_id)
  have "pset_ok (registered key h s) k ps"
    if k: "map_of (AList.update key \<lparr>sessions = joined key s, ps_active = next_id s\<rparr> (peers s)) k = Some ps"
    for k ps
  proof (cases "k = key")
    case True
    with k have ps: "ps = \<lparr>sessions = joined key s, ps_active = next_id s\<rparr>" by (simp add: update_conv')
    show ?thesis
    proof (cases "map_of (peers s) key")
      case None
      with True ps h show ?thesis by (auto simp: pset_ok_def joined_def mark_dup_def)
    next
      case (Some ps')
      from old [OF Some] fresh True ps h Some show ?thesis
        by (fastforce simp: pset_ok_def joined_def mark_dup_def)
    qed
  next
    case False
    with k have kp: "map_of (peers s) k = Some ps" by (simp add: update_conv')
    have "j \<notin> set (joined key s) \<and> j \<noteq> next_id s" if "j \<in> set (sessions ps)" for j
      using old [OF kp] that fresh False old
      by (auto simp: joined_def pset_ok_def split: option.splits) (metis option.sel)+
    with old [OF kp] show ?thesis by (auto simp: pset_ok_def mark_dup_def)
  qed
  with d show ?thesis by (simp add: peers_inv_def distinct_update)
qed

lemma registered_live:
  assumes "peers_inv s"
  shows "live_set (registered key h s) = insert (next_id s) (live_set s)"
proof -
  have d: "distinct (map fst (peers s))" "distinct (map fst (peers (registered key h s)))"
    using assms by (simp_all add: peers_inv_def distinct_update)
  show ?thesis
    by (auto simp: live_set_lookup [OF d(1)] live_set_lookup [OF d(2)] update_conv' joined_def
        split: option.splits if_splits) (metis option.inject)+
qed

lemma mark_dup_Some:
  "mark_dup js H j = Some h \<Longrightarrow> \<exists>h0 b. H j = Some h0 \<and> h = h0\<lparr>duplicate := b\<rparr>"
  by (auto simp: mark_dup_def split: if_splits intro: exI [of _ "duplicate h"])

lemma mark_dup_keeps:
  "H j = Some h0 \<Longrightarrow> \<exists>b. mark_dup js H j = Some (h0\<lparr>duplicate := b\<rparr>)"
  by (auto simp: mark_dup_def intro: exI [of _ "duplicate h0"])

lemma registered_index_inv:
  assumes "index_inv s"
  shows "index_inv (registered key h s)"
  using assms by (simp add: index_inv_def update_conv' PeerSet_active_def joined_def)

lemma registered_ids_inv:
  assumes "ids_inv s" "ids_left s" "sh_tx h = SessionChan (next_id s)"
  shows "ids_inv (registered key h s)"
  unfolding ids_inv_def
proof (intro allI impI)
  fix i h' assume "heap (registered key h s) i = Some h'"
  then obtain h0 b where "((heap s)(next_id s \<mapsto> h)) i = Some h0" "h' = h0\<lparr>duplicate := b\<rparr>"
    by (auto dest: mark_dup_Some)
  with assms show "i < next_id (registered key h s) \<and> sh_tx h' = SessionChan i"
    by (auto simp: ids_inv_def intro: less_trans split: if_splits)
qed

lemma registered_watch_inv:
  assumes "peers_inv s" "ids_inv s" "watch_inv s"
  shows "watch_inv (registered key h s)"
  unfolding watch_inv_def
proof (intro conjI ballI)
  show "distinct (watchers (registered key h s))" using assms by (simp add: watch_inv_def)
next
  fix w assume "w \<in> set (watchers (registered key h s))"
  with assms(3) obtain h0 where w: "w \<in> live_set s" "heap s w = Some h0" "can_mesh h0"
    by (auto simp: watch_inv_def)
  with not_live_next [OF assms(1,2)] have "((heap s)(next_id s \<mapsto> h)) w = Some h0" by auto
  from mark_dup_keeps [where H = "(heap s)(next_id s \<mapsto> h)", OF this] w(3) show "\<exists>h'. heap (registered key h s) w = Some h' \<and> can_mesh h'"
    by fastforce
  show "w \<in> live_set (registered key h s)" using w(1) by (simp add: registered_live [OF assms(1)])
qed

lemma registered_preferred:
  assumes "peers_inv s" "ids_inv s" "\<not> preferred h"
  shows "preferred_set (registered key h s) = preferred_set s"
proof -
  define P where "P t i \<longleftrightarrow> (\<exists>h'. heap t i = Some h' \<and> preferred h')" for t :: "'a Relay" and i
  have "P (registered key h s) i = P s i" if "i \<noteq> next_id s" for i
    using that by (auto simp: mark_dup_def P_def)
  moreover have "\<not> P (registered key h s) (next_id s)"
    using assms(3) by (auto simp: P_def dest!: mark_dup_Some)
  ultimately show ?thesis
    using not_live_next [OF assms(1,2)]
    unfolding preferred_set_def registered_live [OF assms(1)] P_def [symmetric] by auto metis+
qed

lemma registered_gauge_inv:
  assumes "peers_inv s" "ids_inv s" "gauge_inv s" "peers_inv (registered key h s)" "\<not> preferred h"
  shows "gauge_inv (registered key h s)"
  using assms not_live_next [OF assms(1,2)]
  by (simp add: gauge_inv_def client_count_card registered_live registered_preferred)
    (simp add: registered_def inc_def)

lemma registered_inv:
  assumes "relay_inv s" "ids_left s"
    and "h = new_handle (next_id s) now key ep mesh ack prober nideal"
  shows "relay_inv (registered key h s)"
  using assms registered_peers_inv [of s h key] registered_index_inv [of s key h]
    registered_ids_inv [of s h key] registered_watch_inv [of s key h] registered_gauge_inv [of s key h]
  by (simp add: relay_inv_def new_handle_def)

lemma register_inv:
  "relay_inv s \<Longrightarrow> ids_left s \<Longrightarrow> relay_inv (snd (register C now key ep mesh ack prober nideal s))"
  using relay_inv_only_queues register_registered registered_inv by blast

end
