(* ===== verification/Derp_Relay_Ops.thy ===== *)
theory Derp_Relay_Ops
  imports Derp_Relay_Inv
begin

text \<open>
  Preservation of the relay's invariant by the operations other than registration, and the
  transition system of the relay with its reachable states.
\<close>

subsection \<open>Departure\<close>

text \<open>What a state owes its invariant to when session \<open>i\<close> with handle \<open>h\<close> has left.\<close>

definition departed :: "SessionId \<Rightarrow> SessionHandle \<Rightarrow> SessionId list \<Rightarrow> 'ch Relay \<Rightarrow> 'ch Relay \<Rightarrow> bool" where
  "departed i h xs s t \<longleftrightarrow>
     distinct (map fst (peers t)) \<and>
     map_of (peers t) = (map_of (peers s))(sh_key h :=
        if xs = [] then None else Some \<lparr>sessions = xs, ps_active = last xs\<rparr>) \<and>
     active_ix t = (active_ix s)(sh_key h := if xs = [] then None else Some (last xs)) \<and>
     heap t = (\<lambda>j. if j = i then Some (h\<lparr>sh_closed := True, preferred := False\<rparr>)
                   else if xs = [j] then map_option (\<lambda>h. h\<lparr>duplicate := False\<rparr>) (heap s j)
                   else heap s j) \<and>
     watchers t = removeAll i (watchers s) \<and>
     next_id t = next_id s \<and>
     current_clients (metrics t) = dec (current_clients (metrics s)) \<and>
     preferred_clients (metrics t) =
       (if preferred h then dec (preferred_clients (metrics s)) else preferred_clients (metrics s))"

lemma PeerSet_active_last:
  "xs \<noteq> [] \<Longrightarrow> PeerSet_active \<lparr>sessions = xs, ps_active = last xs\<rparr> = Some (last xs)"
  by (cases xs rule: rev_cases) (simp_all add: PeerSet_active_def)

lemma departed_peers_inv:
  assumes inv: "peers_inv s" and h: "heap s i = Some h" "map_of (peers s) (sh_key h) = Some ps"
    "i \<in> set (sessions ps)" and xs: "xs = filter (\<lambda>j. j \<noteq> i) (sessions ps)"
    and dep: "departed i h xs s t"
  shows "peers_inv t"
proof -
  have old: "map_of (peers s) k = Some ps' \<Longrightarrow> pset_ok s k ps'" for k ps'
    using inv by (simp add: peers_inv_def)
  have own: "pset_ok t (sh_key h) \<lparr>sessions = xs, ps_active = last xs\<rparr>" if "xs \<noteq> []"
  proof -
    have l: "length (sessions ps) = Suc (length xs)"
      using old [OF h(2)] h(3) length_filter_remove [of "sessions ps" i]
      by (simp add: pset_ok_def xs)
    have "\<exists>h'. heap t j = Some h' \<and> sh_id h' = j \<and> sh_key h' = sh_key h \<and>
        sh_tx h' = SessionChan j \<and> duplicate h' = (1 < length xs)" if j: "j \<in> set xs" for j
    proof -
      from j have jm: "j \<in> set (sessions ps)" "j \<noteq> i" by (auto simp: xs)
      have "1 < length (sessions ps)" using l \<open>xs \<noteq> []\<close> by (cases xs) auto
      then obtain hj where "heap s j = Some hj" "sh_id hj = j" "sh_key hj = sh_key h"
        "sh_tx hj = SessionChan j" "duplicate hj"
        using old [OF h(2)] jm(1) unfolding pset_ok_def by blast
      moreover note jm(2)
      moreover have "1 < length xs \<longleftrightarrow> xs \<noteq> [j]" using j by (cases xs; cases "tl xs") auto
      ultimately show ?thesis using dep j by (cases "xs = [j]") (auto simp: departed_def neq_Nil_conv)
    qed
    with old [OF h(2)] that show ?thesis by (auto simp: pset_ok_def xs)
  qed
  have "pset_ok t k ps'" if k: "map_of (peers t) k = Some ps'" for k ps'
  proof (cases "k = sh_key h")
    case True
    with k dep own show ?thesis by (auto simp: departed_def split: if_splits)
  next
    case False
    with k dep have kp: "map_of (peers s) k = Some ps'" by (simp add: departed_def)
    have "j \<noteq> i \<and> xs \<noteq> [j]" if jp: "j \<in> set (sessions ps')" for j
    proof -
      obtain hj where hj: "heap s j = Some hj" "sh_key hj = k"
        using old [OF kp] jp by (auto simp: pset_ok_def)
      moreover have "\<exists>h'. heap s j = Some h' \<and> sh_key h' = sh_key h" if "j \<in> set (sessions ps)"
        using old [OF h(2)] that by (auto simp: pset_ok_def)
      ultimately have "j \<notin> set (sessions ps)" using False by auto
      moreover have "set xs \<subseteq> set (sessions ps)" by (simp add: xs)
      ultimately show ?thesis using h(3) by auto
    qed
    with old [OF kp] dep show ?thesis by (auto simp: pset_ok_def departed_def)
  qed
  with dep show ?thesis by (simp add: peers_inv_def departed_def)
qed

definition sess_of :: "'ch Relay \<Rightarrow> NodeKey \<Rightarrow> SessionId set" where
  "sess_of s k = (case map_of (peers s) k of None \<Rightarrow> {} | Some ps \<Rightarrow> set (sessions ps))"

lemma sess_of_iff: "x \<in> sess_of s k \<longleftrightarrow> (\<exists>ps. map_of (peers s) k = Some ps \<and> x \<in> set (sessions ps))"
  by (cases "map_of (peers s) k") (auto simp: sess_of_def)

lemma live_set_UN: "distinct (map fst (peers s)) \<Longrightarrow> live_set s = (\<Union>k. sess_of s k)"
  unfolding set_eq_iff by (simp add: live_set_lookup sess_of_iff)

lemma departed_live:
  assumes inv: "peers_inv s" and h: "heap s i = Some h" "map_of (peers s) (sh_key h) = Some ps"
    "i \<in> set (sessions ps)" and xs: "xs = filter (\<lambda>j. j \<noteq> i) (sessions ps)"
    and dep: "departed i h xs s t"
  shows "live_set t = live_set s - {i}"
proof -
  have d: "distinct (map fst (peers s))" "distinct (map fst (peers t))"
    using inv dep by (simp_all add: peers_inv_def departed_def)
  have "i \<notin> sess_of s k" if "k \<noteq> sh_key h" for k
    using inv that h(1) by (force simp: peers_inv_def pset_ok_def sess_of_def split: option.splits)
  then have "sess_of t k = sess_of s k - {i}" for k
    using dep h(2) xs by (cases "k = sh_key h") (auto simp: sess_of_def departed_def filter_empty_conv)
  then show ?thesis by (auto simp: live_set_UN [OF d(1)] live_set_UN [OF d(2)])
qed

lemma departed_inv:
  assumes inv: "relay_inv s" and h: "heap s i = Some h" "map_of (peers s) (sh_key h) = Some ps"
    "i \<in> set (sessions ps)" and xs: "xs = filter (\<lambda>j. j \<noteq> i) (sessions ps)"
    and dep: "departed i h xs s t"
  shows "relay_inv t"
proof -
  have pi: "peers_inv s" using inv by (simp add: relay_inv_def)
  note live = departed_live [OF pi h xs dep]
  have i: "i \<in> live_set s"
    using h(2,3) pi by (auto simp: peers_inv_def live_set_lookup)
  have "peers_inv t" by (rule departed_peers_inv [OF pi h xs dep])
  moreover have "index_inv t"
    using inv dep by (auto simp: relay_inv_def index_inv_def departed_def PeerSet_active_last)
  moreover have "ids_inv t"
    using inv dep h(1) by (auto simp: relay_inv_def ids_inv_def departed_def split: if_splits)
  moreover have "watch_inv t"
    unfolding watch_inv_def
  proof (intro conjI ballI)
    show "distinct (watchers t)"
      using inv dep by (simp add: relay_inv_def watch_inv_def departed_def distinct_removeAll)
  next
    fix w assume w: "w \<in> set (watchers t)"
    then have "w \<in> set (watchers s)" "w \<noteq> i" using dep by (auto simp: departed_def)
    with inv dep live show "w \<in> live_set t" "\<exists>h. heap t w = Some h \<and> can_mesh h"
      by (fastforce simp: relay_inv_def watch_inv_def departed_def)+
  qed
  moreover have "gauge_inv t"
  proof -
    have cl: "card (live_set s) = Suc (card (live_set t))"
      using i card.remove [of "live_set s" i] by (simp add: live)
    have pt: "preferred_set t = preferred_set s - {i}"
      using dep by (auto simp: preferred_set_def live departed_def split: if_splits)
    moreover have "i \<in> preferred_set s \<longleftrightarrow> preferred h" using h(1) i by (simp add: preferred_set_def)
    moreover have "finite (preferred_set s)" by (simp add: preferred_set_def)
    ultimately have "card (preferred_set s) = (if preferred h then Suc (card (preferred_set t)) else card (preferred_set t))"
      using card.remove [of "preferred_set s" i] by simp
    moreover have "current_clients (metrics s) = of_nat (card (live_set s))"
      "preferred_clients (metrics s) = of_nat (card (preferred_set s))"
      using inv pi by (simp_all add: relay_inv_def gauge_inv_def client_count_card)
    moreover have "current_clients (metrics t) = current_clients (metrics s) - 1"
      "preferred_clients (metrics t) = preferred_clients (metrics s) - (if preferred h then 1 else 0)"
      using dep by (simp_all add: departed_def dec_def)
    moreover have "client_count t = card (live_set t)" using \<open>peers_inv t\<close> by (rule client_count_card)
    ultimately show ?thesis using cl by (cases "preferred h") (simp_all add: gauge_inv_def)
  qed
  ultimately show ?thesis by (simp add: relay_inv_def)
qed

subsection \<open>Unregistration\<close>

lemma unregister_begin_last:
  assumes "heap s i = Some h" "map_of (peers s) (sh_key h) = Some ps"
    and "filter (\<lambda>j. j \<noteq> i) (sessions ps) = []"
  shows "unregister_begin C i s =
    (s\<lparr>watchers := removeAll i (watchers s),
       heap := (heap s)(i \<mapsto> h\<lparr>sh_closed := True, preferred := False\<rparr>),
       metrics := (if preferred h then (metrics s)\<lparr>preferred_clients := dec (preferred_clients (metrics s))\<rparr>
                   else metrics s),
       peers := AList.update (sh_key h) (ps\<lparr>sessions := []\<rparr>) (peers s)\<rparr>, True)"
  using assms by (simp add: unregister_begin_def close_def upd_handle_def Let_def)

lemma unregister_begin_stay:
  assumes "heap s i = Some h" "map_of (peers s) (sh_key h) = Some ps"
    and xs: "xs = filter (\<lambda>j. j \<noteq> i) (sessions ps)" "xs \<noteq> []" and "distinct (sessions ps)"
  shows "only_queues
    (s\<lparr>watchers := removeAll i (watchers s),
       heap := (\<lambda>j. if j = i then Some (h\<lparr>sh_closed := True, preferred := False\<rparr>)
                    else if xs = [j] then map_option (\<lambda>h. h\<lparr>duplicate := False\<rparr>) (heap s j)
                    else heap s j),
       metrics := (if preferred h then (metrics s)\<lparr>preferred_clients := dec (preferred_clients (metrics s))\<rparr>
                   else metrics s),
       peers := AList.update (sh_key h) \<lparr>sessions = xs, ps_active = last xs\<rparr> (peers s),
       active_ix := (active_ix s)(sh_key h \<mapsto> last xs)\<rparr>)
    (fst (unregister_begin C i s))" (is "only_queues ?a _") and "\<not> snd (unregister_begin C i s)"
proof -
  define s1 where "s1 = s\<lparr>watchers := removeAll i (watchers s),
       heap := (heap s)(i \<mapsto> h\<lparr>sh_closed := True, preferred := False\<rparr>),
       metrics := (if preferred h then (metrics s)\<lparr>preferred_clients := dec (preferred_clients (metrics s))\<rparr>
                   else metrics s),
       peers := AList.update (sh_key h) \<lparr>sessions = xs, ps_active = last xs\<rparr> (peers s),
       active_ix := (active_ix s)(sh_key h \<mapsto> last xs)\<rparr>"
  have eq: "unregister_begin C i s = ((if length xs = 1 then fst (send C (hd xs) (Health [])
      (upd_handle (hd xs) (\<lambda>h. h\<lparr>duplicate := False\<rparr>) s1)) else s1), False)"
    using assms by (simp add: unregister_begin_def close_def upd_handle_def Let_def s1_def)
  have ni: "i \<notin> set xs" by (simp add: xs)
  show "\<not> snd (unregister_begin C i s)" by (simp add: eq)
  show "only_queues ?a (fst (unregister_begin C i s))"
  proof (cases "length xs = 1")
    case True
    then obtain j where j: "xs = [j]" by (auto simp: length_Suc_conv)
    then have "?a = upd_handle j (\<lambda>h. h\<lparr>duplicate := False\<rparr>) s1"
      using ni by (auto simp: upd_handle_def s1_def intro!: Relay.equality)
    with True j show ?thesis by (simp add: eq only_queues_send)
  next
    case False
    then have "?a = s1" by (auto simp: s1_def fun_eq_iff intro!: Relay.equality)
    with False show ?thesis by (simp add: eq)
  qed
qed

lemma unregister_finish_stay:
  "heap s i = Some h \<Longrightarrow>
   unregister_finish C i False s = upd_metrics (\<lambda>m. m\<lparr>current_clients := dec (current_clients m)\<rparr>) s"
  by (simp add: unregister_finish_def Let_def)

lemma unregister_finish_gone:
  assumes "heap s i = Some h" and t: "t = unregister_finish C i True s"
  shows "heap t = heap s" "peers t = AList.delete (sh_key h) (peers s)"
    "active_ix t = (active_ix s)(sh_key h := None)" "watchers t = watchers s" "next_id t = next_id s"
    "mesh_routes t = mesh_routes s"
    "reverse_paths t = (\<lambda>k. if k = sh_key h then None else map_option (removeAll (sh_key h)) (reverse_paths s k))"
    "current_clients (metrics t) = dec (current_clients (metrics s))"
    "preferred_clients (metrics t) = preferred_clients (metrics s)"
    "mesh_key t = mesh_key s" "queue_depth t = queue_depth s" "balance (metrics t) = balance (metrics s)"
    "dom (chans s) \<subseteq> dom (chans t)"
proof -
  let ?k = "sh_key h"
  define s1 where "s1 = s\<lparr>peers := AList.delete ?k (peers s), active_ix := (active_ix s)(?k := None)\<rparr>"
  define s2 where "s2 = broadcast_presence C i False s1"
  define s3 where "s3 = (case reverse_paths s2 ?k of None \<Rightarrow> s2
      | Some ws \<Rightarrow> fold (\<lambda>w s. case active w s of None \<Rightarrow> s
                    | Some dst \<Rightarrow> fst (send C dst (PeerGone ?k DISCONNECTED) s))
                  ws (s2\<lparr>reverse_paths := (reverse_paths s2)(?k := None)\<rparr>))"
  have q2: "only_queues s1 s2" by (simp add: s2_def only_queues_broadcast)
  have q3: "only_queues (s2\<lparr>reverse_paths := (reverse_paths s2)(?k := None)\<rparr>) s3"
  proof (cases "reverse_paths s2 ?k")
    case None
    then have "s2\<lparr>reverse_paths := (reverse_paths s2)(?k := None)\<rparr> = s2"
      by (simp add: fun_upd_idem)
    with None show ?thesis by (simp add: s3_def)
  next
    case (Some ws)
    then show ?thesis
      unfolding s3_def by (simp, intro only_queues_fold) (auto split: option.splits intro: only_queues_send)
  qed
  have t3: "t = upd_metrics (\<lambda>m. m\<lparr>current_clients := dec (current_clients m)\<rparr>)
      (s3\<lparr>reverse_paths := (\<lambda>k. map_option (removeAll ?k) (reverse_paths s3 k))\<rparr>)"
    unfolding t unregister_finish_def assms(1) option.case Let_def if_True s3_def s2_def s1_def
    by (simp cong: option.case_cong)
  note f = only_queues_fields [OF q2] only_queues_fields [OF q3]
  show "heap t = heap s" "peers t = AList.delete (sh_key h) (peers s)"
    "active_ix t = (active_ix s)(sh_key h := None)" "watchers t = watchers s" "next_id t = next_id s"
    "mesh_routes t = mesh_routes s"
    "reverse_paths t = (\<lambda>k. if k = sh_key h then None else map_option (removeAll (sh_key h)) (reverse_paths s k))"
    "current_clients (metrics t) = dec (current_clients (metrics s))"
    "preferred_clients (metrics t) = preferred_clients (metrics s)"
    "mesh_key t = mesh_key s" "queue_depth t = queue_depth s" "balance (metrics t) = balance (metrics s)"
    "dom (chans s) \<subseteq> dom (chans t)"
    using only_queues_dom [OF q2] only_queues_dom [OF q3]
    by (auto simp: t3 f s1_def fun_eq_iff balance_def)
qed

lemma unregister_departed:
  assumes "peers_inv s" "heap s i = Some h" "map_of (peers s) (sh_key h) = Some ps"
  shows "departed i h (filter (\<lambda>j. j \<noteq> i) (sessions ps)) s (unregister C i s)"
proof (cases "filter (\<lambda>j. j \<noteq> i) (sessions ps) = []")
  case True
  note b = unregister_begin_last [OF assms(2,3) True, of C]
  have d: "distinct (map fst (peers s))" using assms(1) by (simp add: peers_inv_def)
  obtain s1 where s1: "unregister_begin C i s = (s1, True)"
    "s1 = s\<lparr>watchers := removeAll i (watchers s),
       heap := (heap s)(i \<mapsto> h\<lparr>sh_closed := True, preferred := False\<rparr>),
       metrics := (if preferred h then (metrics s)\<lparr>preferred_clients := dec (preferred_clients (metrics s))\<rparr>
                   else metrics s),
       peers := AList.update (sh_key h) (ps\<lparr>sessions := []\<rparr>) (peers s)\<rparr>"
    using b by simp
  have h1: "heap s1 i = Some (h\<lparr>sh_closed := True, preferred := False\<rparr>)" by (simp add: s1(2))
  have u: "unregister C i s = unregister_finish C i True s1" by (simp add: unregister_def s1(1))
  note f = unregister_finish_gone [OF h1 u]
  show ?thesis
    unfolding departed_def True f
    using d by (simp add: s1(2) distinct_delete distinct_update delete_conv' update_conv' fun_eq_iff)
next
  case False
  have dp: "distinct (sessions ps)" using assms(1,3) by (auto simp: peers_inv_def pset_ok_def)
  have d: "distinct (map fst (peers s))" using assms(1) by (simp add: peers_inv_def)
  note b = unregister_begin_stay [OF assms(2,3) refl False dp, of C]
  obtain s1 where s1: "unregister_begin C i s = (s1, False)"
    using b(2) by (cases "unregister_begin C i s") auto
  note f = only_queues_fields [OF b(1), unfolded s1 fst_conv]
  have "heap s1 i = Some (h\<lparr>sh_closed := True, preferred := False\<rparr>)" by (simp add: f)
  then have u: "unregister C i s = upd_metrics (\<lambda>m. m\<lparr>current_clients := dec (current_clients m)\<rparr>) s1"
    by (simp add: unregister_def s1 unregister_finish_stay)
  show ?thesis
    unfolding departed_def u using d False by (simp add: f distinct_update update_conv' fun_eq_iff)
qed

lemma unregister_inv:
  assumes "relay_inv s" "i \<in> live_set s"
  shows "relay_inv (unregister C i s)"
proof -
  have pi: "peers_inv s" using assms(1) by (simp add: relay_inv_def)
  from live_handle [OF pi assms(2)] obtain h ps where h: "heap s i = Some h"
    "map_of (peers s) (sh_key h) = Some ps" "i \<in> set (sessions ps)" by metis
  show ?thesis
    by (rule departed_inv [OF assms(1) h refl unregister_departed [OF pi h(1,2)]])
qed

subsection \<open>Operations that keep the control state\<close>

text \<open>What the invariant reads of a handle, and the states that agree on everything it reads.\<close>

definition core :: "SessionHandle \<Rightarrow> SessionId \<times> NodeKey \<times> chan_id \<times> bool \<times> bool \<times> bool" where
  "core h = (sh_id h, sh_key h, sh_tx h, duplicate h, can_mesh h, preferred h)"

definition same_ctrl :: "'ch Relay \<Rightarrow> 'ch Relay \<Rightarrow> bool" where
  "same_ctrl s t \<longleftrightarrow>
     (\<forall>j. map_option core (heap t j) = map_option core (heap s j)) \<and> peers t = peers s \<and>
     active_ix t = active_ix s \<and> watchers t = watchers s \<and> next_id t = next_id s \<and>
     current_clients (metrics t) = current_clients (metrics s) \<and>
     preferred_clients (metrics t) = preferred_clients (metrics s)"

lemma same_ctrl_refl [simp, intro]: "same_ctrl s s"
  by (simp add: same_ctrl_def)

lemma same_ctrl_trans [trans]: "same_ctrl s t \<Longrightarrow> same_ctrl t u \<Longrightarrow> same_ctrl s u"
  by (simp add: same_ctrl_def)

lemma same_ctrl_only_queues: "only_queues s t \<Longrightarrow> same_ctrl s t"
  by (simp add: same_ctrl_def relay_frame)

lemma same_ctrl_fold: "(\<And>x s. same_ctrl s (g x s)) \<Longrightarrow> same_ctrl s (fold g xs s)"
  by (induction xs arbitrary: s) (auto intro: same_ctrl_trans)

lemma same_ctrl_upd_handle: "(\<And>h. core (g h) = core h) \<Longrightarrow> same_ctrl s (upd_handle i g s)"
  by (auto simp: same_ctrl_def upd_handle_def option.map_comp comp_def)

lemma same_ctrl_handle:
  assumes "same_ctrl s t" "heap s j = Some h"
  obtains h' where "heap t j = Some h'" "core h' = core h"
  using assms unfolding same_ctrl_def by (metis (no_types, lifting) map_option_eq_Some)

lemma same_ctrl_sym: "same_ctrl s t \<Longrightarrow> same_ctrl t s"
  by (simp add: same_ctrl_def)

lemma same_ctrl_live: "same_ctrl s t \<Longrightarrow> live_set t = live_set s"
  by (simp add: same_ctrl_def live_set_def)

lemma same_ctrl_ex:
  assumes "same_ctrl s t" "\<exists>h. heap s j = Some h \<and> P (core h)"
  shows "\<exists>h. heap t j = Some h \<and> P (core h)"
proof -
  from assms(2) obtain h where h: "heap s j = Some h" "P (core h)" by blast
  from same_ctrl_handle [OF assms(1) h(1)] obtain h' where "heap t j = Some h'" "core h' = core h" .
  with h(2) show ?thesis by auto
qed

lemma same_ctrl_pset: "same_ctrl s t \<Longrightarrow> pset_ok s k ps \<Longrightarrow> pset_ok t k ps"
  using same_ctrl_ex [where s = s and t = t and P = "\<lambda>(i, k', ch, d, m, p). i = j \<and> k' = k \<and> ch = SessionChan j \<and>
     d = (1 < length (sessions ps))" for j]
  by (simp add: pset_ok_def core_def)

lemma same_ctrl_mesh: "same_ctrl s t \<Longrightarrow>
    \<exists>h. heap s j = Some h \<and> can_mesh h \<Longrightarrow> \<exists>h. heap t j = Some h \<and> can_mesh h"
  using same_ctrl_ex [where s = s and t = t and P = "\<lambda>(i, k', ch, d, m, p). m"] by (simp add: core_def)

lemma same_ctrl_pref: "same_ctrl s t \<Longrightarrow>
    \<exists>h. heap s j = Some h \<and> preferred h \<Longrightarrow> \<exists>h. heap t j = Some h \<and> preferred h"
  using same_ctrl_ex [where s = s and t = t and P = "\<lambda>(i, k', ch, d, m, p). p"] by (simp add: core_def)

lemma same_ctrl_preferred:
  assumes "same_ctrl s t"
  shows "preferred_set t = preferred_set s"
  unfolding preferred_set_def same_ctrl_live [OF assms]
  using same_ctrl_pref [OF assms] same_ctrl_pref [OF same_ctrl_sym [OF assms]] by blast

lemma relay_inv_same_ctrl:
  assumes "same_ctrl s t" "relay_inv s"
  shows "relay_inv t"
proof -
  have "ids_inv t"
    unfolding ids_inv_def
  proof (intro allI impI)
    fix i h assume "heap t i = Some h"
    from same_ctrl_handle [OF same_ctrl_sym [OF assms(1)] this]
    obtain h' where "heap s i = Some h'" "core h' = core h" .
    with assms show "i < next_id t \<and> sh_tx h = SessionChan i"
      by (auto simp: relay_inv_def ids_inv_def core_def same_ctrl_def)
  qed
  moreover have "watch_inv t"
    using assms(2) same_ctrl_mesh [OF assms(1)] same_ctrl_live [OF assms(1)] assms(1)
    by (simp add: relay_inv_def watch_inv_def same_ctrl_def)
  moreover have "peers_inv t"
    using assms same_ctrl_pset [OF assms(1)] by (simp add: relay_inv_def peers_inv_def same_ctrl_def)
  moreover have "gauge_inv t"
    using assms same_ctrl_preferred [OF assms(1)]
    by (simp add: relay_inv_def gauge_inv_def client_count_def same_ctrl_def)
  ultimately show ?thesis
    using assms by (simp add: relay_inv_def index_inv_def same_ctrl_def)
qed

lemma same_ctrl_send: "same_ctrl s (fst (send C i f s))"
  by (simp add: same_ctrl_only_queues only_queues_send)

lemma same_ctrl_not_here: "same_ctrl s (send_peer_not_here C now i peer packet s)"
  by (auto simp: send_peer_not_here_def Let_def core_def split: option.splits prod.splits
      intro!: same_ctrl_upd_handle same_ctrl_trans [OF same_ctrl_upd_handle same_ctrl_send])

lemma same_ctrl_close: "same_ctrl s (close i s)"
  by (auto simp: close_def core_def intro: same_ctrl_upd_handle)

lemma only_queues_try_routes: "only_queues s (fst (try_routes C f rs s))"
proof (induction rs arbitrary: s)
  case (Cons r rs)
  have "only_queues s (fst (chan_send C (mr_tx r) f s))" by (rule only_queues_chan_send)
  with Cons show ?case
    by (auto split: prod.splits bool.splits intro: only_queues_trans)
qed simp

lemma only_queues_forward: "only_queues s (fst (forward_to_mesh C src dst packet s))"
  by (auto simp: forward_to_mesh_def only_queues_try_routes split: option.splits)

lemma same_ctrl_forward: "same_ctrl s (fst (forward_to_mesh C src dst packet s))"
  by (rule same_ctrl_only_queues [OF only_queues_forward])

end
