(* ===== verification/Derp_Transition.thy ===== *)
theory Derp_Transition
  imports Main
begin

text \<open>
  Transition systems: the states reachable from an initial one, invariants proved once per step, and
  invariants that hold relative to one already proved.
\<close>

inductive reach :: "('s \<Rightarrow> bool) \<Rightarrow> ('s \<Rightarrow> 's \<Rightarrow> bool) \<Rightarrow> 's \<Rightarrow> bool" for init step where
  start: "init s \<Longrightarrow> reach init step s"
| more: "reach init step s \<Longrightarrow> step s t \<Longrightarrow> reach init step t"

locale inductive_invariant =
  fixes init :: "'s \<Rightarrow> bool" and step :: "'s \<Rightarrow> 's \<Rightarrow> bool" and inv :: "'s \<Rightarrow> bool"
  assumes inv_init: "init s \<Longrightarrow> inv s"
    and inv_step: "inv s \<Longrightarrow> step s t \<Longrightarrow> inv t"
begin

lemma reach_inv: "reach init step s \<Longrightarrow> inv s"
  by (induction rule: reach.induct) (auto intro: inv_init inv_step)

lemma steps_inv: "step\<^sup>*\<^sup>* s t \<Longrightarrow> inv s \<Longrightarrow> inv t"
  by (induction rule: rtranclp_induct) (auto intro: inv_step)

end

locale relative_invariant = inductive_invariant +
  fixes rel :: "'a \<Rightarrow> bool"
  assumes rel_init: "init s \<Longrightarrow> rel s"
    and rel_step: "inv s \<Longrightarrow> rel s \<Longrightarrow> step s t \<Longrightarrow> rel t"
begin

lemma reach_rel: "reach init step s \<Longrightarrow> rel s"
  by (induction rule: reach.induct) (auto intro: rel_init rel_step reach_inv)

end

lemma reach_steps: "reach init step s \<Longrightarrow> step\<^sup>*\<^sup>* s t \<Longrightarrow> reach init step t"
  by (rotate_tac, induction rule: rtranclp_induct) (auto intro: reach.more)

text \<open>A system whose steps are steps of an abstract one, as seen through \<open>abs\<close>, under an invariant.\<close>

locale simulation = inductive_invariant +
  fixes ainit :: "'b \<Rightarrow> bool" and astep :: "'b \<Rightarrow> 'b \<Rightarrow> bool" and abs :: "'a \<Rightarrow> 'b"
  assumes abs_init: "init s \<Longrightarrow> ainit (abs s)"
    and abs_step: "inv s \<Longrightarrow> step s t \<Longrightarrow> astep\<^sup>*\<^sup>* (abs s) (abs t)"
begin

lemma abs_steps: "step\<^sup>*\<^sup>* s t \<Longrightarrow> inv s \<Longrightarrow> astep\<^sup>*\<^sup>* (abs s) (abs t)"
proof (induction rule: rtranclp_induct)
  case (step t u)
  from steps_inv [OF step.hyps(1) step.prems] step abs_step show ?case by (meson rtranclp_trans)
qed simp

lemma abs_reach: "reach init step s \<Longrightarrow> reach ainit astep (abs s)"
proof (induction rule: reach.induct)
  case (more s t)
  from abs_step [OF reach_inv [OF more.hyps(1)] more.hyps(2)] more.IH show ?case by (rule reach_steps [rotated])
qed (simp add: reach.start abs_init)

end

end
