(* ===== verification/Derp_Relay_Steps.thy ===== *)
theory Derp_Relay_Steps
  imports Derp_Relay_Ops Derp_Transition
begin

text \<open>
  The relay as a transition system: the remaining operations keep the invariant, the step relation
  whose steps are the operations of \<open>src/src/relay.rs\<close> in any order, with the channels drained by the
  sessions' writers in between, and what holds in every reachable state.
\<close>

subsection \<open>Updates that the control state does not see\<close>

lemma same_ctrl_updates [simp]:
  "same_ctrl s (t\<lparr>reverse_paths := r\<rparr>) = same_ctrl s t"
  "same_ctrl s (t\<lparr>mesh_routes := mr\<rparr>) = same_ctrl s t"
  "same_ctrl s (t\<lparr>chans := ch\<rparr>) = same_ctrl s t"
  "same_ctrl (s\<lparr>reverse_paths := r\<rparr>) t = same_ctrl s t"
  "same_ctrl (s\<lparr>mesh_routes := mr\<rparr>) t = same_ctrl s t"
  "same_ctrl (s\<lparr>chans := ch\<rparr>) t = same_ctrl s t"
  by (simp_all add: same_ctrl_def)

lemma same_ctrl_metrics [simp]:
  "current_clients m = current_clients (metrics t) \<Longrightarrow>
   preferred_clients m = preferred_clients (metrics t) \<Longrightarrow>
   same_ctrl s (t\<lparr>metrics := m\<rparr>) = same_ctrl s t"
  by (simp add: same_ctrl_def)

lemma same_ctrl_absorb: "same_ctrl t u \<Longrightarrow> same_ctrl s u = same_ctrl s t"
  by (simp add: same_ctrl_def)

lemmas same_ctrl_absorbs = same_ctrl_not_here [THEN same_ctrl_absorb] same_ctrl_upd_handle [THEN same_ctrl_absorb]

text \<open>The two outcomes of routing to a local session and to the mesh, as steps on the state.\<close>

definition route_local :: "'ch mpsc \<Rightarrow> SessionId \<Rightarrow> NodeKey \<Rightarrow> NodeKey \<Rightarrow> bytes \<Rightarrow> 'ch Relay \<Rightarrow> 'ch Relay" where
  "route_local C d src dst packet s =
     (case send C d (RecvPacket src packet) s of
        (s, True) \<Rightarrow>
          (let s = upd_metrics (\<lambda>m. m\<lparr>packets_sent := inc (packets_sent m) 1\<rparr>) s;
               s = upd_metrics (\<lambda>m. m\<lparr>bytes_sent := inc (bytes_sent m) (of_nat (length packet))\<rparr>) s
           in case heap s d of
                None \<Rightarrow> s
              | Some h \<Rightarrow>
                  (if src \<in> seen_sources h then s
                   else
                     (let s = upd_handle d (\<lambda>h. h\<lparr>seen_sources := insert src (seen_sources h)\<rparr>) s;
                          paths = (case reverse_paths s src of Some ks \<Rightarrow> ks | None \<Rightarrow> [])
                      in s\<lparr>reverse_paths := (reverse_paths s)(src \<mapsto> List.insert dst paths)\<rparr>)))
      | (s, False) \<Rightarrow> upd_metrics (\<lambda>m. m\<lparr>packets_dropped := inc (packets_dropped m) 1\<rparr>) s)"

definition route_remote ::
    "'ch mpsc \<Rightarrow> nat \<Rightarrow> SessionId \<Rightarrow> NodeKey \<Rightarrow> NodeKey \<Rightarrow> bytes \<Rightarrow> bool \<Rightarrow> 'ch Relay \<Rightarrow> 'ch Relay" where
  "route_remote C now source src dst packet forwarded s =
     (case (if forwarded then (s, False) else forward_to_mesh C src dst packet s) of
        (s, True) \<Rightarrow> upd_metrics (\<lambda>m. m\<lparr>mesh_forwarded_out := inc (mesh_forwarded_out m) 1\<rparr>) s
      | (s, False) \<Rightarrow>
          send_peer_not_here C now source dst packet
            (upd_metrics (\<lambda>m. m\<lparr>packets_dropped := inc (packets_dropped m) 1\<rparr>) s))"

definition received :: "bytes \<Rightarrow> 'ch Relay \<Rightarrow> 'ch Relay" where
  "received packet s =
     (let s = upd_metrics (\<lambda>m. m\<lparr>packets_received := inc (packets_received m) 1\<rparr>) s
      in upd_metrics (\<lambda>m. m\<lparr>bytes_received := inc (bytes_received m) (of_nat (length packet))\<rparr>) s)"

definition count_in :: "bool \<Rightarrow> 'ch Relay \<Rightarrow> 'ch Relay" where
  "count_in forwarded s =
     (if forwarded then upd_metrics (\<lambda>m. m\<lparr>mesh_forwarded_in := inc (mesh_forwarded_in m) 1\<rparr>) s else s)"

lemma route_split:
  "route C now source src dst packet forwarded s =
     count_in forwarded (case active_ix s dst of
        Some d \<Rightarrow> route_local C d src dst packet (received packet s)
      | None \<Rightarrow> route_remote C now source src dst packet forwarded (received packet s))"
proof -
  have "active_ix s dst = active dst (received packet s)" by (simp add: received_def active_def)
  then show ?thesis
    by (simp only: route_def route_local_def route_remote_def received_def count_in_def Let_def)
qed

lemma received_ctrl [simp]: "same_ctrl s (received packet t) = same_ctrl s t"
  by (simp add: received_def Let_def)

lemma count_in_ctrl [simp]: "same_ctrl s (count_in b t) = same_ctrl s t"
  by (simp add: count_in_def)

lemma route_local_ctrl: "same_ctrl s (route_local C d src dst packet s)"
proof -
  obtain t ok where t: "send C d (RecvPacket src packet) s = (t, ok)" by fastforce
  have "same_ctrl s t" using same_ctrl_send [of s C d "RecvPacket src packet"] by (simp add: t)
  then show ?thesis
    by (auto simp: route_local_def t Let_def core_def same_ctrl_absorbs split: bool.splits option.splits)
qed

lemma route_remote_ctrl: "same_ctrl s (route_remote C now source src dst packet forwarded s)"
proof -
  obtain t ok where t: "(if forwarded then (s, False) else forward_to_mesh C src dst packet s) = (t, ok)"
    by fastforce
  have "same_ctrl s t" using same_ctrl_forward [of s C src dst packet] t by (cases forwarded) auto
  then show ?thesis
    by (simp add: route_remote_def t same_ctrl_absorbs split: bool.split)
qed

lemma same_ctrl_route: "same_ctrl s (route C now source src dst packet forwarded s)"
  by (simp add: route_split same_ctrl_absorb [OF route_local_ctrl] same_ctrl_absorb [OF route_remote_ctrl]
      split: option.split)

lemma same_ctrl_close_peer: "same_ctrl s (fst (close_peer i k s))"
  by (auto simp: close_peer_def same_ctrl_fold same_ctrl_close split: option.split)

lemma same_ctrl_restart: "same_ctrl s (broadcast_restart C a b s)"
  unfolding broadcast_restart_def
  by (intro same_ctrl_fold) (auto intro: same_ctrl_fold same_ctrl_send)

lemma same_ctrl_add_mesh_route: "same_ctrl s (add_mesh_route m k ch s)"
  by (simp add: add_mesh_route_def Let_def)

lemma same_ctrl_remove_mesh_route: "same_ctrl s (remove_mesh_route m k s)"
  by (simp add: remove_mesh_route_def Let_def split: option.split)

lemma same_ctrl_remove_mesh: "same_ctrl s (remove_mesh m s)"
  by (simp add: remove_mesh_def same_ctrl_fold same_ctrl_remove_mesh_route)

subsection \<open>The operations that change the control state in place\<close>

lemma note_activity_inv:
  assumes "relay_inv s"
  shows "relay_inv (note_activity i s)"
proof (cases "note_activity i s = s")
  case False
  then obtain h ps where h: "heap s i = Some h" "duplicate h" "map_of (peers s) (sh_key h) = Some ps"
    by (auto simp: note_activity_def split: option.splits if_splits)
  let ?ps = "ps\<lparr>ps_active := i\<rparr>"
  have ps: "pset_ok s (sh_key h) ps" and d: "distinct (map fst (peers s))"
    using assms h(3) by (simp_all add: relay_inv_def peers_inv_def)
  obtain a where a: "PeerSet_active ?ps = Some a"
    using ps by (cases "PeerSet_active ?ps") (auto simp: PeerSet_active_def pset_ok_def split: option.splits)
  have eq: "note_activity i s = s\<lparr>peers := AList.update (sh_key h) ?ps (peers s),
      active_ix := (active_ix s)(sh_key h \<mapsto> a)\<rparr>" (is "_ = ?t")
    using h a by (simp add: note_activity_def Let_def)
  have lk: "map_of (peers ?t) k = (if k = sh_key h then Some ?ps else map_of (peers s) k)" for k
    by (simp add: update_conv')
  have dt: "distinct (map fst (peers ?t))" using d by (simp add: distinct_update)
  have ok: "pset_ok ?t k ps' = pset_ok s k ps'" for k ps' by (simp add: pset_ok_def)
  have "sess_of ?t k = sess_of s k" for k using lk h(3) by (simp add: sess_of_def)
  then have live: "live_set ?t = live_set s" by (simp add: live_set_UN [OF d] live_set_UN [OF dt])
  have pi: "peers_inv ?t"
    unfolding peers_inv_def
  proof (intro conjI allI impI)
    fix k ps' assume "map_of (peers ?t) k = Some ps'"
    moreover have "pset_ok s (sh_key h) ?ps" using ps by (simp add: pset_ok_def)
    ultimately show "pset_ok ?t k ps'"
      using assms unfolding lk ok by (auto simp: relay_inv_def peers_inv_def split: if_splits)
  qed (rule dt)
  moreover have "index_inv ?t"
    unfolding index_inv_def lk using assms a by (simp add: relay_inv_def index_inv_def)
  moreover have "ids_inv ?t" using assms by (simp add: relay_inv_def ids_inv_def)
  moreover have "watch_inv ?t" using assms live by (simp add: relay_inv_def watch_inv_def)
  moreover have "gauge_inv ?t"
  proof -
    have "peers_inv s" using assms by (simp add: relay_inv_def)
    with assms live client_count_card [OF pi] show ?thesis
      by (simp add: relay_inv_def gauge_inv_def client_count_card preferred_set_def)
  qed
  ultimately show ?thesis unfolding eq relay_inv_def by blast
qed (use assms in simp)

text \<open>The state after \<open>note_preferred\<close> on a session with handle \<open>h\<close>.\<close>

lemma note_preferred_eq:
  assumes "heap s i = Some h"
  shows "heap (note_preferred i p s) = (heap s)(i \<mapsto> h\<lparr>preferred := p, preferred_seen := True\<rparr>)"
    "peers (note_preferred i p s) = peers s" "active_ix (note_preferred i p s) = active_ix s"
    "watchers (note_preferred i p s) = watchers s" "next_id (note_preferred i p s) = next_id s"
    "current_clients (metrics (note_preferred i p s)) = current_clients (metrics s)"
    "preferred_clients (metrics (note_preferred i p s)) =
       (if preferred h = p then preferred_clients (metrics s)
        else if p then preferred_clients (metrics s) + 1 else preferred_clients (metrics s) - 1)"
  using assms by (simp_all add: note_preferred_def upd_handle_def Let_def inc_def dec_def)

lemma note_preferred_inv:
  assumes inv: "relay_inv s" and i: "i \<in> live_set s"
  shows "relay_inv (note_preferred i p s)"
proof -
  have pi: "peers_inv s" using inv by (simp add: relay_inv_def)
  from live_handle [OF pi i] obtain h where h: "heap s i = Some h" by blast
  let ?t = "note_preferred i p s"
  note f = note_preferred_eq [OF h, of p]
  have live: "live_set ?t = live_set s" by (simp add: live_set_def f)
  have ps: "preferred_set ?t = (if p then insert i (preferred_set s) else preferred_set s - {i})"
    using i by (auto simp: preferred_set_def live f)
  have mem: "i \<in> preferred_set s \<longleftrightarrow> preferred h" using h i by (simp add: preferred_set_def)
  have fin: "finite (preferred_set s)" by (simp add: preferred_set_def)
  have gauge: "preferred_clients (metrics s) = of_nat (card (preferred_set s))"
    using inv by (simp add: relay_inv_def gauge_inv_def)
  have "preferred_clients (metrics ?t) = of_nat (card (preferred_set ?t))"
  proof (cases "preferred h")
    case True
    with fin mem card.remove [OF fin, of i] show ?thesis
      by (auto simp: f ps gauge insert_absorb)
  next
    case False
    with fin mem show ?thesis by (auto simp: f ps gauge)
  qed
  then have "gauge_inv ?t"
    using inv by (simp add: relay_inv_def gauge_inv_def f client_count_def)
  moreover have "pset_ok s k q \<Longrightarrow> pset_ok ?t k q" for k q
    using h by (auto simp: pset_ok_def f)
  then have "peers_inv ?t" using inv by (simp add: relay_inv_def peers_inv_def f)
  moreover have "watch_inv ?t" using inv h by (auto simp: relay_inv_def watch_inv_def live f)
  moreover have "ids_inv ?t" using inv h by (auto simp: relay_inv_def ids_inv_def f)
  ultimately show ?thesis using inv by (simp add: relay_inv_def index_inv_def f)
qed

lemma only_queues_watch:
  assumes "heap s i = Some h" "can_mesh h"
  shows "only_queues (s\<lparr>watchers := List.insert i (watchers s)\<rparr>) (fst (watch C i s))"
  using assms
  by (auto simp: watch_def Let_def intro!: only_queues_fold split: option.split intro: only_queues_send)

lemma watch_refused: "heap s i = Some h \<Longrightarrow> \<not> can_mesh h \<Longrightarrow> watch C i s = (s, False)"
  by (simp add: watch_def)

lemma watch_op_inv:
  assumes inv: "relay_inv s" and i: "i \<in> live_set s"
  shows "relay_inv (fst (watch C i s))"
proof -
  have "peers_inv s" using inv by (simp add: relay_inv_def)
  from live_handle [OF this i] obtain h where h: "heap s i = Some h" by blast
  show ?thesis
  proof (cases "can_mesh h")
    case True
    have "relay_inv (s\<lparr>watchers := List.insert i (watchers s)\<rparr>)"
      using inv h True i
      by (simp add: relay_inv_defs pset_ok_def live_set_def preferred_set_def client_count_def)
    then show ?thesis by (rule relay_inv_only_queues [OF only_queues_watch [OF h True]])
  qed (simp add: watch_refused [OF h] inv)
qed

subsection \<open>Channels, counters and reverse paths\<close>

text \<open>What no operation changes besides the mesh operations, and channels are never removed.\<close>

definition keeps :: "'ch Relay \<Rightarrow> 'ch Relay \<Rightarrow> bool" where
  "keeps s t \<longleftrightarrow> queue_depth t = queue_depth s \<and> mesh_key t = mesh_key s \<and> mesh_routes t = mesh_routes s \<and>
     balance (metrics t) = balance (metrics s) \<and> dom (chans s) \<subseteq> dom (chans t)"

lemma keeps_refl [simp, intro]: "keeps s s"
  by (simp add: keeps_def)

lemma keeps_trans [trans]: "keeps s t \<Longrightarrow> keeps t u \<Longrightarrow> keeps s u"
  by (auto simp: keeps_def)

lemma keeps_only_queues: "only_queues s t \<Longrightarrow> keeps s t"
  by (simp add: keeps_def relay_frame only_queues_dom)

lemma keeps_fold: "(\<And>x s. keeps s (g x s)) \<Longrightarrow> keeps s (fold g xs s)"
  by (induction xs arbitrary: s) (auto intro: keeps_trans)

lemma keeps_updates [simp]:
  "keeps s (t\<lparr>heap := H\<rparr>) = keeps s t" "keeps s (t\<lparr>peers := P\<rparr>) = keeps s t"
  "keeps s (t\<lparr>active_ix := A\<rparr>) = keeps s t" "keeps s (t\<lparr>watchers := W\<rparr>) = keeps s t"
  "keeps s (t\<lparr>reverse_paths := R\<rparr>) = keeps s t" "keeps s (t\<lparr>next_id := n\<rparr>) = keeps s t"
  "keeps s (upd_handle i g t) = keeps s t"
  by (simp_all add: keeps_def upd_handle_def)

lemma keeps_metrics [simp]:
  "balance m = balance (metrics t) \<Longrightarrow> keeps s (t\<lparr>metrics := m\<rparr>) = keeps s t"
  by (simp add: keeps_def)

lemma keeps_absorb: "only_queues t u \<Longrightarrow> keeps s t \<Longrightarrow> keeps s u"
  by (auto intro: keeps_trans keeps_only_queues)

lemma keeps_register: "keeps s (snd (register C now key ep mesh ack prober nideal s))"
  by (rule keeps_absorb [OF register_registered]) (simp add: registered_def balance_def)

lemma keeps_unregister:
  assumes "heap s i = Some h" "map_of (peers s) (sh_key h) = Some ps" "distinct (sessions ps)"
  shows "keeps s (unregister C i s)"
proof (cases "filter (\<lambda>j. j \<noteq> i) (sessions ps) = []")
  case True
  note b = unregister_begin_last [OF assms(1,2) True, of C]
  obtain s1 where s1: "unregister_begin C i s = (s1, True)" using b by simp
  then have "heap s1 i = Some (h\<lparr>sh_closed := True, preferred := False\<rparr>)" using b by auto
  from unregister_finish_gone [OF this refl]
  have "keeps s1 (unregister_finish C i True s1)" by (simp add: keeps_def)
  moreover have "keeps s s1" using b s1 by (auto simp: balance_def)
  ultimately show ?thesis by (simp add: unregister_def s1 keeps_trans)
next
  case False
  note b = unregister_begin_stay [OF assms(1,2) refl False assms(3), of C]
  obtain s1 where s1: "unregister_begin C i s = (s1, False)"
    using b(2) by (cases "unregister_begin C i s") auto
  have k: "keeps s s1"
    using keeps_absorb [OF b(1), of s] by (simp add: s1 balance_def)
  obtain h1 where "heap s1 i = Some h1"
    using only_queues_fields(1) [OF b(1)] by (simp add: s1)
  from unregister_finish_stay [OF this, of C] k show ?thesis by (simp add: unregister_def s1 balance_def)
qed

lemma keeps_note_activity: "keeps s (note_activity i s)"
  by (auto simp: note_activity_def Let_def split: option.splits)

lemma keeps_note_preferred: "keeps s (note_preferred i p s)"
  by (auto simp: note_preferred_def Let_def balance_def upd_handle_def split: option.splits)

lemma keeps_send: "keeps s (fst (send C i f s))"
  by (rule keeps_only_queues [OF only_queues_send])

lemma keeps_not_here: "keeps t (send_peer_not_here C now i peer packet t)"
proof -
  have "keeps t (fst (send C i f (upd_handle i g t)))" for f g
    by (rule keeps_trans [OF _ keeps_send]) simp
  then show ?thesis by (simp add: send_peer_not_here_def Let_def split: option.split prod.split)
qed

text \<open>One more packet received, and one more delivered, forwarded or dropped.\<close>

lemma keeps_route: "keeps s (route C now source src dst packet forwarded s)"
proof -
  let ?r = "received packet s"
  have r: "dom (chans ?r) = dom (chans s)" "queue_depth ?r = queue_depth s" "mesh_key ?r = mesh_key s"
      "mesh_routes ?r = mesh_routes s" "balance (metrics ?r) = balance (metrics s) + 1"
    by (simp_all add: received_def Let_def balance_def inc_def)
  have out: "keeps s (u\<lparr>metrics := m\<rparr>)" if "keeps ?r u" "balance m = balance (metrics u) - 1" for u m
    using that r by (simp add: keeps_def)
  have loc: "keeps s (route_local C d src dst packet ?r)" for d
  proof -
    obtain t ok where t: "send C d (RecvPacket src packet) ?r = (t, ok)" by fastforce
    have "keeps ?r t" using keeps_send [of ?r C d "RecvPacket src packet"] by (simp add: t)
    then show ?thesis
      by (auto simp: route_local_def t Let_def balance_def inc_def intro!: out split: bool.splits option.splits)
  qed
  have rem: "keeps s (route_remote C now source src dst packet forwarded ?r)"
  proof -
    obtain t ok where t: "(if forwarded then (?r, False) else forward_to_mesh C src dst packet ?r) = (t, ok)"
      by fastforce
    have "only_queues ?r (fst (forward_to_mesh C src dst packet ?r))" by (rule only_queues_forward)
    then have "keeps ?r t" using t by (auto simp: keeps_only_queues split: if_splits)
    then have "keeps s (upd_metrics (\<lambda>m. m\<lparr>packets_dropped := inc (packets_dropped m) 1\<rparr>) t)"
      "keeps s (upd_metrics (\<lambda>m. m\<lparr>mesh_forwarded_out := inc (mesh_forwarded_out m) 1\<rparr>) t)"
      by (auto simp: balance_def inc_def intro: out)
    then show ?thesis
      by (auto simp: route_remote_def t intro: keeps_trans keeps_not_here split: bool.split)
  qed
  have "keeps s (count_in forwarded u)" if "keeps s u" for u
    using that by (simp add: count_in_def balance_def)
  with loc rem show ?thesis by (simp add: route_split split: option.split)
qed

lemma keeps_watch: "keeps s (fst (watch C i s))"
proof (cases "heap s i")
  case (Some h)
  show ?thesis
  proof (cases "can_mesh h")
    case True
    show ?thesis by (rule keeps_absorb [OF only_queues_watch [OF Some True]]) simp
  qed (simp add: watch_refused [OF Some])
qed (simp add: watch_def)

lemma keeps_close_peer: "keeps s (fst (close_peer i k s))"
  by (auto simp: close_peer_def close_def intro!: keeps_fold split: option.split)

lemma keeps_restart: "keeps s (broadcast_restart C a b s)"
  unfolding broadcast_restart_def by (intro keeps_fold) (auto intro: keeps_fold keeps_send)

end
