(* ===== verification/Derp_Relay_System.thy ===== *)
theory Derp_Relay_System
  imports Derp_Relay_Steps
begin

text \<open>
  The relay's step relation, with one rule per public operation of \<open>src/src/relay.rs\<close>, and its
  invariants: the control state (\<open>relay_inv\<close>), the mesh routes (\<open>mesh_inv\<close>), and the reverse paths,
  channels and packet counters (\<open>side_inv\<close>).
\<close>

subsection \<open>Mesh routes\<close>

definition mesh_inv :: "'ch Relay \<Rightarrow> bool" where
  "mesh_inv s \<longleftrightarrow> distinct (map fst (mesh_routes s)) \<and>
     (\<forall>k rs. map_of (mesh_routes s) k = Some rs \<longrightarrow>
        rs \<noteq> [] \<and> distinct (map mr_mesh_id rs) \<and> (\<forall>r\<in>set rs. mr_tx r = MeshChan (mr_mesh_id r)))"

text \<open>The mesh connections that reach a peer, in the order they are tried.\<close>

definition routes_of :: "'ch Relay \<Rightarrow> NodeKey \<Rightarrow> MeshRoute list" where
  "routes_of s k = (case map_of (mesh_routes s) k of None \<Rightarrow> [] | Some rs \<Rightarrow> rs)"

lemma routes_of_inv:
  "mesh_inv s \<Longrightarrow> distinct (map mr_mesh_id (routes_of s k)) \<and>
     (\<forall>r\<in>set (routes_of s k). mr_tx r = MeshChan (mr_mesh_id r))"
  by (cases "map_of (mesh_routes s) k") (simp_all add: mesh_inv_def routes_of_def)

lemma routes_ofE:
  assumes "r \<in> set (routes_of s k)"
  obtains rs where "map_of (mesh_routes s) k = Some rs" "r \<in> set rs"
  using assms by (cases "map_of (mesh_routes s) k") (simp_all add: routes_of_def)

lemma add_mesh_route_lookup:
  "map_of (mesh_routes (add_mesh_route m k ch s)) k' =
     (if k' = k then Some (if list_ex (\<lambda>r. mr_mesh_id r = m) (routes_of s k) then routes_of s k
                           else routes_of s k @ [\<lparr>mr_mesh_id = m, mr_tx = ch\<rparr>])
      else map_of (mesh_routes s) k')"
  by (simp add: add_mesh_route_def Let_def update_conv' routes_of_def split: option.split)

lemma remove_mesh_route_lookup:
  "distinct (map fst (mesh_routes s)) \<Longrightarrow>
   map_of (mesh_routes (remove_mesh_route m k s)) k' =
     (if k' = k then
        (let rs = filter (\<lambda>r. mr_mesh_id r \<noteq> m) (routes_of s k) in
         if rs = [] then None else Some rs)
      else map_of (mesh_routes s) k')"
  by (auto simp: remove_mesh_route_def Let_def update_conv' delete_conv' routes_of_def
      distinct_update split: option.split)

lemma add_mesh_route_inv:
  assumes "mesh_inv s"
  shows "mesh_inv (add_mesh_route m k (MeshChan m) s)"
proof -
  have "distinct (map fst (mesh_routes (add_mesh_route m k (MeshChan m) s)))"
    using assms by (simp add: mesh_inv_def add_mesh_route_def Let_def distinct_update)
  moreover note routes_of_inv [OF assms, of k]
  ultimately show ?thesis
    using assms by (auto simp: mesh_inv_def add_mesh_route_lookup list_ex_iff split: if_splits)
qed

lemma remove_mesh_route_inv:
  assumes "mesh_inv s"
  shows "mesh_inv (remove_mesh_route m k s)"
proof -
  have d: "distinct (map fst (mesh_routes s))" using assms by (simp add: mesh_inv_def)
  then have "distinct (map fst (mesh_routes (remove_mesh_route m k s)))"
    by (simp add: remove_mesh_route_def Let_def distinct_update distinct_delete split: option.split)
  moreover note routes_of_inv [OF assms, of k]
  ultimately show ?thesis
    using assms by (auto simp: mesh_inv_def remove_mesh_route_lookup [OF d] Let_def distinct_map_filter
        split: if_splits)
qed

lemma remove_mesh_loop:
  assumes "mesh_inv s"
  shows "mesh_inv (fold (remove_mesh_route m) ks s)"
    "routes_of (fold (remove_mesh_route m) ks s) k =
       (if k \<in> set ks then filter (\<lambda>r. mr_mesh_id r \<noteq> m) (routes_of s k) else routes_of s k)"
  using assms
proof (induction ks arbitrary: s)
  case (Cons a ks)
  {
    case 1
    then show ?case by (simp add: Cons.IH remove_mesh_route_inv)
  next
    case 2
    have "distinct (map fst (mesh_routes s))" using 2 by (simp add: mesh_inv_def)
    from remove_mesh_route_lookup [OF this, of m a k]
    have "routes_of (remove_mesh_route m a s) k =
       (if k = a then filter (\<lambda>r. mr_mesh_id r \<noteq> m) (routes_of s k) else routes_of s k)"
      by (auto simp: routes_of_def Let_def)
    with 2 show ?case by (auto simp: Cons.IH remove_mesh_route_inv)
  }
qed simp_all

lemma remove_mesh_routes:
  assumes "mesh_inv s"
  shows "routes_of (remove_mesh m s) k = filter (\<lambda>r. mr_mesh_id r \<noteq> m) (routes_of s k)"
proof (cases "k \<in> set (map fst (filter (\<lambda>(k, routes). list_ex (\<lambda>r. mr_mesh_id r = m) routes) (mesh_routes s)))")
  case False
  have "mr_mesh_id r \<noteq> m" if "r \<in> set (routes_of s k)" for r
  proof -
    from that obtain rs where rs: "map_of (mesh_routes s) k = Some rs" "r \<in> set rs" by (rule routes_ofE)
    with map_of_SomeD [OF rs(1)] False show ?thesis by (force simp: list_ex_iff)
  qed
  with False show ?thesis
    by (simp add: remove_mesh_def remove_mesh_loop(2) [OF assms] filter_id_conv del: set_map)
qed (simp add: remove_mesh_def remove_mesh_loop(2) [OF assms] del: set_map)

lemma remove_mesh_inv: "mesh_inv s \<Longrightarrow> mesh_inv (remove_mesh m s)"
  by (simp add: remove_mesh_def remove_mesh_loop(1))

subsection \<open>Reverse paths, channels and counters\<close>

definition rev_inv :: "'ch Relay \<Rightarrow> bool" where
  "rev_inv s \<longleftrightarrow> (\<forall>k ks. reverse_paths s k = Some ks \<longrightarrow> distinct ks \<and> set ks \<subseteq> dom (map_of (peers s)))"

definition chan_inv :: "'ch Relay \<Rightarrow> bool" where
  "chan_inv s \<longleftrightarrow> (\<forall>i\<in>dom (heap s). SessionChan i \<in> dom (chans s))"

definition side_inv :: "'ch Relay \<Rightarrow> bool" where
  "side_inv s \<longleftrightarrow> rev_inv s \<and> chan_inv s \<and> 0 < queue_depth s \<and> balance (metrics s) = 0"

lemma chan_inv_mono:
  "chan_inv s \<Longrightarrow> dom (heap t) \<subseteq> dom (heap s) \<Longrightarrow> dom (chans s) \<subseteq> dom (chans t) \<Longrightarrow> chan_inv t"
  unfolding chan_inv_def by blast

lemma same_ctrl_dom: "same_ctrl s t \<Longrightarrow> dom (heap t) = dom (heap s)"
proof -
  assume "same_ctrl s t"
  then have "heap t j = None \<longleftrightarrow> heap s j = None" for j
    using option.map_disc_iff unfolding same_ctrl_def by metis
  then show ?thesis by (auto simp: dom_def)
qed

lemma side_inv_keeps:
  assumes "side_inv s" "keeps s t" "dom (heap t) \<subseteq> dom (heap s)" "rev_inv t"
  shows "side_inv t"
  using assms chan_inv_mono [of s t] by (simp add: side_inv_def keeps_def)

lemma side_inv_same_ctrl:
  assumes "side_inv s" "keeps s t" "same_ctrl s t" "reverse_paths t = reverse_paths s"
  shows "side_inv t"
proof (rule side_inv_keeps [OF assms(1,2)])
  show "rev_inv t" using assms(1,3,4) by (simp add: side_inv_def rev_inv_def same_ctrl_def)
qed (simp add: same_ctrl_dom [OF assms(3)])

lemma rev_inv_mono:
  "rev_inv s \<Longrightarrow> reverse_paths t = reverse_paths s \<Longrightarrow> dom (map_of (peers s)) \<subseteq> dom (map_of (peers t)) \<Longrightarrow>
     rev_inv t"
  unfolding rev_inv_def by (metis subset_trans)

lemma side_register:
  assumes "side_inv s"
  shows "side_inv (snd (register C now key ep mesh ack prober nideal s))" (is "side_inv ?t")
proof -
  let ?r = "registered key (new_handle (next_id s) now key ep mesh ack prober nideal) s"
  have q: "only_queues ?r ?t" by (rule register_registered)
  note f = only_queues_fields [OF q]
  have "rev_inv ?t"
    by (rule rev_inv_mono [of s]) (use assms in \<open>auto simp: f registered_def side_inv_def update_conv'\<close>)
  moreover have "SessionChan (next_id s) \<in> dom (chans ?t)"
  proof -
    define s1 where "s1 = s\<lparr>next_id := next_id s + 1,
      chans := (chans s)(SessionChan (next_id s) \<mapsto> channel C (queue_depth s))\<rparr>"
    have "keeps s1 ?t"
      unfolding register_def Let_def snd_conv s1_def
      by (intro keeps_trans [OF _ keeps_only_queues [OF only_queues_broadcast]])
         (auto intro!: keeps_trans [OF _ keeps_fold] keeps_trans [OF _ keeps_send] simp: balance_def)
    then show ?thesis by (auto simp: keeps_def s1_def)
  qed
  moreover have "keeps s ?t" by (rule keeps_register)
  moreover have "dom (heap ?t) \<subseteq> insert (next_id s) (dom (heap s))"
    by (auto simp: f registered_def mark_dup_def split: if_splits)
  moreover from calculation have "chan_inv ?t"
    using assms unfolding side_inv_def keeps_def chan_inv_def by blast
  ultimately show ?thesis using assms by (simp add: side_inv_def keeps_def)
qed

lemma side_unregister:
  assumes "side_inv s" "relay_inv s" "i \<in> live_set s"
  shows "side_inv (unregister C i s)"
proof -
  have pi: "peers_inv s" using assms(2) by (simp add: relay_inv_def)
  from live_handle [OF pi assms(3)] obtain h ps where h: "heap s i = Some h"
    "map_of (peers s) (sh_key h) = Some ps" "i \<in> set (sessions ps)" "pset_ok s (sh_key h) ps" by metis
  let ?t = "unregister C i s" and ?xs = "filter (\<lambda>j. j \<noteq> i) (sessions ps)"
  note dep = unregister_departed [OF pi h(1,2), of C]
  have dist: "distinct (sessions ps)" using h(4) by (simp add: pset_ok_def)
  have "dom (heap ?t) \<subseteq> dom (heap s)" using dep h(1) by (auto simp: departed_def split: if_splits)
  moreover have "rev_inv ?t"
  proof (cases "?xs = []")
    case True
    note b = unregister_begin_last [OF h(1,2) True, of C]
    then obtain s1 where s1: "unregister_begin C i s = (s1, True)"
      "heap s1 i = Some (h\<lparr>sh_closed := True, preferred := False\<rparr>)" "reverse_paths s1 = reverse_paths s" by auto
    have t: "?t = unregister_finish C i True s1" by (simp add: unregister_def s1)
    have rp: "reverse_paths ?t = (\<lambda>k. if k = sh_key h then None
        else map_option (removeAll (sh_key h)) (reverse_paths s k))"
      using unregister_finish_gone(7) [OF s1(2) t] s1(3) by (simp cong: if_cong)
    have dm: "dom (map_of (peers ?t)) = dom (map_of (peers s)) - {sh_key h}"
      using dep True by (auto simp: departed_def split: if_splits)
    from assms(1) have "rev_inv s" by (simp add: side_inv_def)
    then show ?thesis unfolding rev_inv_def rp dm by (fastforce simp: distinct_removeAll split: if_splits)
  next
    case False
    note b = unregister_begin_stay [OF h(1,2) refl False dist, of C]
    obtain s1 where s1: "unregister_begin C i s = (s1, False)"
      using b(2) by (cases "unregister_begin C i s") auto
    note f = only_queues_fields [OF b(1), unfolded s1 fst_conv]
    obtain h1 where "heap s1 i = Some h1" by (simp add: f)
    from unregister_finish_stay [OF this, of C] have "reverse_paths ?t = reverse_paths s"
      by (simp add: unregister_def s1 f)
    moreover have "map_of (peers ?t) = (map_of (peers s))(sh_key h \<mapsto> \<lparr>sessions = ?xs, ps_active = last ?xs\<rparr>)"
      using dep False by (simp add: departed_def fun_eq_iff)
    then have "dom (map_of (peers s)) \<subseteq> dom (map_of (peers ?t))" by (simp add: subset_insertI)
    moreover have "rev_inv s" using assms(1) by (simp add: side_inv_def)
    ultimately show ?thesis by (metis rev_inv_mono)
  qed
  ultimately show ?thesis by (rule side_inv_keeps [OF assms(1) keeps_unregister [OF h(1,2) dist]])
qed

lemma side_note_activity:
  assumes "side_inv s"
  shows "side_inv (note_activity i s)"
proof (rule side_inv_keeps [OF assms keeps_note_activity])
  show "rev_inv (note_activity i s)"
    by (rule rev_inv_mono [of s])
      (use assms in \<open>auto simp: side_inv_def note_activity_def Let_def update_conv' split: option.splits\<close>)
qed (auto simp: note_activity_def Let_def split: option.splits if_splits)

lemma side_note_preferred:
  assumes "side_inv s" "heap s i = Some h"
  shows "side_inv (note_preferred i p s)"
proof (rule side_inv_keeps [OF assms(1) keeps_note_preferred])
  have "reverse_paths (note_preferred i p s) = reverse_paths s"
    by (simp add: note_preferred_def upd_handle_def Let_def split: option.split)
  then show "rev_inv (note_preferred i p s)"
    using assms by (simp add: side_inv_def rev_inv_def note_preferred_eq)
qed (use assms in \<open>auto simp: note_preferred_eq\<close>)

lemma side_watch:
  assumes "side_inv s"
  shows "side_inv (fst (watch C i s))"
proof (cases "heap s i")
  case (Some h)
  show ?thesis
  proof (cases "can_mesh h")
    case True
    note f = only_queues_fields [OF only_queues_watch [OF Some True, of C]]
    show ?thesis
      by (rule side_inv_keeps [OF assms keeps_watch]) (use assms in \<open>simp_all add: f side_inv_def rev_inv_def\<close>)
  qed (simp add: watch_refused [OF Some] assms)
qed (simp add: watch_def assms)

text \<open>Routing adds at most the path from the source to a registered destination.\<close>

lemma route_reverse_paths:
  "reverse_paths (route C now source src dst packet forwarded s) = reverse_paths s \<or>
   active_ix s dst \<noteq> None \<and>
   reverse_paths (route C now source src dst packet forwarded s) =
     (reverse_paths s)(src \<mapsto> List.insert dst (case reverse_paths s src of Some ks \<Rightarrow> ks | None \<Rightarrow> []))"
proof -
  let ?r = "received packet s"
  have r: "reverse_paths ?r = reverse_paths s" by (simp add: received_def Let_def)
  have c: "reverse_paths (count_in forwarded u) = reverse_paths u" for u :: "'a Relay"
    by (simp add: count_in_def)
  show ?thesis
  proof (cases "active_ix s dst")
    case None
    obtain t ok where t: "(if forwarded then (?r, False) else forward_to_mesh C src dst packet ?r) = (t, ok)"
      by fastforce
    have "only_queues ?r (fst (forward_to_mesh C src dst packet ?r))" by (rule only_queues_forward)
    then have rt: "reverse_paths t = reverse_paths s" using t r by (auto simp: relay_frame split: if_splits)
    have "reverse_paths (send_peer_not_here C now source dst packet u) = reverse_paths u" for u :: "'a Relay"
      by (simp add: send_peer_not_here_def Let_def upd_handle_def only_queues_fields(4) [OF only_queues_send]
          split: option.split prod.split)
    then show ?thesis by (simp add: route_split None c route_remote_def t rt split: bool.split)
  next
    case (Some d)
    obtain t ok where t: "send C d (RecvPacket src packet) ?r = (t, ok)" by fastforce
    have "reverse_paths t = reverse_paths s"
      using only_queues_fields(4) [OF only_queues_send [of ?r C d "RecvPacket src packet"]] by (simp add: t r)
    then show ?thesis
      by (auto simp: route_split Some c route_local_def t Let_def upd_handle_def split: bool.split option.split)
  qed
qed

lemma side_route:
  assumes "side_inv s" "relay_inv s"
  shows "side_inv (route C now source src dst packet forwarded s)" (is "side_inv ?t")
proof (rule side_inv_keeps [OF assms(1) keeps_route])
  have ctrl: "same_ctrl s ?t" by (rule same_ctrl_route)
  then show "dom (heap ?t) \<subseteq> dom (heap s)" by (simp add: same_ctrl_dom)
  have "rev_inv s" using assms(1) by (simp add: side_inv_def)
  define old where "old = (case reverse_paths s src of Some ks \<Rightarrow> ks | None \<Rightarrow> [])"
  from \<open>rev_inv s\<close> have old: "distinct old" "set old \<subseteq> dom (map_of (peers s))"
    by (cases "reverse_paths s src"; simp add: rev_inv_def old_def)+
  have p: "peers ?t = peers s" using ctrl by (simp add: same_ctrl_def)
  have "dst \<in> dom (map_of (peers s))" if "active_ix s dst \<noteq> None"
    using assms(2) that by (cases "map_of (peers s) dst") (auto simp: relay_inv_def index_inv_def)
  with old have "distinct (List.insert dst old) \<and> set (List.insert dst old) \<subseteq> dom (map_of (peers s))"
    if "active_ix s dst \<noteq> None" using that by (auto simp: distinct_insert)
  with \<open>rev_inv s\<close> show "rev_inv ?t"
    using route_reverse_paths [of C now source src dst packet forwarded s, folded old_def]
    unfolding rev_inv_def p by (elim disjE) (simp_all split: if_split)
qed

subsection \<open>The step relation\<close>

text \<open>
  The handle of a session is used by its reader between \<open>register\<close> and \<open>unregister\<close>, so the operations
  on a handle are guarded by the session being registered. \<open>recv\<close> and \<open>drop\<close> are the steps of the
  task that owns the receiving end of a channel, \<open>mesh_connect\<close> is a new mesh connection with its
  channel, \<open>mesh_reply\<close> the answer to its ping, and \<open>counter\<close> a count in one of the other metrics (accepts, unknown frames, rejections).
\<close>

inductive relay_step :: "'ch mpsc \<Rightarrow> 'ch Relay \<Rightarrow> 'ch Relay \<Rightarrow> bool" for C where
  register: "ids_left s \<Longrightarrow> relay_step C s (snd (register C now key ep mesh ack prober nideal s))"
| unregister: "i \<in> live_set s \<Longrightarrow> relay_step C s (unregister C i s)"
| activity: "i \<in> live_set s \<Longrightarrow> relay_step C s (note_activity i s)"
| preferred: "i \<in> live_set s \<Longrightarrow> relay_step C s (note_preferred i p s)"
| route: "i \<in> live_set s \<Longrightarrow> relay_step C s (route C now i src dst packet forwarded s)"
| watch: "i \<in> live_set s \<Longrightarrow> relay_step C s (fst (watch C i s))"
| close_peer: "i \<in> live_set s \<Longrightarrow> relay_step C s (fst (close_peer i k s))"
| reply: "i \<in> live_set s \<Longrightarrow> relay_step C s (fst (send C i f s))"
| restart: "relay_step C s (broadcast_restart C a b s)"
| add_route: "relay_step C s (add_mesh_route m k (MeshChan m) s)"
| remove_route: "relay_step C s (remove_mesh_route m k s)"
| remove_mesh: "relay_step C s (remove_mesh m s)"
| recv: "chans s c = Some q \<Longrightarrow> try_recv C q = Some (f, q') \<Longrightarrow> relay_step C s (s\<lparr>chans := (chans s)(c \<mapsto> q')\<rparr>)"
| drop: "chans s c = Some q \<Longrightarrow> relay_step C s (s\<lparr>chans := (chans s)(c \<mapsto> drop_rx C q)\<rparr>)"
| mesh_connect: "0 < n \<Longrightarrow> relay_step C s (s\<lparr>chans := (chans s)(MeshChan m \<mapsto> channel C n)\<rparr>)"
| mesh_reply: "relay_step C s (fst (chan_send C (MeshChan m) f s))"
| counter: "current_clients m = current_clients (metrics s) \<Longrightarrow> preferred_clients m = preferred_clients (metrics s) \<Longrightarrow>
    balance m = balance (metrics s) \<Longrightarrow> relay_step C s (s\<lparr>metrics := m\<rparr>)"

inductive_cases relay_stepE: "relay_step C s t"

lemma same_ctrl_counter:
  "current_clients m = current_clients (metrics s) \<Longrightarrow> preferred_clients m = preferred_clients (metrics s) \<Longrightarrow>
    same_ctrl s (s\<lparr>metrics := m\<rparr>)"
  by simp

lemma keeps_counter: "balance m = balance (metrics s) \<Longrightarrow> keeps s (s\<lparr>metrics := m\<rparr>)"
  by simp

lemma only_queues_chan_upd: "only_queues s (s\<lparr>chans := (chans s)(c \<mapsto> q)\<rparr>)"
  by (rule only_queues_chans) auto

definition relay_init :: "'ch Relay \<Rightarrow> bool" where
  "relay_init s \<longleftrightarrow> (\<exists>depth mkey. s = Relay_new depth mkey)"

abbreviation reachable :: "'ch mpsc \<Rightarrow> 'ch Relay \<Rightarrow> bool" where
  "reachable C \<equiv> reach relay_init (relay_step C)"

lemma relay_inv_step:
  assumes "relay_inv s" "relay_step C s t"
  shows "relay_inv t"
  using assms(2)
  by (cases rule: relay_stepE) (use assms(1) in \<open>auto intro: register_inv unregister_inv note_activity_inv note_preferred_inv watch_op_inv
      relay_inv_same_ctrl [OF same_ctrl_route] relay_inv_same_ctrl [OF same_ctrl_close_peer]
      relay_inv_same_ctrl [OF same_ctrl_send] relay_inv_same_ctrl [OF same_ctrl_restart]
      relay_inv_same_ctrl [OF same_ctrl_add_mesh_route] relay_inv_same_ctrl [OF same_ctrl_remove_mesh_route]
      relay_inv_same_ctrl [OF same_ctrl_remove_mesh] relay_inv_only_queues [OF only_queues_chan_upd]
      relay_inv_only_queues [OF only_queues_chan_send]
      relay_inv_same_ctrl [OF same_ctrl_counter]\<close>)

lemma relay_inv_init: "relay_init s \<Longrightarrow> relay_inv s"
  by (auto simp: relay_init_def Relay_new_def relay_inv_defs live_set_def preferred_set_def
      client_count_def Metrics_default_def)

interpretation relay: inductive_invariant relay_init "relay_step C" relay_inv for C
  by unfold_locales (auto intro: relay_inv_init relay_inv_step)

lemma live_keeps_unregister:
  assumes "relay_inv s" "i \<in> live_set s"
  shows "keeps s (unregister C i s)"
proof -
  have "peers_inv s" using assms(1) by (simp add: relay_inv_def)
  from live_handle [OF this assms(2)] obtain h ps where "heap s i = Some h"
    "map_of (peers s) (sh_key h) = Some ps" "pset_ok s (sh_key h) ps" by metis
  then show ?thesis by (intro keeps_unregister) (auto simp: pset_ok_def)
qed

lemma mesh_inv_keeps: "keeps s t \<Longrightarrow> mesh_inv s \<Longrightarrow> mesh_inv t"
  by (simp add: keeps_def mesh_inv_def)

lemma mesh_inv_step:
  assumes "relay_inv s" "mesh_inv s" "relay_step C s t"
  shows "mesh_inv t"
  using assms(3)
  by (cases rule: relay_stepE) (use assms(1,2) in \<open>auto intro: mesh_inv_keeps [OF keeps_register] mesh_inv_keeps [OF live_keeps_unregister]
      mesh_inv_keeps [OF keeps_note_activity] mesh_inv_keeps [OF keeps_note_preferred]
      mesh_inv_keeps [OF keeps_route] mesh_inv_keeps [OF keeps_watch] mesh_inv_keeps [OF keeps_close_peer]
      mesh_inv_keeps [OF keeps_send] mesh_inv_keeps [OF keeps_restart]
      mesh_inv_keeps [OF keeps_only_queues [OF only_queues_chan_upd]]
      mesh_inv_keeps [OF keeps_only_queues [OF only_queues_chan_send]] mesh_inv_keeps [OF keeps_counter]
      add_mesh_route_inv remove_mesh_route_inv remove_mesh_inv\<close>)

lemma mesh_inv_init: "relay_init s \<Longrightarrow> mesh_inv s"
  by (auto simp: relay_init_def Relay_new_def mesh_inv_def)

interpretation mesh: relative_invariant relay_init "relay_step C" relay_inv mesh_inv for C
  by unfold_locales (auto intro: mesh_inv_init mesh_inv_step)

lemma side_inv_mesh: "side_inv (s\<lparr>mesh_routes := mr\<rparr>) = side_inv s"
  by (simp add: side_inv_def rev_inv_def chan_inv_def)

lemma side_inv_mesh_ops:
  "side_inv s \<Longrightarrow> side_inv (add_mesh_route m k ch s)"
  "side_inv s \<Longrightarrow> side_inv (remove_mesh_route m k s)"
  "side_inv s \<Longrightarrow> side_inv (remove_mesh m s)"
proof -
  show r: "side_inv s \<Longrightarrow> side_inv (remove_mesh_route m k s)" for k s
    by (simp add: remove_mesh_route_def Let_def side_inv_mesh split: option.split)
  show "side_inv s \<Longrightarrow> side_inv (add_mesh_route m k ch s)"
    by (simp add: add_mesh_route_def Let_def side_inv_mesh)
  have "side_inv s \<Longrightarrow> side_inv (fold (remove_mesh_route m) ks s)" for ks
    by (induction ks arbitrary: s) (simp_all add: r)
  then show "side_inv s \<Longrightarrow> side_inv (remove_mesh m s)" by (simp add: remove_mesh_def)
qed

lemma side_inv_only_queues: "only_queues s t \<Longrightarrow> side_inv s \<Longrightarrow> side_inv t"
  by (rule side_inv_same_ctrl) (simp_all add: keeps_only_queues same_ctrl_only_queues relay_frame)

lemma side_close_peer:
  assumes "side_inv s"
  shows "side_inv (fst (close_peer i k s))"
proof (rule side_inv_same_ctrl [OF assms keeps_close_peer same_ctrl_close_peer])
  have "reverse_paths (fold close js s) = reverse_paths s" for js
    by (induction js arbitrary: s) (simp_all add: close_def upd_handle_def)
  then show "reverse_paths (fst (close_peer i k s)) = reverse_paths s"
    by (simp add: close_peer_def split: option.split)
qed

lemma only_queues_restart: "only_queues s (broadcast_restart C a b s)"
  unfolding broadcast_restart_def
  by (intro only_queues_fold) (auto intro: only_queues_fold only_queues_send)

lemma side_inv_step:
  assumes "relay_inv s" "side_inv s" "relay_step C s t"
  shows "side_inv t"
  using assms(3)
proof cases
  case (preferred i p)
  have "peers_inv s" using assms(1) by (simp add: relay_inv_def)
  from live_handle [OF this preferred(2)] obtain h where "heap s i = Some h" by blast
  with preferred assms(2) show ?thesis by (simp add: side_note_preferred)
next
  case (counter m)
  then show ?thesis using assms(2) by (simp add: side_inv_def rev_inv_def chan_inv_def)
qed (use assms(1,2) in \<open>auto intro: side_register side_unregister side_note_activity side_route side_watch
      side_close_peer side_inv_only_queues [OF only_queues_send] side_inv_only_queues [OF only_queues_restart]
      side_inv_only_queues [OF only_queues_chan_upd] side_inv_only_queues [OF only_queues_chan_send] side_inv_mesh_ops\<close>)

lemma side_inv_init: "relay_init s \<Longrightarrow> side_inv s"
  by (auto simp: relay_init_def Relay_new_def side_inv_def rev_inv_def chan_inv_def balance_def Metrics_default_def)

interpretation side: relative_invariant relay_init "relay_step C" relay_inv side_inv for C
  by unfold_locales (auto intro: side_inv_init side_inv_step)

lemmas reachable_relay_inv = relay.reach_inv
  and reachable_mesh_inv = mesh.reach_rel
  and reachable_side_inv = side.reach_rel

end
