(* ===== verification/Derp_Relay_Delivery.thy ===== *)
theory Derp_Relay_Delivery
  imports Derp_Relay_System
begin

text \<open>
  What the relay puts into which queue. The channels are described by what is pending in them and by
  how many further sends they accept (\<open>mpsc_ok\<close>, the documented behaviour of \<open>tokio::sync::mpsc\<close>);
  every sending operation is then a sequence of \<open>put\<close>s on the mailboxes, in which a full or closed
  mailbox loses the frame.
\<close>

definition mpsc_ok :: "'ch mpsc \<Rightarrow> ('ch \<Rightarrow> Frame list) \<Rightarrow> ('ch \<Rightarrow> nat) \<Rightarrow> bool" where
  "mpsc_ok C pend room \<longleftrightarrow>
     (\<forall>n>0. pend (channel C n) = [] \<and> room (channel C n) = n) \<and>
     (\<forall>f q. case try_send C f q of
              None \<Rightarrow> room q = 0
            | Some q' \<Rightarrow> pend q' = pend q @ [f] \<and> room q = Suc (room q')) \<and>
     (\<forall>q. case try_recv C q of
            None \<Rightarrow> pend q = []
          | Some (f, q') \<Rightarrow> pend q = f # pend q' \<and> room q' = Suc (room q)) \<and>
     (\<forall>q. pend (drop_rx C q) = [] \<and> room (drop_rx C q) = 0)"

type_synonym mailboxes = "chan_id \<Rightarrow> Frame list \<times> nat"

definition put :: "chan_id \<Rightarrow> Frame \<Rightarrow> mailboxes \<Rightarrow> mailboxes" where
  "put c f M = (case M c of (q, 0) \<Rightarrow> M | (q, Suc r) \<Rightarrow> M(c := (q @ [f], r)))"

definition boxes :: "('ch \<Rightarrow> Frame list) \<Rightarrow> ('ch \<Rightarrow> nat) \<Rightarrow> 'ch Relay \<Rightarrow> mailboxes" where
  "boxes pend room s c = (case chans s c of None \<Rightarrow> ([], 0) | Some q \<Rightarrow> (pend q, room q))"

text \<open>The mailbox that a session's frames go to.\<close>

definition offer :: "Frame \<Rightarrow> Frame list \<times> nat \<Rightarrow> Frame list \<times> nat" where
  "offer f b = (case b of (q, 0) \<Rightarrow> (q, 0) | (q, Suc r) \<Rightarrow> (q @ [f], r))"

lemma put_offer: "put c f M = M(c := offer f (M c))"
  by (auto simp: put_def offer_def fun_eq_iff split: prod.split nat.split)

lemma offer_simps [simp]: "offer f (q, 0) = (q, 0)" "offer f (q, Suc r) = (q @ [f], r)"
  by (simp_all add: offer_def)

lemma boxes_upd [simp]:
  "boxes pend room (s\<lparr>heap := H\<rparr>) = boxes pend room s"
  "boxes pend room (s\<lparr>peers := P\<rparr>) = boxes pend room s"
  "boxes pend room (s\<lparr>active_ix := A\<rparr>) = boxes pend room s"
  "boxes pend room (s\<lparr>watchers := W\<rparr>) = boxes pend room s"
  "boxes pend room (s\<lparr>reverse_paths := R\<rparr>) = boxes pend room s"
  "boxes pend room (s\<lparr>mesh_routes := MR\<rparr>) = boxes pend room s"
  "boxes pend room (s\<lparr>next_id := n\<rparr>) = boxes pend room s"
  "boxes pend room (s\<lparr>metrics := m\<rparr>) = boxes pend room s"
  "boxes pend room (upd_handle i g s) = boxes pend room s"
  "boxes pend room (received packet s) = boxes pend room s"
  "boxes pend room (count_in b s) = boxes pend room s"
  by (simp_all add: boxes_def fun_eq_iff upd_handle_def received_def count_in_def Let_def)

subsection \<open>Sends refine puts\<close>

lemma chan_send_boxes:
  assumes "mpsc_ok C pend room"
  shows "boxes pend room (fst (chan_send C c f s)) = put c f (boxes pend room s)"
    "snd (chan_send C c f s) \<longleftrightarrow> snd (boxes pend room s c) \<noteq> 0"
proof -
  have no: "try_send C f q = None \<Longrightarrow> room q = 0"
    and yes: "try_send C f q = Some q' \<Longrightarrow> pend q' = pend q @ [f] \<and> room q = Suc (room q')" for q q'
    using assms unfolding mpsc_ok_def by (metis (mono_tags, lifting) option.simps(4), metis (mono_tags, lifting) option.simps(5))
  show "boxes pend room (fst (chan_send C c f s)) = put c f (boxes pend room s)"
    by (auto simp: chan_send_def boxes_def put_offer fun_eq_iff no dest!: yes split: option.splits)
  show "snd (chan_send C c f s) \<longleftrightarrow> snd (boxes pend room s c) \<noteq> 0"
    by (auto simp: chan_send_def boxes_def no dest!: yes split: option.splits)
qed

lemma send_boxes:
  assumes "mpsc_ok C pend room" "heap s i = Some h"
  shows "boxes pend room (fst (send C i f s)) = put (sh_tx h) f (boxes pend room s)"
    "snd (send C i f s) \<longleftrightarrow> snd (boxes pend room s (sh_tx h)) \<noteq> 0"
  using chan_send_boxes [OF assms(1), of "sh_tx h" f s] assms(2)
  by (cases "chan_send C (sh_tx h) f s"; simp add: send_def split: bool.split)+

definition tx_ok :: "'ch Relay \<Rightarrow> SessionId \<Rightarrow> bool" where
  "tx_ok s i \<longleftrightarrow> (\<exists>h. heap s i = Some h \<and> sh_tx h = SessionChan i)"

lemma send_put:
  assumes "mpsc_ok C pend room" "tx_ok s i"
  shows "boxes pend room (fst (send C i f s)) = put (SessionChan i) f (boxes pend room s)"
  using assms send_boxes(1) [OF assms(1)] by (auto simp: tx_ok_def)

lemma tx_ok_only_queues [relay_frame]: "only_queues s t \<Longrightarrow> tx_ok t i = tx_ok s i"
  by (simp add: tx_ok_def relay_frame)

lemma tx_ok_send [simp]: "tx_ok (fst (send C i f s)) j = tx_ok s j"
  by (simp add: tx_ok_only_queues [OF only_queues_send])

lemma tx_ok_upd_handle: "(\<And>h. sh_tx (g h) = sh_tx h) \<Longrightarrow> tx_ok (upd_handle i g s) j = tx_ok s j"
  by (auto simp: tx_ok_def upd_handle_def)

lemma tx_ok_ids: "ids_inv s \<Longrightarrow> heap s i = Some h \<Longrightarrow> tx_ok s i"
  by (auto simp: tx_ok_def ids_inv_def)

lemma session_tx_ok:
  assumes "relay_inv s" "map_of (peers s) k = Some ps" "j \<in> set (sessions ps)"
  shows "tx_ok s j"
proof -
  have "pset_ok s k ps" using assms by (simp add: relay_inv_def peers_inv_def)
  with assms(3) show ?thesis unfolding pset_ok_def tx_ok_def by blast
qed

lemma PeerSet_active_member: "PeerSet_active ps = Some d \<Longrightarrow> d \<in> set (sessions ps)"
  by (auto simp: PeerSet_active_def find_Some_iff split: option.splits if_splits) (metis nth_mem)

lemma active_registered:
  assumes "relay_inv s" "active_ix s k = Some d"
  obtains ps h where "map_of (peers s) k = Some ps" "d \<in> set (sessions ps)" "heap s d = Some h"
    "sh_id h = d" "sh_key h = k" "sh_tx h = SessionChan d"
proof -
  from assms obtain ps where ps: "map_of (peers s) k = Some ps" "PeerSet_active ps = Some d"
    by (cases "map_of (peers s) k") (auto simp: relay_inv_def index_inv_def)
  from ps(2) have d: "d \<in> set (sessions ps)" by (rule PeerSet_active_member)
  have "pset_ok s k ps" using assms(1) ps(1) by (simp add: relay_inv_def peers_inv_def)
  with d ps(1) that show thesis unfolding pset_ok_def by blast
qed

lemma active_tx_ok: "relay_inv s \<Longrightarrow> active_ix s k = Some d \<Longrightarrow> tx_ok s d"
  by (elim active_registered) (auto simp: tx_ok_def)

text \<open>A loop that sends, whose body may also set fields of the handles it visits.\<close>

lemma fold_puts:
  assumes "\<And>x s. tx_ok s (tgt x) \<Longrightarrow> boxes pend room (B x s) = put (SessionChan (tgt x)) (frm x) (boxes pend room s)"
    and "\<And>x s j. tx_ok s j \<Longrightarrow> tx_ok (B x s) j"
    and "\<forall>x\<in>set xs. tx_ok s (tgt x)"
  shows "boxes pend room (fold B xs s) = fold (\<lambda>x. put (SessionChan (tgt x)) (frm x)) xs (boxes pend room s)"
  using assms(3) by (induction xs arbitrary: s) (simp_all add: assms(1,2))

lemma fold_put_boxes:
  assumes "mpsc_ok C pend room" "\<forall>i\<in>set js. tx_ok s i"
  shows "boxes pend room (fold (\<lambda>i s. fst (send C i f s)) js s) =
           fold (\<lambda>i. put (SessionChan i) f) js (boxes pend room s)"
  using assms by (intro fold_puts) (simp_all add: send_put)

text \<open>One frame to every session of a list without repetitions.\<close>

lemma fold_put_once:
  "distinct js \<Longrightarrow> fold (\<lambda>i. put (SessionChan i) f) js M c =
     (case c of SessionChan i \<Rightarrow> if i \<in> set js then offer f (M c) else M c | MeshChan m \<Rightarrow> M c)"
  by (induction js arbitrary: M) (auto simp: put_offer split: chan_id.split)

lemma put_mono: "g \<in> set (fst (M c)) \<Longrightarrow> g \<in> set (fst (put d f M c))"
  by (auto simp: put_def split: prod.split nat.split)

lemma fold_put_mono:
  "g \<in> set (fst (M c)) \<Longrightarrow> g \<in> set (fst (fold (\<lambda>i. put (SessionChan i) f) js M c))"
  by (induction js arbitrary: M) (simp_all add: put_mono)

lemma fold_put_in:
  "i \<in> set js \<Longrightarrow> snd (M (SessionChan i)) \<noteq> 0 \<or> f \<in> set (fst (M (SessionChan i))) \<Longrightarrow>
     f \<in> set (fst (fold (\<lambda>i. put (SessionChan i) f) js M (SessionChan i)))"
proof (induction js arbitrary: M)
  case (Cons j js)
  show ?case
  proof (cases "j = i")
    case True
    with Cons.prems(2) have "f \<in> set (fst (put (SessionChan j) f M (SessionChan i)))"
      by (auto simp: put_offer offer_def split: prod.split nat.split)
    then show ?thesis by (simp add: fold_put_mono)
  next
    case False
    with Cons show ?thesis by (simp add: put_offer)
  qed
qed simp

subsection \<open>What the operations put\<close>

lemma fold_skip: "fold (\<lambda>w s. if w \<noteq> i then g w s else s) ws s = fold g (removeAll i ws) s"
  by (induction ws arbitrary: s) auto

lemma broadcast_boxes:
  assumes "mpsc_ok C pend room" "watch_inv s" "ids_inv s" "heap s i = Some h"
  shows "boxes pend room (broadcast_presence C i b s) =
    fold (\<lambda>w. put (SessionChan w) (if b then PeerPresent (sh_key h) (Some (endpoint h)) (Some (flags h)) []
                                   else PeerGone (sh_key h) DISCONNECTED))
      (removeAll i (watchers s)) (boxes pend room s)"
proof -
  have "\<forall>w\<in>set (removeAll i (watchers s)). tx_ok s w"
    using assms(2,3) by (auto simp: watch_inv_def intro: tx_ok_ids)
  from fold_put_boxes [OF assms(1) this] assms(4) show ?thesis
    by (simp add: broadcast_presence_def Let_def fold_skip)
qed

lemma try_routes_boxes:
  assumes "mpsc_ok C pend room"
  shows "boxes pend room (fst (try_routes C f rs s)) =
      (case find (\<lambda>r. snd (boxes pend room s (mr_tx r)) \<noteq> 0) rs of
         None \<Rightarrow> boxes pend room s | Some r \<Rightarrow> put (mr_tx r) f (boxes pend room s))" (is ?P)
    and "snd (try_routes C f rs s) \<longleftrightarrow> (\<exists>r\<in>set rs. snd (boxes pend room s (mr_tx r)) \<noteq> 0)" (is ?Q)
proof -
  have "?P \<and> ?Q"
  proof (induction rs arbitrary: s)
    case (Cons r rs)
    obtain t ok where t: "chan_send C (mr_tx r) f s = (t, ok)" by fastforce
    note b = chan_send_boxes [OF assms, of "mr_tx r" f s, unfolded t fst_conv snd_conv]
    show ?case
    proof (cases ok)
      case False
      with b have "boxes pend room t = boxes pend room s" by (auto simp: put_def split: prod.split)
      with False b Cons [of t] show ?thesis by (simp add: t split: option.split)
    qed (use b t in simp)
  qed simp
  then show ?P ?Q by blast+
qed

lemma not_here_boxes:
  assumes "mpsc_ok C pend room" "heap s i = Some h"
  shows "boxes pend room (send_peer_not_here C now i peer packet s) =
    (if looks_like_disco_wrapper packet \<and> snd (allow now (peer_gone_limiter h))
     then put (sh_tx h) (PeerGone peer NOT_HERE) (boxes pend room s) else boxes pend room s)"
proof -
  obtain l ok where l: "allow now (peer_gone_limiter h) = (l, ok)" by fastforce
  have "heap (upd_handle i (\<lambda>h. h\<lparr>peer_gone_limiter := l\<rparr>) s) i = Some (h\<lparr>peer_gone_limiter := l\<rparr>)"
    using assms(2) by (simp add: upd_handle_def)
  from send_boxes(1) [OF assms(1) this] assms(2) l show ?thesis
    by (simp add: send_peer_not_here_def Let_def)
qed

lemma route_local_boxes:
  assumes "mpsc_ok C pend room" "heap s d = Some h"
  shows "boxes pend room (route_local C d src dst packet s) =
    put (sh_tx h) (RecvPacket src packet) (boxes pend room s)"
proof -
  obtain t ok where t: "send C d (RecvPacket src packet) s = (t, ok)" by fastforce
  from send_boxes(1) [OF assms, of "RecvPacket src packet"] t show ?thesis
    by (simp add: route_local_def Let_def split: bool.split option.split)
qed

lemma forward_boxes:
  assumes "mpsc_ok C pend room"
  shows "boxes pend room (fst (forward_to_mesh C src dst packet s)) =
      (case find (\<lambda>r. snd (boxes pend room s (mr_tx r)) \<noteq> 0) (routes_of s dst) of
         None \<Rightarrow> boxes pend room s
       | Some r \<Rightarrow> put (mr_tx r) (ForwardPacket src dst packet) (boxes pend room s))"
    "snd (forward_to_mesh C src dst packet s) \<longleftrightarrow>
       (\<exists>r\<in>set (routes_of s dst). snd (boxes pend room s (mr_tx r)) \<noteq> 0)"
  by (cases "map_of (mesh_routes s) dst";
      simp add: forward_to_mesh_def routes_of_def try_routes_boxes [OF assms] split: option.split)+

lemma received_fields [simp]:
  "heap (received packet s) = heap s" "mesh_routes (received packet s) = mesh_routes s"
  "routes_of (received packet s) k = routes_of s k"
  by (simp_all add: received_def Let_def routes_of_def)

text \<open>The mailboxes after \<open>route\<close>, on every branch.\<close>

lemma route_boxes:
  assumes ok: "mpsc_ok C pend room" and h: "heap s source = Some h"
    and d: "\<And>d. active_ix s dst = Some d \<Longrightarrow> \<exists>h. heap s d = Some h \<and> sh_tx h = SessionChan d"
  shows "boxes pend room (route C now source src dst packet forwarded s) =
    (case active_ix s dst of
       Some d \<Rightarrow> put (SessionChan d) (RecvPacket src packet) (boxes pend room s)
     | None \<Rightarrow>
        (case (if forwarded then None
               else find (\<lambda>r. snd (boxes pend room s (mr_tx r)) \<noteq> 0) (routes_of s dst)) of
           Some r \<Rightarrow> put (mr_tx r) (ForwardPacket src dst packet) (boxes pend room s)
         | None \<Rightarrow>
            (if looks_like_disco_wrapper packet \<and> snd (allow now (peer_gone_limiter h))
             then put (sh_tx h) (PeerGone dst NOT_HERE) (boxes pend room s) else boxes pend room s)))"
proof (cases "active_ix s dst")
  case (Some e)
  with d obtain he where "heap s e = Some he" "sh_tx he = SessionChan e" by blast
  with Some route_local_boxes [OF ok, of "received packet s" e he src dst packet] show ?thesis
    by (simp add: route_split)
next
  case None
  let ?r = "received packet s"
  show ?thesis
  proof (cases forwarded)
    case True
    with None not_here_boxes [OF ok, of _ source h now dst packet] h show ?thesis
      by (simp add: route_split route_remote_def)
  next
    case False
    obtain t sent where t: "forward_to_mesh C src dst packet ?r = (t, sent)" by fastforce
    have ht: "heap t source = Some h"
      using only_queues_fields(1) [OF only_queues_forward [of ?r C src dst packet]] h by (simp add: t)
    note f = forward_boxes [OF ok, of src dst packet ?r, unfolded t fst_conv snd_conv]
    show ?thesis
    proof (cases sent)
      case True
      with f(2) have "find (\<lambda>r. snd (boxes pend room s (mr_tx r)) \<noteq> 0) (routes_of s dst) \<noteq> None"
        by (auto simp: find_None_iff)
      with f(1) True False None t show ?thesis
        by (auto simp: route_split route_remote_def)
    next
      case nf: False
      with f(2) have "find (\<lambda>r. snd (boxes pend room s (mr_tx r)) \<noteq> 0) (routes_of s dst) = None"
        by (simp add: find_None_iff)
      with f(1) nf False None t ht not_here_boxes [OF ok, of _ source h now dst packet] show ?thesis
        by (simp add: route_split route_remote_def)
    qed
  qed
qed

text \<open>
  Registration opens an empty mailbox, tells every session of the key that it is a duplicate if there
  is more than one, and announces the peer to every other watcher.
\<close>

lemma register_boxes:
  assumes ok: "mpsc_ok C pend room" and inv: "relay_inv s" and left: "ids_left s" and qd: "0 < queue_depth s"
    and h: "h = new_handle (next_id s) now key ep mesh ack prober nideal"
  shows "boxes pend room (snd (register C now key ep mesh ack prober nideal s)) =
    fold (\<lambda>w. put (SessionChan w) (PeerPresent key (Some ep) (Some (flags h)) [])) (watchers s)
      ((if 1 < length (joined key s)
        then fold (\<lambda>i. put (SessionChan i) (Health DUPLICATE_HEALTH)) (joined key s) else (\<lambda>M. M))
        ((boxes pend room s)(SessionChan (next_id s) := ([], queue_depth s))))"
proof -
  define s1 where "s1 = s\<lparr>next_id := next_id s + 1,
    chans := (chans s)(SessionChan (next_id s) \<mapsto> channel C (queue_depth s)),
    heap := (heap s)(next_id s \<mapsto> h),
    peers := AList.update key \<lparr>sessions = joined key s, ps_active = next_id s\<rparr> (peers s),
    active_ix := (active_ix s)(key \<mapsto> next_id s)\<rparr>"
  define s2 where "s2 = (if 1 < length (joined key s)
      then fold (\<lambda>i s. fst (send C i (Health DUPLICATE_HEALTH)
                 (upd_handle i (\<lambda>h. h\<lparr>duplicate := True\<rparr>) s))) (joined key s) s1 else s1)"
  let ?s3 = "upd_metrics (\<lambda>m. m\<lparr>current_clients := inc (current_clients m) 1\<rparr>) s2"
  have reg: "snd (register C now key ep mesh ack prober nideal s) = broadcast_presence C (next_id s) True ?s3"
    by (cases "map_of (peers s) key")
      (simp_all add: register_def Let_def s2_def s1_def h joined_def new_handle_def)
  have b1: "boxes pend room s1 = (boxes pend room s)(SessionChan (next_id s) := ([], queue_depth s))"
    using ok qd by (auto simp: s1_def boxes_def fun_eq_iff mpsc_ok_def)
  have "tx_ok s1 j" if "j \<in> set (joined key s)" for j
  proof (cases "j = next_id s")
    case True
    then show ?thesis by (simp add: s1_def tx_ok_def h new_handle_def)
  next
    case False
    with that obtain ps where "map_of (peers s) key = Some ps" "j \<in> set (sessions ps)"
      by (cases "map_of (peers s) key") (auto simp: joined_def)
    from session_tx_ok [OF inv this] False show ?thesis by (simp add: tx_ok_def s1_def)
  qed
  then have b2: "boxes pend room s2 = (if 1 < length (joined key s)
      then fold (\<lambda>i. put (SessionChan i) (Health DUPLICATE_HEALTH)) (joined key s) else (\<lambda>M. M)) (boxes pend room s1)"
    unfolding s2_def by (auto intro!: fold_puts simp: send_put [OF ok] tx_ok_upd_handle)
  have q: "only_queues (s1\<lparr>heap := mark_dup (joined key s) (heap s1)\<rparr>) s2"
    using mark_and_send [where g = "\<lambda>h. h\<lparr>duplicate := True\<rparr>" and s = s1 and js = "joined key s"]
    by (auto simp: s2_def mark_dup_def)
  note f = only_queues_fields [OF q]
  have w: "watchers ?s3 = watchers s" by (simp add: f s1_def)
  have fresh: "next_id s \<notin> set (watchers s)"
    using inv fresh_id [of s] by (auto simp: relay_inv_def watch_inv_def)
  have dup: "\<exists>d. heap ?s3 (next_id s) = Some (h\<lparr>duplicate := d\<rparr>)"
    by (cases h) (auto simp: f s1_def mark_dup_def)
  then obtain dd where dd: "heap ?s3 (next_id s) = Some (h\<lparr>duplicate := dd\<rparr>)" by blast
  have "tx_ok ?s3 w" if "w \<in> set (watchers s)" for w
  proof -
    from inv that obtain hw where "heap s w = Some hw" "sh_tx hw = SessionChan w"
      by (auto simp: relay_inv_def watch_inv_def ids_inv_def)
    moreover have "w \<noteq> next_id s" using fresh that by auto
    ultimately show ?thesis by (simp add: f s1_def mark_dup_def tx_ok_def)
  qed
  then have "\<forall>w\<in>set (watchers s). tx_ok ?s3 w" by blast
  from fold_put_boxes [OF ok this] show ?thesis
    unfolding reg using dd w fresh
    by (simp add: broadcast_presence_def Let_def fold_skip b2 b1 flags_def h new_handle_def)
qed

text \<open>
  When the last session of a key leaves, every watcher and every session that has received packets
  from the key is told.
\<close>

definition gone_targets :: "NodeKey \<Rightarrow> 'ch Relay \<Rightarrow> SessionId list" where
  "gone_targets k s =
     List.map_filter (\<lambda>w. if w = k then None else active_ix s w)
       (case reverse_paths s k of None \<Rightarrow> [] | Some ws \<Rightarrow> ws)"

lemma fold_filter_sends:
  assumes "mpsc_ok C pend room" "\<And>w d. A w = Some d \<Longrightarrow> tx_ok s d" "active_ix s = A"
  shows "boxes pend room (fold (\<lambda>w s. case active w s of None \<Rightarrow> s | Some d \<Rightarrow> fst (send C d f s)) ws s) =
    fold (\<lambda>d. put (SessionChan d) f) (List.map_filter A ws) (boxes pend room s)"
  using assms(2,3)
proof (induction ws arbitrary: s)
  case (Cons w ws)
  have "active_ix (fst (send C d f s)) = A" for d
    using Cons.prems(2) only_queues_fields(3) [OF only_queues_send] by metis
  with Cons show ?case
    by (auto simp: active_def map_filter_simps send_put [OF assms(1)] split: option.split)
qed (simp add: map_filter_simps)

lemma unregister_boxes_gone:
  assumes ok: "mpsc_ok C pend room" and inv: "relay_inv s" and h: "heap s i = Some h"
    and ps: "map_of (peers s) (sh_key h) = Some ps" "sessions ps = [i]"
  shows "boxes pend room (unregister C i s) =
    fold (\<lambda>d. put (SessionChan d) (PeerGone (sh_key h) DISCONNECTED))
      (removeAll i (watchers s) @ gone_targets (sh_key h) s) (boxes pend room s)"
proof -
  let ?k = "sh_key h" and ?h = "h\<lparr>sh_closed := True, preferred := False\<rparr>"
    and ?f = "PeerGone (sh_key h) DISCONNECTED"
  have "filter (\<lambda>j. j \<noteq> i) (sessions ps) = []" using ps(2) by simp
  from unregister_begin_last [OF h ps(1) this, of C]
  obtain s1 where s1: "unregister_begin C i s = (s1, True)" "heap s1 = (heap s)(i \<mapsto> ?h)"
    "watchers s1 = removeAll i (watchers s)" "active_ix s1 = active_ix s" "reverse_paths s1 = reverse_paths s"
    "boxes pend room s1 = boxes pend room s" "next_id s1 = next_id s" by auto
  define s2 where "s2 = s1\<lparr>peers := AList.delete ?k (peers s1), active_ix := (active_ix s1)(?k := None)\<rparr>"
  define s3 where "s3 = broadcast_presence C i False s2"
  have tx: "heap s j = Some hj \<Longrightarrow> tx_ok s j" for j hj
    using inv by (auto simp: relay_inv_def intro: tx_ok_ids)
  have tx2: "tx_ok s2 j = tx_ok s j" for j by (auto simp: s2_def s1 tx_ok_def h)
  have h2: "heap s2 i = Some ?h" "watchers s2 = removeAll i (watchers s)" by (simp_all add: s2_def s1)
  have "\<forall>w\<in>set (removeAll i (watchers s)). tx_ok s2 w"
    using inv tx by (auto simp: relay_inv_def watch_inv_def tx2)
  from fold_put_boxes [OF ok this] have b3: "boxes pend room s3 =
      fold (\<lambda>w. put (SessionChan w) ?f) (removeAll i (watchers s)) (boxes pend room s)"
    by (simp add: s3_def broadcast_presence_def h2 fold_skip Let_def removeAll_filter_not_eq) (simp add: s2_def s1)
  have q: "only_queues s2 s3" by (simp add: s3_def only_queues_broadcast)
  note f3 = only_queues_fields [OF q]
  have act: "active_ix s3 = (\<lambda>w. if w = ?k then None else active_ix s w)"
    by (simp add: f3 s2_def s1 fun_eq_iff)
  have rp: "reverse_paths s3 = reverse_paths s" by (simp add: f3 s2_def s1)
  have txa: "(if w = ?k then None else active_ix s w) = Some d \<Longrightarrow> tx_ok s3 d" for w d
    using active_tx_ok [OF inv] by (auto simp: tx_ok_only_queues [OF q] tx2 split: if_splits)
  have u: "boxes pend room (unregister C i s) = boxes pend room (case reverse_paths s3 ?k of
        None \<Rightarrow> s3
      | Some ws \<Rightarrow> fold (\<lambda>w s. case active w s of None \<Rightarrow> s | Some d \<Rightarrow> fst (send C d ?f s)) ws
                    (s3\<lparr>reverse_paths := (reverse_paths s3)(?k := None)\<rparr>))"
    unfolding s3_def s2_def
    by (simp add: unregister_def s1(1) unregister_finish_def s1(2) Let_def cong: option.case_cong)
  show ?thesis
  proof (cases "reverse_paths s ?k")
    case None
    then show ?thesis by (simp add: u rp b3 gone_targets_def map_filter_simps)
  next
    case (Some ws)
    let ?s4 = "s3\<lparr>reverse_paths := (reverse_paths s3)(?k := None)\<rparr>"
    have "tx_ok ?s4 d = tx_ok s3 d" for d by (simp add: tx_ok_def)
    with txa act have "boxes pend room (fold (\<lambda>w s. case active w s of None \<Rightarrow> s | Some d \<Rightarrow> fst (send C d ?f s)) ws ?s4) =
      fold (\<lambda>d. put (SessionChan d) ?f) (List.map_filter (\<lambda>w. if w = ?k then None else active_ix s w) ws) (boxes pend room ?s4)"
      by (intro fold_filter_sends [OF ok]) auto
    with Some show ?thesis by (simp add: u rp b3 gone_targets_def)
  qed
qed

text \<open>A new watcher is told the active session of every registered key.\<close>

definition present_frame :: "'ch Relay \<Rightarrow> NodeKey \<times> PeerSet \<Rightarrow> Frame" where
  "present_frame s kp =
     (let h = the (heap s (the (active_ix s (fst kp))))
      in PeerPresent (fst kp) (Some (endpoint h)) (Some (flags h)) [])"

lemma fold_put_same:
  "fold (put c) fs M = M(c := (fst (M c) @ take (snd (M c)) fs, snd (M c) - length fs))"
proof (induction fs arbitrary: M)
  case (Cons f fs)
  obtain q r where m: "M c = (q, r)" by (cases "M c")
  then have "put c f M = (case r of 0 \<Rightarrow> M | Suc r' \<Rightarrow> M(c := (q @ [f], r')))" by (simp add: put_def)
  with m show ?case by (cases r) (simp_all add: Cons.IH fun_eq_iff)
qed simp

lemma watch_boxes:
  assumes ok: "mpsc_ok C pend room" and inv: "relay_inv s" and h: "heap s i = Some h" "can_mesh h"
  shows "boxes pend room (fst (watch C i s)) =
    fold (put (SessionChan i)) (map (present_frame s) (peers s)) (boxes pend room s)"
proof -
  let ?B = "\<lambda>(key, pset) t. case Option.bind (PeerSet_active pset) (heap t) of
      None \<Rightarrow> t
    | Some a \<Rightarrow> fst (send C i (PeerPresent key (Some (endpoint a)) (Some (flags a)) []) t)"
  let ?s0 = "s\<lparr>watchers := List.insert i (watchers s)\<rparr>"
  have tx: "tx_ok s i" using inv h(1) by (auto simp: relay_inv_def intro: tx_ok_ids)
  have "boxes pend room (fold ?B xs t) = fold (put (SessionChan i)) (map (present_frame s) xs) (boxes pend room t)"
    if "heap t = heap s" "set xs \<subseteq> set (peers s)" for xs t
    using that
  proof (induction xs arbitrary: t)
    case (Cons x xs)
    obtain k ps where x: "x = (k, ps)" by (cases x)
    have dist: "distinct (map fst (peers s))" using inv by (simp add: relay_inv_def peers_inv_def)
    with Cons.prems(2) x have lk: "map_of (peers s) k = Some ps" by simp
    then have "pset_ok s k ps" and ix: "active_ix s k = PeerSet_active ps"
      using inv by (simp_all add: relay_inv_def peers_inv_def index_inv_def)
    then obtain d where d: "PeerSet_active ps = Some d"
      by (cases "PeerSet_active ps") (auto simp: PeerSet_active_def pset_ok_def split: option.splits)
    with ix inv obtain a where a: "heap s d = Some a" by (metis active_registered)
    have "?B x t = fst (send C i (present_frame s x) t)"
      using Cons.prems(1) d a ix by (simp add: x present_frame_def)
    moreover have "tx_ok t i" using tx Cons.prems(1) by (simp add: tx_ok_def)
    moreover have "heap (fst (send C i (present_frame s x) t)) = heap s"
      using Cons.prems(1) by (simp add: only_queues_fields(1) [OF only_queues_send])
    ultimately show ?case using Cons by (simp add: send_put [OF ok])
  qed simp
  from this [of ?s0 "peers s"] show ?thesis using h by (simp add: watch_def Let_def)
qed

text \<open>When one of several sessions of a key leaves, only a single remaining session is told.\<close>

lemma unregister_boxes_stay:
  assumes ok: "mpsc_ok C pend room" and inv: "relay_inv s" and h: "heap s i = Some h"
    and ps: "map_of (peers s) (sh_key h) = Some ps"
    and xs: "xs = filter (\<lambda>j. j \<noteq> i) (sessions ps)" "xs \<noteq> []"
  shows "boxes pend room (unregister C i s) =
    (if length xs = 1 then put (SessionChan (hd xs)) (Health []) (boxes pend room s) else boxes pend room s)"
proof -
  define s1 where "s1 = s\<lparr>watchers := removeAll i (watchers s),
       heap := (heap s)(i \<mapsto> h\<lparr>sh_closed := True, preferred := False\<rparr>),
       metrics := (if preferred h then (metrics s)\<lparr>preferred_clients := dec (preferred_clients (metrics s))\<rparr>
                   else metrics s),
       peers := AList.update (sh_key h) \<lparr>sessions = xs, ps_active = last xs\<rparr> (peers s),
       active_ix := (active_ix s)(sh_key h \<mapsto> last xs)\<rparr>"
  have eq: "unregister_begin C i s = ((if length xs = 1 then fst (send C (hd xs) (Health [])
      (upd_handle (hd xs) (\<lambda>h. h\<lparr>duplicate := False\<rparr>) s1)) else s1), False)"
    using h ps xs by (simp add: unregister_begin_def close_def upd_handle_def Let_def s1_def)
  have "tx_ok s1 (hd xs)"
  proof -
    have m: "hd xs \<in> set (sessions ps)" "hd xs \<noteq> i" using hd_in_set [OF xs(2)] by (auto simp: xs(1))
    from session_tx_ok [OF inv ps m(1)] m(2) show ?thesis by (simp add: s1_def tx_ok_def)
  qed
  then have "boxes pend room (fst (unregister_begin C i s)) =
    (if length xs = 1 then put (SessionChan (hd xs)) (Health []) (boxes pend room s) else boxes pend room s)"
    by (simp add: eq send_put [OF ok] tx_ok_upd_handle) (simp add: s1_def)
  moreover have "boxes pend room (unregister_finish C i False t) = boxes pend room t" for t
    by (simp add: unregister_finish_def Let_def split: option.split)
  ultimately show ?thesis by (simp add: unregister_def eq)
qed

lemma live_tx:
  assumes "relay_inv s" "i \<in> live_set s"
  obtains h where "heap s i = Some h" "sh_id h = i" "sh_tx h = SessionChan i"
proof -
  have "peers_inv s" using assms(1) by (simp add: relay_inv_def)
  from live_handle [OF this assms(2)] obtain h where h: "heap s i = Some h" "sh_id h = i" by metis
  with assms(1) have "sh_tx h = SessionChan i" by (auto simp: relay_inv_def ids_inv_def)
  with h that show thesis by blast
qed

lemma route_boxes_live:
  assumes ok: "mpsc_ok C pend room" and inv: "relay_inv s" and h: "heap s i = Some h"
  shows "boxes pend room (route C now i src dst packet forwarded s) =
    (case active dst s of
       Some d \<Rightarrow> put (SessionChan d) (RecvPacket src packet) (boxes pend room s)
     | None \<Rightarrow>
        (case (if forwarded then None
               else find (\<lambda>r. snd (boxes pend room s (mr_tx r)) \<noteq> 0) (routes_of s dst)) of
           Some r \<Rightarrow> put (mr_tx r) (ForwardPacket src dst packet) (boxes pend room s)
         | None \<Rightarrow>
            (if looks_like_disco_wrapper packet \<and> snd (allow now (peer_gone_limiter h))
             then put (SessionChan i) (PeerGone dst NOT_HERE) (boxes pend room s) else boxes pend room s)))"
proof -
  have tx: "SessionChan i = sh_tx h" using inv h by (simp add: relay_inv_def ids_inv_def)
  have d: "\<exists>h. heap s d = Some h \<and> sh_tx h = SessionChan d" if "active_ix s dst = Some d" for d
    using active_tx_ok [OF inv that] by (simp add: tx_ok_def)
  show ?thesis unfolding tx active_def by (rule route_boxes [OF ok h d])
qed

subsection \<open>Bounded queues\<close>

definition occ :: "mailboxes \<Rightarrow> chan_id \<Rightarrow> nat" where
  "occ M c = length (fst (M c)) + snd (M c)"

text \<open>A session's channel holds at most \<open>queue_depth\<close> frames, whatever was sent to it.\<close>

definition cap_inv :: "('ch \<Rightarrow> Frame list) \<Rightarrow> ('ch \<Rightarrow> nat) \<Rightarrow> 'ch Relay \<Rightarrow> bool" where
  "cap_inv pend room s \<longleftrightarrow> (\<forall>i. occ (boxes pend room s) (SessionChan i) \<le> queue_depth s)"

lemma occ_put [simp]: "occ (put c f M) = occ M"
  by (auto simp: occ_def put_def fun_eq_iff split: prod.split nat.split)

lemma occ_fold_put [simp]: "occ (fold (\<lambda>x. put (c x) (f x)) xs M) = occ M"
  by (induction xs arbitrary: M) simp_all

lemma occ_send: "mpsc_ok C pend room \<Longrightarrow> occ (boxes pend room (fst (send C i f s))) = occ (boxes pend room s)"
  using send_boxes(1) [of C pend room s i] by (cases "heap s i") (auto simp: send_def)

lemma occ_fold: "(\<And>x s. occ (boxes pend room (g x s)) = occ (boxes pend room s)) \<Longrightarrow>
    occ (boxes pend room (fold g xs s)) = occ (boxes pend room s)"
  by (induction xs arbitrary: s) simp_all

lemma cap_invI:
  "cap_inv pend room s \<Longrightarrow> queue_depth t = queue_depth s \<Longrightarrow>
   occ (boxes pend room t) = occ (boxes pend room s) \<Longrightarrow> cap_inv pend room t"
  by (simp add: cap_inv_def)

lemma filter_remove_last:
  assumes "distinct xs" "i \<in> set xs" "filter (\<lambda>j. j \<noteq> i) xs = []"
  shows "xs = [i]"
  using assms length_filter_remove [OF assms(1,2)] by (cases xs) auto

lemma occ_unregister:
  assumes "mpsc_ok C pend room" "relay_inv s" "i \<in> live_set s"
  shows "occ (boxes pend room (unregister C i s)) = occ (boxes pend room s)"
proof -
  have "peers_inv s" using assms(2) by (simp add: relay_inv_def)
  from live_handle [OF this assms(3)] obtain h ps where h: "heap s i = Some h"
    "map_of (peers s) (sh_key h) = Some ps" "i \<in> set (sessions ps)" "pset_ok s (sh_key h) ps" by metis
  show ?thesis
  proof (cases "filter (\<lambda>j. j \<noteq> i) (sessions ps) = []")
    case True
    with h(3,4) have "sessions ps = [i]" by (intro filter_remove_last) (simp_all add: pset_ok_def)
    then show ?thesis by (simp add: unregister_boxes_gone [OF assms(1,2) h(1,2)])
  next
    case False
    then show ?thesis by (simp add: unregister_boxes_stay [OF assms(1,2) h(1,2) refl])
  qed
qed

lemma occ_quiet:
  "boxes pend room (note_activity i s) = boxes pend room s"
  "boxes pend room (note_preferred i p s) = boxes pend room s"
  "boxes pend room (fst (close_peer i k s)) = boxes pend room s"
  "boxes pend room (add_mesh_route m k ch s) = boxes pend room s"
  "boxes pend room (remove_mesh_route m k s) = boxes pend room s"
  "boxes pend room (remove_mesh m s) = boxes pend room s"
proof -
  have c: "boxes pend room (fold close js s) = boxes pend room s" for js s
    by (induction js arbitrary: s) (simp_all add: close_def)
  show r: "boxes pend room (remove_mesh_route m k s) = boxes pend room s" for k s
    by (simp add: remove_mesh_route_def Let_def split: option.split)
  have "boxes pend room (fold (remove_mesh_route m) ks s) = boxes pend room s" for ks s
    by (induction ks arbitrary: s) (simp_all add: r)
  then show "boxes pend room (remove_mesh m s) = boxes pend room s" by (simp add: remove_mesh_def)
  show "boxes pend room (note_activity i s) = boxes pend room s"
    by (simp add: note_activity_def Let_def split: option.split)
  show "boxes pend room (note_preferred i p s) = boxes pend room s"
    by (simp add: note_preferred_def Let_def split: option.split)
  show "boxes pend room (fst (close_peer i k s)) = boxes pend room s"
    by (simp add: close_peer_def c split: option.split)
  show "boxes pend room (add_mesh_route m k ch s) = boxes pend room s"
    by (simp add: add_mesh_route_def Let_def)
qed

lemma keeps_depth: "keeps s t \<Longrightarrow> queue_depth t = queue_depth s"
  by (simp add: keeps_def)

lemma mesh_depth:
  "queue_depth (add_mesh_route m k ch s) = queue_depth s"
  "queue_depth (remove_mesh_route m k s) = queue_depth s"
  "queue_depth (remove_mesh m s) = queue_depth s"
proof -
  show r: "queue_depth (remove_mesh_route m k s) = queue_depth s" for k s
    by (simp add: remove_mesh_route_def Let_def split: option.split)
  have "queue_depth (fold (remove_mesh_route m) ks s) = queue_depth s" for ks s
    by (induction ks arbitrary: s) (simp_all add: r)
  then show "queue_depth (remove_mesh m s) = queue_depth s" by (simp add: remove_mesh_def)
qed (simp add: add_mesh_route_def Let_def)

lemma cap_inv_step:
  assumes ok: "mpsc_ok C pend room" and inv: "relay_inv s" "side_inv s" "cap_inv pend room s"
    and step: "relay_step C s t"
  shows "cap_inv pend room t"
proof -
  have live: "\<exists>h. heap s i = Some h" if "i \<in> live_set s" for i
    using inv(1) that by (auto simp: relay_inv_def elim: live_handle)
  have took: "room q' + length (pend q') = room q + length (pend q)" if "try_recv C q = Some (f, q')" for f q q'
  proof -
    have "case try_recv C q of None \<Rightarrow> pend q = [] | Some (f, q') \<Rightarrow> pend q = f # pend q' \<and> room q' = Suc (room q)"
      using ok unfolding mpsc_ok_def by blast
    with that show ?thesis by simp
  qed
  have dropped: "room (drop_rx C q) + length (pend (drop_rx C q)) = 0" for q using ok by (simp add: mpsc_ok_def)
  have "chan_inv s" using inv(2) by (simp add: side_inv_def)
  from step show ?thesis
  proof cases
    case (register now key ep mesh ack prober nideal)
    have "keeps s t" using register(1) keeps_register by blast
    moreover have "occ (boxes pend room t) c =
        occ ((boxes pend room s)(SessionChan (next_id s) := ([], queue_depth s))) c" for c
      using register_boxes [OF ok inv(1) register(2) _ refl] inv(2) register(1) by (simp add: side_inv_def)
    ultimately show ?thesis using inv(3) by (simp add: cap_inv_def keeps_def occ_def)
  next
    case (unregister i)
    then show ?thesis using live_keeps_unregister [OF inv(1), of i C] occ_unregister [OF ok inv(1), of i]
      by (intro cap_invI [OF inv(3)]) (simp_all add: keeps_def)
  next
    case (route i now src dst packet forwarded)
    from live [OF this(2)] obtain h where h: "heap s i = Some h" by blast
    have "occ (boxes pend room t) = occ (boxes pend room s)"
      unfolding route(1)
      using route_boxes [OF ok h, of dst now src packet forwarded] active_tx_ok [OF inv(1), of dst]
      by (simp add: tx_ok_def split: option.split)
    then show ?thesis using keeps_route [of s C now i src dst packet forwarded]
      by (intro cap_invI [OF inv(3)]) (simp_all add: keeps_def route(1))
  next
    case (watch i)
    from live [OF this(2)] obtain h where h: "heap s i = Some h" by blast
    have "occ (boxes pend room t) = occ (boxes pend room s)"
    proof (cases "can_mesh h")
      case True
      have "fold (put (SessionChan i)) fs M = fold (\<lambda>f. put (SessionChan i) f) fs M" for fs M by simp
      then show ?thesis
        using watch_boxes [OF ok inv(1) h True] occ_fold_put [of "\<lambda>_. SessionChan i" "\<lambda>f. f"] watch(1) by simp
    qed (simp add: watch(1) watch_refused [OF h])
    then show ?thesis using keeps_watch [of s C i]
      by (intro cap_invI [OF inv(3)]) (simp_all add: keeps_def watch(1))
  next
    case (recv c q f q')
    have "occ (boxes pend room t) = occ (boxes pend room s)"
      using took [OF recv(3)] recv(2) by (auto simp: recv(1) occ_def boxes_def fun_eq_iff)
    then show ?thesis by (intro cap_invI [OF inv(3)]) (simp_all add: recv(1))
  next
    case (drop c q)
    have "occ (boxes pend room t) d \<le> occ (boxes pend room s) d" for d
      using dropped [of q] by (auto simp: drop(1) occ_def boxes_def)
    with inv(3) show ?thesis unfolding cap_inv_def drop(1) by (auto intro: order_trans)
  next
    case (mesh_connect n m)
    have "boxes pend room t (SessionChan i) = boxes pend room s (SessionChan i)" for i
      by (simp add: mesh_connect(1) boxes_def)
    with inv(3) show ?thesis by (simp add: cap_inv_def occ_def mesh_connect(1))
  next
    case (mesh_reply m f)
    have "queue_depth t = queue_depth s" using only_queues_fields(9) [OF only_queues_chan_send] by (simp add: mesh_reply)
    then show ?thesis by (intro cap_invI [OF inv(3)]) (simp_all add: mesh_reply chan_send_boxes [OF ok])
  next
    case (restart a b)
    have "occ (boxes pend room t) = occ (boxes pend room s)"
      unfolding restart broadcast_restart_def by (rule occ_fold) (auto intro: occ_fold occ_send [OF ok])
    then show ?thesis by (intro cap_invI [OF inv(3)]) (simp_all add: restart only_queues_fields(9) [OF only_queues_restart])
  next
    case (counter m)
    then show ?thesis by (intro cap_invI [OF inv(3)]) simp_all
  next
    case (reply i f)
    then show ?thesis
      by (intro cap_invI [OF inv(3)]) (simp_all add: occ_send [OF ok] only_queues_fields(9) [OF only_queues_send])
  qed (auto intro!: cap_invI [OF inv(3)] simp: occ_quiet mesh_depth keeps_note_activity [THEN keeps_depth]
      keeps_note_preferred [THEN keeps_depth] keeps_close_peer [THEN keeps_depth])
qed

lemma cap_inv_reach:
  assumes "mpsc_ok C pend room" "reach relay_init (relay_step C) s"
  shows "cap_inv pend room s"
  using assms(2)
proof (induction rule: reach.induct)
  case (start s)
  then show ?case by (auto simp: relay_init_def Relay_new_def cap_inv_def occ_def boxes_def)
next
  case (more s t)
  then show ?case
    using cap_inv_step [OF assms(1) reachable_relay_inv [OF more(1)] reachable_side_inv [OF more(1)]] by blast
qed

subsection \<open>A reference instance: bounded queues as lists\<close>

definition fifo :: "(Frame list \<times> nat) mpsc" where
  "fifo = \<lparr>channel = (\<lambda>n. ([], n)),
     try_send = (\<lambda>f (q, r). case r of 0 \<Rightarrow> None | Suc r \<Rightarrow> Some (q @ [f], r)),
     try_recv = (\<lambda>(q, r). case q of [] \<Rightarrow> None | f # q \<Rightarrow> Some (f, (q, Suc r))),
     drop_rx = (\<lambda>_. ([], 0))\<rparr>"

lemma fifo_ok: "mpsc_ok fifo fst snd"
  by (auto simp: mpsc_ok_def fifo_def split: nat.split list.split)

end
