(* ===== verification/Derp_Relay_Props.thy ===== *)
theory Derp_Relay_Props
  imports Derp_Relay_Delivery
begin

text \<open>
  The properties of the relay: what holds in every reachable state, and what each operation does to
  the session sets, the mailboxes and the counters.
\<close>

subsection \<open>Counters of a routed packet\<close>

lemma route_local_counters:
  assumes ok: "mpsc_ok C pend room" and h: "heap s d = Some h"
    and t: "t = route_local C d src dst packet s"
  shows "packets_sent (metrics t) = packets_sent (metrics s) + (if snd (boxes pend room s (sh_tx h)) \<noteq> 0 then 1 else 0)"
    "packets_dropped (metrics t) = packets_dropped (metrics s) + (if snd (boxes pend room s (sh_tx h)) \<noteq> 0 then 0 else 1)"
    "mesh_forwarded_out (metrics t) = mesh_forwarded_out (metrics s)"
    "queue_dropped (metrics t) = queue_dropped (metrics s) + (if snd (boxes pend room s (sh_tx h)) \<noteq> 0 then 0 else 1)"
proof -
  obtain u sent where u: "send C d (RecvPacket src packet) s = (u, sent)" by fastforce
  have sent: "sent \<longleftrightarrow> snd (boxes pend room s (sh_tx h)) \<noteq> 0"
    using send_boxes(2) [OF ok h, of "RecvPacket src packet"] by (simp add: u)
  obtain v o' where v: "chan_send C (sh_tx h) (RecvPacket src packet) s = (v, o')" by fastforce
  have mv: "metrics v = metrics s" using v by (auto simp: chan_send_def split: option.splits)
  have m: "metrics u = (if sent then metrics s else (metrics s)\<lparr>queue_dropped := inc (queue_dropped (metrics s)) 1\<rparr>)"
    using u v mv by (cases o') (auto simp: send_def h)
  show "packets_sent (metrics t) = packets_sent (metrics s) + (if snd (boxes pend room s (sh_tx h)) \<noteq> 0 then 1 else 0)"
    "packets_dropped (metrics t) = packets_dropped (metrics s) + (if snd (boxes pend room s (sh_tx h)) \<noteq> 0 then 0 else 1)"
    "mesh_forwarded_out (metrics t) = mesh_forwarded_out (metrics s)"
    "queue_dropped (metrics t) = queue_dropped (metrics s) + (if snd (boxes pend room s (sh_tx h)) \<noteq> 0 then 0 else 1)"
    unfolding sent [symmetric]
    by (cases sent; simp add: t route_local_def u m Let_def inc_def upd_handle_def split: option.split)+
qed

lemma route_local_metrics:
  assumes "active_ix s dst = Some d"
  shows "packets_sent (metrics (route C now i src dst packet fwd s)) =
      packets_sent (metrics (route_local C d src dst packet (received packet s)))"
    "packets_dropped (metrics (route C now i src dst packet fwd s)) =
      packets_dropped (metrics (route_local C d src dst packet (received packet s)))"
    "queue_dropped (metrics (route C now i src dst packet fwd s)) =
      queue_dropped (metrics (route_local C d src dst packet (received packet s)))"
  using assms by (simp_all add: route_split count_in_def)

lemma received_counters [simp]:
  "packets_sent (metrics (received p s)) = packets_sent (metrics s)"
  "packets_dropped (metrics (received p s)) = packets_dropped (metrics s)"
  "queue_dropped (metrics (received p s)) = queue_dropped (metrics s)"
  "mesh_forwarded_out (metrics (received p s)) = mesh_forwarded_out (metrics s)"
  by (simp_all add: received_def Let_def)

subsection \<open>Reachable example states\<close>

definition key_of :: "byte \<Rightarrow> NodeKey" where
  "key_of b = NodeKey (replicate 32 b)"

definition ep_of :: "u16 \<Rightarrow> SocketAddr" where
  "ep_of p = \<lparr>ip = V4 [10, 0, 0, 1], port = p\<rparr>"

definition join :: "NodeKey \<Rightarrow> bool \<Rightarrow> (Frame list \<times> nat) Relay \<Rightarrow> (Frame list \<times> nat) Relay" where
  "join k mesh s = snd (register fifo 0 k (ep_of 1) mesh False False False s)"

definition empty_relay :: "(Frame list \<times> nat) Relay" where
  "empty_relay = Relay_new 4 None"

definition demo :: "(Frame list \<times> nat) Relay" where
  "demo = join (key_of 3) True (join (key_of 2) False (join (key_of 1) False empty_relay))"

lemma join_reachable: "reachable fifo s \<Longrightarrow> ids_left s \<Longrightarrow> reachable fifo (join k mesh s)"
  unfolding join_def by (erule reach.more) (rule relay_step.register)

lemma join_next_id: "next_id (join k mesh s) = next_id s + 1"
  unfolding join_def using only_queues_fields(7) [OF register_registered] by (simp add: registered_def)

lemma demo_reachable: "reachable fifo demo"
proof -
  have "reachable fifo empty_relay" by (rule reach.start) (auto simp: relay_init_def empty_relay_def)
  then show ?thesis
    unfolding demo_def by (intro join_reachable) (simp_all add: join_next_id empty_relay_def Relay_new_def)
qed

lemma demo_live: "{1, 2, 3} \<subseteq> live_set demo"
  by code_simp

subsection \<open>Every reachable state\<close>



text \<open>
  In every reachable state no key has an empty session set, the sessions of a key are distinct and
  carry that key, and each of them has its duplicate flag set exactly when the key has more than one.
\<close>

theorem session_sets_ok:
  assumes "reachable C s" "map_of (peers s) k = Some ps"
  shows "sessions ps \<noteq> [] \<and> distinct (sessions ps) \<and>
    (\<forall>i\<in>set (sessions ps). \<exists>h. heap s i = Some h \<and> sh_id h = i \<and> sh_key h = k \<and>
       (duplicate h \<longleftrightarrow> 1 < length (sessions ps)))"
proof -
  have "pset_ok s k ps" using reachable_relay_inv [OF assms(1)] assms(2) by (simp add: relay_inv_def peers_inv_def)
  then show ?thesis unfolding pset_ok_def by blast
qed

theorem session_sets_ok_witness:
  "\<exists>ps h. map_of (peers demo) (key_of 2) = Some ps \<and> sessions ps = [2] \<and> heap demo 2 = Some h \<and> \<not> duplicate h"
proof -
  have ps: "map_of (peers demo) (key_of 2) = Some \<lparr>sessions = [2], ps_active = 2\<rparr>" by code_simp
  from session_sets_ok [OF demo_reachable ps] ps show ?thesis by auto
qed

text \<open>
  In every reachable state the two gauges are exact: \<open>current_clients\<close> counts the registered
  sessions, each once, and is what \<open>client_count\<close> returns, and \<open>preferred_clients\<close> counts the
  registered sessions that announced this node as preferred.
\<close>

theorem gauges_exact:
  assumes "reachable C s"
  shows "current_clients (metrics s) = of_nat (card (live_set s)) \<and>
    client_count s = card (live_set s) \<and>
    preferred_clients (metrics s) = of_nat (card {i \<in> live_set s. \<exists>h. heap s i = Some h \<and> preferred h})"
proof -
  have "relay_inv s" using assms by (rule reachable_relay_inv)
  moreover from this have "client_count s = card (live_set s)" by (simp add: relay_inv_def client_count_card)
  ultimately show ?thesis by (simp add: relay_inv_def gauge_inv_def preferred_set_def)
qed

theorem gauges_exact_witness: "current_clients (metrics demo) = of_nat (card (live_set demo)) \<and> client_count demo = 3"
proof -
  have "client_count demo = 3" by code_simp
  with gauges_exact [OF demo_reachable] show ?thesis by simp
qed

text \<open>
  In every reachable state the watchers are registered sessions with mesh permission, each listed
  once: nobody else is told who is connected.
\<close>

theorem watchers_have_permission:
  assumes "reachable C s" "w \<in> set (watchers s)"
  shows "w \<in> live_set s \<and> (\<exists>h. heap s w = Some h \<and> can_mesh h) \<and> distinct (watchers s)"
  using reachable_relay_inv [OF assms(1)] assms(2) by (simp add: relay_inv_def watch_inv_def)

definition watched :: "(Frame list \<times> nat) Relay" where
  "watched = fst (watch fifo 3 demo)"

lemma watched_reachable: "reachable fifo watched"
  unfolding watched_def using demo_live by (intro reach.more [OF demo_reachable] relay_step.watch) simp

theorem watchers_have_permission_witness:
  "3 \<in> set (watchers watched) \<and> (\<exists>h. heap watched 3 = Some h \<and> can_mesh h)"
proof -
  have w: "3 \<in> set (watchers watched)" by code_simp
  with watchers_have_permission [OF watched_reachable w] show ?thesis by blast
qed

text \<open>
  C10: Every packet the relay accepts is accounted for once: in every reachable state the packets
  received are those delivered, plus those dropped, plus those handed to the mesh.
\<close>

theorem packets_conserved:
  assumes "reachable C s"
  shows "packets_received (metrics s) =
    packets_sent (metrics s) + packets_dropped (metrics s) + mesh_forwarded_out (metrics s)"
proof -
  have "balance (metrics s) = 0" using reachable_side_inv [OF assms] by (simp add: side_inv_def)
  then show ?thesis by (simp add: balance_def algebra_simps)
qed

definition routed :: "(Frame list \<times> nat) Relay" where
  "routed = route fifo 0 1 (key_of 1) (key_of 2) [7, 8, 9] False watched"

lemma routed_reachable: "reachable fifo routed"
proof -
  have "1 \<in> live_set watched" by code_simp
  then show ?thesis unfolding routed_def by (intro reach.more [OF watched_reachable] relay_step.route)
qed

theorem packets_conserved_witness:
  "packets_received (metrics routed) = 1 \<and> packets_sent (metrics routed) = 1 \<and>
   packets_received (metrics routed) =
     packets_sent (metrics routed) + packets_dropped (metrics routed) + mesh_forwarded_out (metrics routed)"
proof -
  have "packets_received (metrics routed) = 1" "packets_sent (metrics routed) = 1" by code_simp+
  with packets_conserved [OF routed_reachable] show ?thesis by simp
qed

text \<open>
  A reverse path only ever leads to a registered key, and lists it once: when a key loses its last
  session, no path to it is left behind.
\<close>

theorem reverse_paths_registered:
  assumes "reachable C s" "reverse_paths s src = Some dsts"
  shows "distinct dsts \<and> (\<forall>dst\<in>set dsts. active dst s \<noteq> None)"
proof -
  have inv: "relay_inv s" "rev_inv s"
    using reachable_relay_inv [OF assms(1)] reachable_side_inv [OF assms(1)] by (simp_all add: side_inv_def)
  have "active_ix s dst \<noteq> None" if "dst \<in> set dsts" for dst
  proof -
    have "dst \<in> dom (map_of (peers s))" using inv(2) assms(2) that unfolding rev_inv_def by blast
    then obtain ps where ps: "map_of (peers s) dst = Some ps" by blast
    have "pset_ok s dst ps" "active_ix s dst = PeerSet_active ps"
      using inv(1) ps by (simp_all add: relay_inv_def peers_inv_def index_inv_def)
    then show ?thesis by (auto simp: pset_ok_def PeerSet_active_def split: option.split)
  qed
  with inv(2) assms(2) show ?thesis by (simp add: rev_inv_def active_def)
qed

theorem reverse_paths_registered_witness:
  "reverse_paths routed (key_of 1) = Some [key_of 2] \<and> active (key_of 2) routed \<noteq> None"
proof -
  have r: "reverse_paths routed (key_of 1) = Some [key_of 2]" by code_simp
  with reverse_paths_registered [OF routed_reachable r] show ?thesis by simp
qed

text \<open>
  C17: No session's queue ever holds more than \<open>queue_depth\<close> frames, whatever is routed to it: a slow
  client costs bounded memory.
\<close>

theorem queues_bounded:
  assumes "mpsc_ok C pend room" "reachable C s" "chans s (SessionChan i) = Some q"
  shows "length (pend q) + room q \<le> queue_depth s"
proof -
  have "occ (boxes pend room s) (SessionChan i) \<le> queue_depth s"
    using cap_inv_reach [OF assms(1,2)] by (simp add: cap_inv_def)
  with assms(3) show ?thesis by (simp add: occ_def boxes_def)
qed

theorem queues_bounded_witness:
  "\<exists>q. chans routed (SessionChan 2) = Some q \<and> length (fst q) = 1 \<and> length (fst q) + snd q \<le> 4"
proof -
  have q: "chans routed (SessionChan 2) = Some ([RecvPacket (key_of 1) [7, 8, 9]], 3)" by code_simp
  have "queue_depth routed = 4" by code_simp
  with queues_bounded [OF fifo_ok routed_reachable q] q show ?thesis by simp
qed

subsection \<open>Routing\<close>

text \<open>
  C7: A packet for a registered key whose active session has room in its queue is appended to exactly
  that queue, as a \<open>RecvPacket\<close> with the sender's key, and counted as sent; no other queue changes, in
  particular nothing goes to the mesh.
\<close>

theorem route_delivers:
  assumes "mpsc_ok C pend room" "reachable C s" "i \<in> live_set s"
    and "active dst s = Some d" "boxes pend room s (SessionChan d) = (q, Suc r)"
    and "t = route C now i src dst packet forwarded s"
  shows "boxes pend room t = (boxes pend room s)(SessionChan d := (q @ [RecvPacket src packet], r)) \<and>
    packets_sent (metrics t) = packets_sent (metrics s) + 1 \<and>
    packets_dropped (metrics t) = packets_dropped (metrics s)"
proof -
  have inv: "relay_inv s" using assms(2) by (rule reachable_relay_inv)
  from live_tx [OF inv assms(3)] obtain h where h: "heap s i = Some h" by blast
  from active_registered [OF inv assms(4) [unfolded active_def]] obtain hd where
    hd: "heap s d = Some hd" "sh_tx hd = SessionChan d" .
  have b: "boxes pend room t = put (SessionChan d) (RecvPacket src packet) (boxes pend room s)"
    using route_boxes_live [OF assms(1) inv h, of now src dst packet forwarded] assms(4,6) by simp
  have "heap (received packet s) d = Some hd" by (simp add: hd)
  from route_local_counters [OF assms(1) this refl, of src dst packet]
    route_local_metrics [OF assms(4) [unfolded active_def], of C now i src packet forwarded] assms(5,6) hd(2) b
  show ?thesis by (simp add: put_def)
qed

theorem route_delivers_witness:
  "boxes fst snd routed (SessionChan 2) = ([RecvPacket (key_of 1) [7, 8, 9]], 3) \<and> packets_dropped (metrics routed) = 0"
proof -
  have a: "1 \<in> live_set watched" "active (key_of 2) watched = Some 2"
    "boxes fst snd watched (SessionChan 2) = ([], Suc 3)" "packets_dropped (metrics watched) = 0" by code_simp+
  from route_delivers [OF fifo_ok watched_reachable a(1-3) routed_def] a(4) show ?thesis by simp
qed

text \<open>
  A packet for a registered key whose queue is full or closed is dropped: no queue changes at all
  (it is neither retried on the mesh nor answered), and both drop counters count it.
\<close>

theorem route_full_drops:
  assumes "mpsc_ok C pend room" "reachable C s" "i \<in> live_set s"
    and "active dst s = Some d" "boxes pend room s (SessionChan d) = (q, 0)"
    and "t = route C now i src dst packet forwarded s"
  shows "boxes pend room t = boxes pend room s \<and>
    packets_dropped (metrics t) = packets_dropped (metrics s) + 1 \<and>
    queue_dropped (metrics t) = queue_dropped (metrics s) + 1 \<and>
    packets_sent (metrics t) = packets_sent (metrics s)"
proof -
  have inv: "relay_inv s" using assms(2) by (rule reachable_relay_inv)
  from live_tx [OF inv assms(3)] obtain h where h: "heap s i = Some h" by blast
  from active_registered [OF inv assms(4) [unfolded active_def]] obtain hd where
    hd: "heap s d = Some hd" "sh_tx hd = SessionChan d" .
  have b: "boxes pend room t = put (SessionChan d) (RecvPacket src packet) (boxes pend room s)"
    using route_boxes_live [OF assms(1) inv h, of now src dst packet forwarded] assms(4,6) by simp
  have "heap (received packet s) d = Some hd" by (simp add: hd)
  from route_local_counters [OF assms(1) this refl, of src dst packet]
    route_local_metrics [OF assms(4) [unfolded active_def], of C now i src packet forwarded] assms(5,6) hd(2) b
  show ?thesis by (simp add: put_def)
qed

definition hung_up :: "(Frame list \<times> nat) Relay" where
  "hung_up = watched\<lparr>chans := (chans watched)(SessionChan 2 \<mapsto> drop_rx fifo ([], 4))\<rparr>"

lemma hung_up_reachable: "reachable fifo hung_up"
proof -
  have "chans watched (SessionChan 2) = Some ([], 4)" by code_simp
  then show ?thesis unfolding hung_up_def by (intro reach.more [OF watched_reachable] relay_step.drop)
qed

theorem route_full_drops_witness:
  "packets_dropped (metrics (route fifo 0 1 (key_of 1) (key_of 2) [7] False hung_up)) = 1"
proof -
  have a: "1 \<in> live_set hung_up" "active (key_of 2) hung_up = Some 2"
    "boxes fst snd hung_up (SessionChan 2) = ([], 0)" "packets_dropped (metrics hung_up) = 0" by code_simp+
  from route_full_drops [OF fifo_ok hung_up_reachable a(1-3) refl] a(4) show ?thesis by simp
qed

text \<open>
  A packet from a local client for a key that is not registered here goes to the first of the
  mesh connections known for the key that accepts it, as a \<open>ForwardPacket\<close>, and to no other queue.
\<close>

theorem route_forwards:
  assumes "mpsc_ok C pend room" "reachable C s" "i \<in> live_set s" "active dst s = None"
    and "routes_of s dst = rs @ r # rs'" "\<forall>r'\<in>set rs. snd (boxes pend room s (mr_tx r')) = 0"
    and "boxes pend room s (mr_tx r) = (q, Suc n)"
  shows "boxes pend room (route C now i src dst packet False s) =
    (boxes pend room s)(MeshChan (mr_mesh_id r) := (q @ [ForwardPacket src dst packet], n))"
proof -
  have inv: "relay_inv s" using assms(2) by (rule reachable_relay_inv)
  from live_tx [OF inv assms(3)] obtain h where h: "heap s i = Some h" by blast
  have "mr_tx r = MeshChan (mr_mesh_id r)"
    using routes_of_inv [OF reachable_mesh_inv [OF assms(2)], of dst] by (simp add: assms(5))
  moreover have "find (\<lambda>r. snd (boxes pend room s (mr_tx r)) \<noteq> 0) (rs @ r # rs') = Some r"
    using assms(6,7) by (induction rs) simp_all
  ultimately show ?thesis
    using route_boxes_live [OF assms(1) inv h, of now src dst packet False] assms(4,5,7)
    by (simp add: put_def)
qed

definition meshed :: "(Frame list \<times> nat) Relay" where
  "meshed = add_mesh_route 9 (key_of 5) (MeshChan 9)
     (watched\<lparr>chans := (chans watched)(MeshChan 9 \<mapsto> channel fifo 64)\<rparr>)"

lemma meshed_reachable: "reachable fifo meshed"
  unfolding meshed_def
  by (intro reach.more [OF reach.more [OF watched_reachable relay_step.mesh_connect] relay_step.add_route]) simp

theorem route_forwards_witness:
  "boxes fst snd (route fifo 0 1 (key_of 1) (key_of 5) [7] False meshed) (MeshChan 9) =
     ([ForwardPacket (key_of 1) (key_of 5) [7]], 63)"
proof -
  have a: "1 \<in> live_set meshed" "active (key_of 5) meshed = None"
    "routes_of meshed (key_of 5) = [] @ \<lparr>mr_mesh_id = 9, mr_tx = MeshChan 9\<rparr> # []"
    "boxes fst snd meshed (MeshChan 9) = ([], Suc 63)" by code_simp+
  from route_forwards [OF fifo_ok meshed_reachable a(1-3)] a(4) show ?thesis by simp
qed

text \<open>
  C28: A packet that came from the mesh is never sent to the mesh again: no mesh queue changes, so
  packets do not loop between the relays of a region.
\<close>

theorem no_mesh_loop:
  assumes "mpsc_ok C pend room" "reachable C s" "i \<in> live_set s"
  shows "boxes pend room (route C now i src dst packet True s) (MeshChan m) = boxes pend room s (MeshChan m)"
proof -
  have inv: "relay_inv s" using assms(2) by (rule reachable_relay_inv)
  from live_tx [OF inv assms(3)] obtain h where h: "heap s i = Some h" by blast
  show ?thesis
    by (simp add: route_boxes_live [OF assms(1) inv h] put_offer split: option.split)
qed

theorem no_mesh_loop_witness:
  "boxes fst snd (route fifo 0 3 (key_of 1) (key_of 5) [7] True meshed) (MeshChan 9) = ([], 64)"
proof -
  have a: "3 \<in> live_set meshed" "boxes fst snd meshed (MeshChan 9) = ([], 64)" by code_simp+
  from no_mesh_loop [OF fifo_ok meshed_reachable a(1)] a(2) show ?thesis by simp
qed

text \<open>
  C29: A packet that can be neither delivered nor forwarded is dropped, and its sender hears of it
  with a \<open>PeerGone(NotHere)\<close> exactly when the packet is a disco wrapper and the sender's limiter
  allows it; nobody else hears anything.
\<close>

theorem route_not_here:
  assumes "mpsc_ok C pend room" "reachable C s" "heap s i = Some h" "i \<in> live_set s" "active dst s = None"
    and "forwarded \<or> (\<forall>r\<in>set (routes_of s dst). snd (boxes pend room s (mr_tx r)) = 0)"
  shows "boxes pend room (route C now i src dst packet forwarded s) =
    (if looks_like_disco_wrapper packet \<and> snd (allow now (peer_gone_limiter h))
     then (boxes pend room s)(SessionChan i := offer (PeerGone dst NOT_HERE) (boxes pend room s (SessionChan i)))
     else boxes pend room s)"
proof -
  have inv: "relay_inv s" using assms(2) by (rule reachable_relay_inv)
  have "(if forwarded then None
     else find (\<lambda>r. snd (boxes pend room s (mr_tx r)) \<noteq> 0) (routes_of s dst)) = None"
    using assms(6) by (auto simp: find_None_iff)
  then show ?thesis
    by (simp add: route_boxes_live [OF assms(1) inv assms(3)] assms(5) put_offer)
qed

lemma offer_num: "offer f (q, numeral n) = (q @ [f], pred_numeral n)"
  by (simp add: offer_def numeral_eq_Suc)

theorem route_not_here_witness:
  "boxes fst snd (route fifo 0 1 (key_of 1) (key_of 6) (DISCO_MAGIC @ replicate 56 0) False meshed) (SessionChan 1) =
     ([PeerGone (key_of 6) NOT_HERE], 3)"
proof -
  have l: "map_option peer_gone_limiter (heap meshed 1) = Some (PeerGoneLimiter_new 0)" by code_simp
  then obtain h where h: "heap meshed 1 = Some h" "peer_gone_limiter h = PeerGoneLimiter_new 0" by auto
  have a: "1 \<in> live_set meshed" "active (key_of 6) meshed = None"
    "routes_of meshed (key_of 6) = []" "looks_like_disco_wrapper (DISCO_MAGIC @ replicate 56 0)"
    "boxes fst snd meshed (SessionChan 1) = ([], Suc 3)" by code_simp+
  from route_not_here [OF fifo_ok meshed_reachable h(1) a(1,2),
      of False 0 "key_of 1" "DISCO_MAGIC @ replicate 56 0"] a(3-5) h(2) allow_new [of 0]
  show ?thesis by (simp add: offer_num)
qed

subsection \<open>Registering and leaving\<close>

text \<open>
  C16: A registration makes the new session the active one of its key, behind the sessions the key
  already had, under a number no session has had; it tells every watcher that the peer is present, with
  the client's address and flags, and, when the key is now held twice, tells each of its sessions so.
\<close>

theorem register_joins:
  assumes "mpsc_ok C pend room" "reachable C s" "ids_left s"
    and "(i, t) = register C now key ep mesh ack prober nideal s"
    and "h = new_handle i now key ep mesh ack prober nideal"
  shows "heap s i = None \<and> active key t = Some i \<and>
    map_of (peers t) key = Some \<lparr>sessions = joined key s, ps_active = i\<rparr> \<and>
    boxes pend room t =
      fold (\<lambda>w. put (SessionChan w) (PeerPresent key (Some ep) (Some (flags h)) [])) (watchers s)
        ((if 1 < length (joined key s)
          then fold (\<lambda>i. put (SessionChan i) (Health DUPLICATE_HEALTH)) (joined key s) else (\<lambda>M. M))
          ((boxes pend room s)(SessionChan i := ([], queue_depth s))))"
proof -
  have inv: "relay_inv s" "0 < queue_depth s"
    using reachable_relay_inv [OF assms(2)] reachable_side_inv [OF assms(2)] by (simp_all add: side_inv_def)
  have i: "i = next_id s" and t: "t = snd (register C now key ep mesh ack prober nideal s)"
    using assms(4) register_id [of C now key ep mesh ack prober nideal s] by (metis fst_conv, metis snd_conv)
  note f = only_queues_fields [OF register_registered [of key s now ep mesh ack prober nideal C], folded t]
  have "active key t = Some i" "map_of (peers t) key = Some \<lparr>sessions = joined key s, ps_active = i\<rparr>"
    by (simp_all add: active_def f registered_def i update_conv')
  moreover have "heap s i = None" using inv(1) by (simp add: i fresh_id relay_inv_def)
  moreover note register_boxes [OF assms(1) inv(1) assms(3) inv(2) assms(5) [unfolded i], folded t, folded i]
  ultimately show ?thesis by blast
qed

theorem register_joins_witness:
  "active (key_of 2) (snd (register fifo 0 (key_of 2) (ep_of 1) False False False False watched)) = Some 4 \<and>
   boxes fst snd (snd (register fifo 0 (key_of 2) (ep_of 1) False False False False watched)) (SessionChan 2) =
     ([Health DUPLICATE_HEALTH], 3)"
proof -
  let ?r = "register fifo 0 (key_of 2) (ep_of 1) False False False False watched"
  have a: "ids_left watched" "fst ?r = 4" "joined (key_of 2) watched = [2, 4]" "watchers watched = [3]"
    "boxes fst snd watched (SessionChan 2) = ([], 4)" by code_simp+
  have r: "(4, snd ?r) = ?r" using a(2) by (metis prod.collapse)
  from register_joins [OF fifo_ok watched_reachable a(1) r refl] a(3-5) show ?thesis
    by (simp add: put_offer offer_num)
qed

text \<open>
  C15: When the last session of a key leaves, the key is unknown to the relay, and every watcher and
  every session that the reverse paths list for the key, and nobody else, is offered exactly the frames
  \<open>PeerGone(Disconnected)\<close> for it.
\<close>

theorem last_session_leaves:
  assumes "mpsc_ok C pend room" "reachable C s" "heap s i = Some h"
    and "map_of (peers s) (sh_key h) = Some ps" "sessions ps = [i]"
  shows "active (sh_key h) (unregister C i s) = None \<and>
    map_of (peers (unregister C i s)) (sh_key h) = None \<and>
    boxes pend room (unregister C i s) =
      fold (\<lambda>d. put (SessionChan d) (PeerGone (sh_key h) DISCONNECTED))
        (removeAll i (watchers s) @ gone_targets (sh_key h) s) (boxes pend room s)"
proof -
  have inv: "relay_inv s" using assms(2) by (rule reachable_relay_inv)
  then have "peers_inv s" by (simp add: relay_inv_def)
  from unregister_departed [OF this assms(3,4), of C] assms(5)
  have "active (sh_key h) (unregister C i s) = None" "map_of (peers (unregister C i s)) (sh_key h) = None"
    by (simp_all add: departed_def active_def)
  with unregister_boxes_gone [OF assms(1) inv assms(3-5)] show ?thesis by blast
qed

theorem last_session_leaves_witness:
  "active (key_of 1) (unregister fifo 1 routed) = None \<and>
   PeerGone (key_of 1) DISCONNECTED \<in> set (fst (boxes fst snd (unregister fifo 1 routed) (SessionChan 2))) \<and>
   PeerGone (key_of 1) DISCONNECTED \<in> set (fst (boxes fst snd (unregister fifo 1 routed) (SessionChan 3)))"
proof -
  have ps: "map_of (peers routed) (key_of 1) = Some \<lparr>sessions = [1], ps_active = 1\<rparr>" by code_simp
  have "map_option sh_key (heap routed 1) = Some (key_of 1)" by code_simp
  then obtain h where h: "heap routed 1 = Some h" "sh_key h = key_of 1" by auto
  have a: "removeAll 1 (watchers routed) @ gone_targets (key_of 1) routed = [3, 2]"
    "boxes fst snd routed (SessionChan 2) = ([RecvPacket (key_of 1) [7, 8, 9]], 3)"
    "snd (boxes fst snd routed (SessionChan 3)) \<noteq> 0" by code_simp+
  from last_session_leaves [OF fifo_ok routed_reachable h(1)] h(2) ps a(1)
  have t: "active (key_of 1) (unregister fifo 1 routed) = None"
    "boxes fst snd (unregister fifo 1 routed) =
      fold (\<lambda>d. put (SessionChan d) (PeerGone (key_of 1) DISCONNECTED)) [3, 2] (boxes fst snd routed)" by simp_all
  show ?thesis
    unfolding t(2) using t(1) a(2,3) by (intro conjI fold_put_in) simp_all
qed

text \<open>
  When one of several sessions of a key leaves, the most recent of the others becomes the active
  one, nobody is told that the peer is gone, and a session that is left alone is told with an empty
  \<open>Health\<close> that it is no longer a duplicate.
\<close>

theorem one_of_several_leaves:
  assumes "mpsc_ok C pend room" "reachable C s" "heap s i = Some h"
    and "map_of (peers s) (sh_key h) = Some ps"
    and "xs = filter (\<lambda>j. j \<noteq> i) (sessions ps)" "xs \<noteq> []"
  shows "active (sh_key h) (unregister C i s) = Some (last xs) \<and>
    map_of (peers (unregister C i s)) (sh_key h) = Some \<lparr>sessions = xs, ps_active = last xs\<rparr> \<and>
    boxes pend room (unregister C i s) =
      (if length xs = 1 then put (SessionChan (hd xs)) (Health []) (boxes pend room s) else boxes pend room s)"
proof -
  have inv: "relay_inv s" using assms(2) by (rule reachable_relay_inv)
  then have "peers_inv s" by (simp add: relay_inv_def)
  from unregister_departed [OF this assms(3,4), of C] assms(6)
  have "active (sh_key h) (unregister C i s) = Some (last xs)"
    "map_of (peers (unregister C i s)) (sh_key h) = Some \<lparr>sessions = xs, ps_active = last xs\<rparr>"
    by (simp_all add: departed_def active_def flip: assms(5))
  with unregister_boxes_stay [OF assms(1) inv assms(3-6)] show ?thesis by blast
qed

definition doubled :: "(Frame list \<times> nat) Relay" where
  "doubled = join (key_of 2) False watched"

lemma doubled_reachable: "reachable fifo doubled"
  unfolding doubled_def by (rule join_reachable [OF watched_reachable]) code_simp

theorem one_of_several_leaves_witness:
  "active (key_of 2) (unregister fifo 4 doubled) = Some 2 \<and>
   boxes fst snd (unregister fifo 4 doubled) (SessionChan 2) = ([Health DUPLICATE_HEALTH, Health []], 2)"
proof -
  have ps: "map_of (peers doubled) (key_of 2) = Some \<lparr>sessions = [2, 4], ps_active = 4\<rparr>" by code_simp
  have "map_option sh_key (heap doubled 4) = Some (key_of 2)" by code_simp
  then obtain h where h: "heap doubled 4 = Some h" "sh_key h = key_of 2" by auto
  have a: "boxes fst snd doubled (SessionChan 2) = ([Health DUPLICATE_HEALTH], 3)" by code_simp
  from one_of_several_leaves [OF fifo_ok doubled_reachable h(1) _ refl] h(2) ps a
  show ?thesis by (simp add: put_offer offer_num)
qed

text \<open>
  Activity on a registered session makes it the active session of its key, whether it was the
  newest or not, and leaves the active sessions of the other keys and every queue alone.
\<close>

theorem activity_selects:
  assumes "reachable C s" "i \<in> live_set s" "heap s i = Some h"
  shows "active (sh_key h) (note_activity i s) = Some i \<and>
    (\<forall>k. k \<noteq> sh_key h \<longrightarrow> active k (note_activity i s) = active k s) \<and>
    chans (note_activity i s) = chans s"
proof -
  have inv: "relay_inv s" using assms(1) by (rule reachable_relay_inv)
  then have "peers_inv s" by (simp add: relay_inv_def)
  from live_handle [OF this assms(2)] assms(3) obtain ps where ps: "map_of (peers s) (sh_key h) = Some ps"
    "i \<in> set (sessions ps)" "pset_ok s (sh_key h) ps" by (metis option.inject)
  from ps(2,3) assms(3) have dup: "duplicate h \<longleftrightarrow> 1 < length (sessions ps)" unfolding pset_ok_def by fastforce
  have sel: "PeerSet_active (ps\<lparr>ps_active := i\<rparr>) = Some i"
    using ps(2) by (auto simp: PeerSet_active_def find_None_iff find_Some_iff split: option.split)
  show ?thesis
  proof (cases "duplicate h")
    case True
    with sel ps(1) assms(3) show ?thesis by (simp add: note_activity_def Let_def active_def)
  next
    case False
    with dup ps(2) have "sessions ps = [i]"
      by (cases "sessions ps"; cases "tl (sessions ps)") auto
    then have "PeerSet_active ps = Some i" by (simp add: PeerSet_active_def)
    with False inv ps(1) assms(3) show ?thesis
      by (simp add: note_activity_def active_def relay_inv_def index_inv_def)
  qed
qed

theorem activity_selects_witness:
  "active (key_of 2) doubled = Some 4 \<and> active (key_of 2) (note_activity 2 doubled) = Some 2"
proof -
  have "map_option sh_key (heap doubled 2) = Some (key_of 2)" by code_simp
  then obtain h where h: "heap doubled 2 = Some h" "sh_key h = key_of 2" by auto
  have a: "2 \<in> live_set doubled" "active (key_of 2) doubled = Some 4" by code_simp+
  from activity_selects [OF doubled_reachable a(1) h(1)] h(2) a(2) show ?thesis by simp
qed

text \<open>
  A new watcher is told of every registered key, once each and with the address and flags of its
  active session, as far as its queue has room; a session without mesh permission is refused and the
  relay is unchanged.
\<close>

theorem watch_reports_everyone:
  assumes "mpsc_ok C pend room" "reachable C s" "heap s i = Some h" "(t, ok) = watch C i s"
  shows "if can_mesh h then
      ok \<and> i \<in> set (watchers t) \<and> distinct (map fst (peers s)) \<and>
      boxes pend room t = (boxes pend room s)(SessionChan i :=
        (fst (boxes pend room s (SessionChan i)) @
           take (snd (boxes pend room s (SessionChan i))) (map (present_frame s) (peers s)),
         snd (boxes pend room s (SessionChan i)) - length (peers s)))
    else \<not> ok \<and> t = s"
proof (cases "can_mesh h")
  case True
  have inv: "relay_inv s" using assms(2) by (rule reachable_relay_inv)
  have t: "t = fst (watch C i s)" "ok = snd (watch C i s)" using assms(4) by (metis fst_conv, metis snd_conv)
  have "watchers t = List.insert i (watchers s)"
    using only_queues_fields(5) [OF only_queues_watch [OF assms(3) True, of C]] by (simp add: t)
  moreover have ok using assms(3) True by (simp add: t watch_def Let_def)
  moreover note watch_boxes [OF assms(1) inv assms(3) True, folded t]
  ultimately show ?thesis
    using True inv by (simp add: fold_put_same relay_inv_def peers_inv_def)
qed (use watch_refused [OF assms(3), of C] assms(4) in simp)

theorem watch_reports_everyone_witness:
  "fst (boxes fst snd (fst (watch fifo 3 demo)) (SessionChan 3)) = map (present_frame demo) (peers demo) \<and>
   map fst (peers demo) = [key_of 1, key_of 2, key_of 3]"
proof -
  have "map_option can_mesh (heap demo 3) = Some True" by code_simp
  then obtain h where h: "heap demo 3 = Some h" "can_mesh h" by auto
  have a: "boxes fst snd demo (SessionChan 3) = ([], 4)" "length (peers demo) = 3"
    "map fst (peers demo) = [key_of 1, key_of 2, key_of 3]" by code_simp+
  obtain t ok where t: "watch fifo 3 demo = (t, ok)" by fastforce
  from watch_reports_everyone [OF fifo_ok demo_reachable h(1) t [symmetric]] h(2) a t show ?thesis by simp
qed

text \<open>
  When a mesh connection ends, exactly its routes are gone: every peer keeps the routes through
  the other connections, in their order, and no peer keeps an empty route list.
\<close>

theorem mesh_connection_ends:
  assumes "reachable C s"
  shows "routes_of (remove_mesh m s) k = filter (\<lambda>r. mr_mesh_id r \<noteq> m) (routes_of s k) \<and>
    [] \<notin> ran (map_of (mesh_routes (remove_mesh m s)))"
proof -
  have inv: "mesh_inv s" using assms by (rule reachable_mesh_inv)
  then have "mesh_inv (remove_mesh m s)" by (rule remove_mesh_inv)
  then have "[] \<notin> ran (map_of (mesh_routes (remove_mesh m s)))"
    unfolding mesh_inv_def ran_def by blast
  with remove_mesh_routes [OF inv] show ?thesis by blast
qed

theorem mesh_connection_ends_witness:
  "routes_of meshed (key_of 5) \<noteq> [] \<and> routes_of (remove_mesh 9 meshed) (key_of 5) = []"
proof -
  have a: "routes_of meshed (key_of 5) = [\<lparr>mr_mesh_id = 9, mr_tx = MeshChan 9\<rparr>]" by code_simp
  from mesh_connection_ends [OF meshed_reachable, of 9 "key_of 5"] a show ?thesis by simp
qed

lemma fold_close_heap:
  "heap (fold close js s) = (\<lambda>j. if j \<in> set js then map_option (\<lambda>h. h\<lparr>sh_closed := True\<rparr>) (heap s j) else heap s j)"
  by (induction js arbitrary: s) (auto simp: close_def upd_handle_def fun_eq_iff option.map_comp comp_def)

text \<open>
  \<open>close_peer\<close> from a mesh session closes every session of the key and no other session; from any
  other session it changes nothing.
\<close>

theorem close_peer_closes:
  assumes "reachable C s" "heap s i = Some h" "(t, ok) = close_peer i k s"
    and "heap s j = Some hj" "j \<in> live_set s"
  shows "\<exists>hj'. heap t j = Some hj' \<and>
    (is_closed hj' \<longleftrightarrow> is_closed hj \<or> (can_mesh h \<and> sh_key hj = k))"
proof -
  have inv: "relay_inv s" using assms(1) by (rule reachable_relay_inv)
  then have pi: "peers_inv s" by (simp add: relay_inv_def)
  from live_handle [OF pi assms(5)] assms(4) obtain ps where ps: "map_of (peers s) (sh_key hj) = Some ps"
    "j \<in> set (sessions ps)" by (metis option.inject)
  have own: "sh_key hj = k" if "map_of (peers s) k = Some ps'" "j \<in> set (sessions ps')" for ps'
    using pi that assms(4) by (force simp: peers_inv_def pset_ok_def)
  show ?thesis
  proof (cases "can_mesh h \<and> map_of (peers s) k \<noteq> None")
    case True
    then obtain pk where pk: "map_of (peers s) k = Some pk" by blast
    have "t = fold close (sessions pk) s" using assms(2,3) True pk by (simp add: close_peer_def)
    moreover have "j \<in> set (sessions pk) \<longleftrightarrow> sh_key hj = k" using own [OF pk] ps pk by auto
    ultimately show ?thesis using True assms(4) by (simp add: fold_close_heap is_closed_def)
  next
    case False
    then have "t = s" using assms(2,3) by (auto simp: close_peer_def split: option.splits if_splits)
    with False ps assms(4) show ?thesis by auto
  qed
qed

theorem close_peer_closes_witness:
  "\<exists>h. heap (fst (close_peer 3 (key_of 2) demo)) 2 = Some h \<and> is_closed h"
proof -
  have "map_option can_mesh (heap demo 3) = Some True" "map_option sh_key (heap demo 2) = Some (key_of 2)"
    by code_simp+
  then obtain h h2 where h: "heap demo 3 = Some h" "can_mesh h" "heap demo 2 = Some h2" "sh_key h2 = key_of 2" by auto
  obtain t ok where t: "close_peer 3 (key_of 2) demo = (t, ok)" by fastforce
  have l: "2 \<in> live_set demo" using demo_live by blast
  from close_peer_closes [OF demo_reachable h(1) t [symmetric] h(3) l] h(2,4) t show ?thesis by auto
qed

end
