(* ===== verification/Derp_Relay_Findings.thy ===== *)
theory Derp_Relay_Findings
  imports Derp_Relay_Props
begin







end
