(* ===== verification/Derp_Directory.thy ===== *)
theory Derp_Directory
  imports Derp_Relay_System
begin

text \<open>
  What the relay promises about who is connected, as a directory: for every key the sessions in the order
  in which they connected, and the one that receives the key's packets. Joining, leaving and activity are
  three updates of the directory, everything else leaves it alone. The relay of \<open>src/src/relay.rs\<close>, with its
  session sets, its lock-free index, its duplicate flags and its shared handles, implements it.
\<close>

subsection \<open>The directory\<close>

type_synonym directory = "NodeKey \<rightharpoonup> SessionId list \<times> SessionId"

definition members :: "directory \<Rightarrow> NodeKey \<Rightarrow> SessionId list" where
  "members d k = (case d k of None \<Rightarrow> [] | Some (js, a) \<Rightarrow> js)"

definition receiver :: "directory \<Rightarrow> NodeKey \<Rightarrow> SessionId option" where
  "receiver d k = map_option snd (d k)"

definition dir_join :: "NodeKey \<Rightarrow> SessionId \<Rightarrow> directory \<Rightarrow> directory" where
  "dir_join k i d = d(k \<mapsto> (members d k @ [i], i))"

definition dir_leave :: "NodeKey \<Rightarrow> SessionId \<Rightarrow> directory \<Rightarrow> directory" where
  "dir_leave k i d = (let js = removeAll i (members d k) in d(k := if js = [] then None else Some (js, last js)))"

definition dir_select :: "NodeKey \<Rightarrow> SessionId \<Rightarrow> directory \<Rightarrow> directory" where
  "dir_select k i d = (if i \<in> set (members d k) then d(k \<mapsto> (members d k, i)) else d)"

inductive dir_step :: "directory \<Rightarrow> directory \<Rightarrow> bool" where
  join: "(\<And>k. i \<notin> set (members d k)) \<Longrightarrow> dir_step d (dir_join k i d)"
| leave: "i \<in> set (members d k) \<Longrightarrow> dir_step d (dir_leave k i d)"
| select: "i \<in> set (members d k) \<Longrightarrow> dir_step d (dir_select k i d)"
| stay: "dir_step d d"

definition dir_init :: "directory \<Rightarrow> bool" where
  "dir_init d \<longleftrightarrow> d = Map.empty"

text \<open>
  In a directory every key that is listed has a session, the receiver is one of the key's sessions, and no
  session is listed twice, for one key or for two.
\<close>

definition dir_inv :: "directory \<Rightarrow> bool" where
  "dir_inv d \<longleftrightarrow> (\<forall>k. distinct (members d k)) \<and> (\<forall>k js a. d k = Some (js, a) \<longrightarrow> a \<in> set js) \<and>
     (\<forall>k k' x. x \<in> set (members d k) \<longrightarrow> x \<in> set (members d k') \<longrightarrow> k = k')"

lemma members_upd [simp]:
  "members (d(k \<mapsto> (js, a))) k' = (if k' = k then js else members d k')"
  "members (d(k := None)) k' = (if k' = k then [] else members d k')"
  by (simp_all add: members_def)

lemma dir_inv_step:
  assumes "dir_inv d" "dir_step d e"
  shows "dir_inv e"
  using assms(2)
proof cases
  case (join i k)
  with assms(1) show ?thesis by (auto simp: dir_inv_def dir_join_def)
next
  case (leave i k)
  have "last (removeAll i (members d k)) \<in> set (removeAll i (members d k))" if "removeAll i (members d k) \<noteq> []"
    using last_in_set [OF that] .
  with assms(1) show ?thesis
    unfolding leave(1) dir_leave_def Let_def dir_inv_def by (auto simp: distinct_removeAll split: if_splits)
next
  case (select i k)
  with assms(1) show ?thesis by (auto simp: dir_inv_def dir_select_def)
qed (use assms(1) in simp)

lemma dir_inv_init: "dir_init d \<Longrightarrow> dir_inv d"
  by (simp add: dir_init_def dir_inv_def members_def)

interpretation dir: inductive_invariant dir_init dir_step dir_inv
  by unfold_locales (auto intro: dir_inv_init dir_inv_step)

subsection \<open>The relay as a directory\<close>

definition directory :: "'ch Relay \<Rightarrow> directory" where
  "directory s k = map_option (\<lambda>ps. (sessions ps, the (PeerSet_active ps))) (map_of (peers s) k)"

lemma members_directory: "set (members (directory s) k) = sess_of s k"
  by (cases "map_of (peers s) k") (simp_all add: members_def directory_def sess_of_def)

lemma members_sessions: "members (directory s) k = (case map_of (peers s) k of None \<Rightarrow> [] | Some ps \<Rightarrow> sessions ps)"
  by (simp add: members_def directory_def split: option.split)

lemma directory_cong: "map_of (peers t) = map_of (peers s) \<Longrightarrow> directory t = directory s"
  by (simp add: directory_def fun_eq_iff)

lemma directory_same_ctrl: "same_ctrl s t \<Longrightarrow> directory t = directory s"
  by (rule directory_cong) (simp add: same_ctrl_def)

lemma directory_only_queues: "only_queues s t \<Longrightarrow> directory t = directory s"
  by (rule directory_same_ctrl [OF same_ctrl_only_queues])

lemma directory_register:
  "directory (snd (register C now key ep mesh ack prober nideal s)) = dir_join key (next_id s) (directory s)"
proof -
  have "directory (snd (register C now key ep mesh ack prober nideal s)) =
      directory (registered key (new_handle (next_id s) now key ep mesh ack prober nideal) s)"
    by (rule directory_only_queues [OF register_registered])
  moreover have "PeerSet_active \<lparr>sessions = joined key s, ps_active = next_id s\<rparr> = Some (next_id s)"
    by (simp add: PeerSet_active_def joined_def)
  ultimately show ?thesis
    by (auto simp: directory_def fun_eq_iff registered_def dir_join_def update_conv' joined_def members_def split: option.split)
qed

lemma removeAll_filter: "removeAll x xs = filter (\<lambda>j. j \<noteq> x) xs"
  by (induction xs) auto

lemma directory_unregister:
  assumes "relay_inv s" "i \<in> live_set s" "heap s i = Some h"
  shows "directory (unregister C i s) = dir_leave (sh_key h) i (directory s)"
proof -
  have pi: "peers_inv s" using assms(1) by (simp add: relay_inv_def)
  from live_handle [OF pi assms(2)] assms(3) obtain ps where ps: "map_of (peers s) (sh_key h) = Some ps" by (metis option.inject)
  let ?xs = "filter (\<lambda>j. j \<noteq> i) (sessions ps)"
  have x: "removeAll i (members (directory s) (sh_key h)) = ?xs"
    using ps by (simp add: members_sessions removeAll_filter)
  from unregister_departed [OF pi assms(3) ps, of C] have
    "map_of (peers (unregister C i s)) = (map_of (peers s))(sh_key h := if ?xs = [] then None else Some \<lparr>sessions = ?xs, ps_active = last ?xs\<rparr>)"
    by (simp add: departed_def)
  then show ?thesis
    unfolding dir_leave_def x Let_def by (simp add: directory_def fun_eq_iff PeerSet_active_last)
qed

lemma find_same: "x \<in> set xs \<Longrightarrow> find (\<lambda>j. j = x) xs = Some x"
  by (induction xs) auto

lemma directory_activity:
  assumes "relay_inv s" "i \<in> live_set s" "heap s i = Some h"
  shows "directory (note_activity i s) = dir_select (sh_key h) i (directory s)"
proof -
  have pi: "peers_inv s" using assms(1) by (simp add: relay_inv_def)
  from live_handle [OF pi assms(2)] assms(3) obtain ps where
    ps: "map_of (peers s) (sh_key h) = Some ps" "i \<in> set (sessions ps)" "pset_ok s (sh_key h) ps" by (metis option.inject)
  have sel: "dir_select (sh_key h) i (directory s) = (directory s)(sh_key h \<mapsto> (sessions ps, i))"
    using ps by (simp add: dir_select_def members_sessions)
  show ?thesis
  proof (cases "duplicate h")
    case True
    have "find (\<lambda>j. j = i) (sessions ps) = Some i" using ps(2) find_same by metis
    then have a: "PeerSet_active (ps\<lparr>ps_active := i\<rparr>) = Some i" by (simp add: PeerSet_active_def)
    show ?thesis unfolding sel
      using True ps(1) assms(3) a by (simp add: note_activity_def Let_def directory_def fun_eq_iff update_conv')
  next
    case False
    with ps assms(3) have "\<not> 1 < length (sessions ps)" unfolding pset_ok_def by fastforce
    with ps(2) have one: "sessions ps = [i]" by (cases "sessions ps"; cases "tl (sessions ps)") auto
    then have "PeerSet_active ps = Some i" by (auto simp: PeerSet_active_def)
    with one have "directory s (sh_key h) = Some (sessions ps, i)" using ps(1) by (simp add: directory_def)
    with False assms(3) show ?thesis unfolding sel by (auto simp: note_activity_def fun_eq_iff)
  qed
qed

lemma directory_quiet:
  "directory (note_preferred i p s) = directory s" "directory (s\<lparr>metrics := m\<rparr>) = directory s"
  "directory (s\<lparr>chans := Q\<rparr>) = directory s" "directory (fst (watch C i s)) = directory s"
proof -
  show "directory (note_preferred i p s) = directory s"
    by (rule directory_cong) (simp add: note_preferred_def Let_def upd_handle_def split: option.split)
  show "directory (fst (watch C i s)) = directory s"
  proof (cases "heap s i")
    case (Some h)
    show ?thesis
    proof (cases "can_mesh h")
      case True
      show ?thesis using directory_only_queues [OF only_queues_watch [OF Some True, of C]] by (simp add: directory_def fun_eq_iff)
    qed (simp add: watch_refused [OF Some])
  qed (simp add: watch_def)
qed (simp_all add: directory_def fun_eq_iff)

subsection \<open>Simulation\<close>

lemma directory_step:
  assumes inv: "relay_inv s" and step: "relay_step C s t"
  shows "dir_step (directory s) (directory t)"
proof -
  have pi: "peers_inv s" using inv by (simp add: relay_inv_def)
  have live: "i \<in> live_set s \<Longrightarrow> \<exists>h. heap s i = Some h \<and> i \<in> set (members (directory s) (sh_key h))" for i
    using live_handle [OF pi] by (metis members_directory sess_of_iff)
  have same: "dir_step (directory s) (directory u)" if "directory u = directory s" for u
    using that dir_step.stay by simp
  from step show ?thesis
  proof cases
    case (register now key ep mesh ack prober nideal)
    have "next_id s \<notin> live_set s" using inv by (intro not_live_next) (simp_all add: relay_inv_def)
    moreover have "live_set s = (\<Union>k. sess_of s k)" using pi by (intro live_set_UN) (simp add: peers_inv_def)
    ultimately have "next_id s \<notin> set (members (directory s) k)" for k by (auto simp: members_directory)
    then show ?thesis by (simp add: register(1) directory_register dir_step.join)
  next
    case (unregister i)
    from live [OF unregister(2)] directory_unregister [OF inv unregister(2)] show ?thesis
      by (auto simp: unregister(1) intro: dir_step.leave)
  next
    case (activity i)
    from live [OF activity(2)] directory_activity [OF inv activity(2)] show ?thesis
      by (auto simp: activity(1) intro: dir_step.select)
  qed (auto intro!: same simp: directory_quiet directory_same_ctrl [OF same_ctrl_route] directory_same_ctrl [OF same_ctrl_close_peer]
      directory_same_ctrl [OF same_ctrl_send] directory_same_ctrl [OF same_ctrl_restart]
      directory_same_ctrl [OF same_ctrl_add_mesh_route] directory_same_ctrl [OF same_ctrl_remove_mesh_route]
      directory_same_ctrl [OF same_ctrl_remove_mesh] directory_only_queues [OF only_queues_chan_send])
qed

interpretation relay_dir: simulation relay_init "relay_step C" relay_inv dir_init dir_step directory for C
proof unfold_locales
  show "dir_init (directory s)" if "relay_init s" for s :: "'a Relay"
    using that by (auto simp: relay_init_def Relay_new_def directory_def dir_init_def fun_eq_iff)
  show "dir_step\<^sup>*\<^sup>* (directory s) (directory t)" if "relay_inv s" "relay_step C s t" for C and s t :: "'a Relay"
    using directory_step [OF that] by blast
qed

lemma receiver_active: "relay_inv s \<Longrightarrow> active k s = receiver (directory s) k"
  by (cases "map_of (peers s) k")
    (auto simp: active_def receiver_def directory_def relay_inv_def index_inv_def peers_inv_def pset_ok_def
      simp flip: PeerSet_active_None)

end
