(* ===== verification/Derp_Config.thy ===== *)
theory Derp_Config
  imports Derp_Keyfile Derp_Protocol
begin

text \<open>
  The configuration (\<open>src/src/config.rs\<close>) with its duration parser, and the helpers of
  \<open>src/src/main.rs\<close> that turn options into values. The command line itself is parsed by clap.
\<close>

type_synonym path = string

text \<open>A \<open>Duration\<close> is a number of nanoseconds.\<close>

record Config =
  addr :: SocketAddr
  stun_addr :: string
  private_key :: path
  tls_cert :: "path option"
  tls_key :: "path option"
  mesh_psk_file :: "path option"
  mesh_with :: "string list"
  verify_client_url :: "string option"
  verify_client_fail_open :: bool
  cfg_queue_depth :: nat
  rate_limit :: u64
  rate_burst :: u64
  write_timeout :: nat
  bootstrap_dns_file :: "path option"
  shutdown_grace :: nat

subsection \<open>Durations\<close>

definition strip_suffix :: "string \<Rightarrow> string \<Rightarrow> string option" where
  "strip_suffix p s =
     (if length p \<le> length s \<and> drop (length s - length p) s = p
      then Some (take (length s - length p) s) else None)"

definition digit :: "char \<Rightarrow> nat option" where
  "digit c = (if 48 \<le> (of_char c :: nat) \<and> (of_char c :: nat) \<le> 57 then Some (of_char c - 48) else None)"

text \<open>The digits of \<open>u64::from_str\<close>, which stops at the first overflow.\<close>

fun parse_digits :: "string \<Rightarrow> nat \<Rightarrow> nat option" where
  "parse_digits [] acc = Some acc"
| "parse_digits (c # cs) acc =
     (case digit c of
        None \<Rightarrow> None
      | Some d \<Rightarrow> (let acc = acc * 10 + d in if acc < 2 ^ 64 then parse_digits cs acc else None))"

text \<open>\<open>u64::from_str\<close>: an optional plus sign and at least one digit.\<close>

definition parse_u64 :: "string \<Rightarrow> u64 option" where
  "parse_u64 s =
     (let ds = (case s of c # cs \<Rightarrow> if c = CHR ''+'' then cs else s | [] \<Rightarrow> []) in
      if ds = [] then None else map_option of_nat (parse_digits ds 0))"

definition saturating_mul :: "u64 \<Rightarrow> u64 \<Rightarrow> u64" where
  "saturating_mul a b = of_nat (min (unat a * unat b) (2 ^ 64 - 1))"

definition parse_duration :: "string \<Rightarrow> string + nat" where
  "parse_duration value =
     (case (case strip_suffix ''ms'' value of
              Some v \<Rightarrow> Some (v, 1000000)
            | None \<Rightarrow>
                (case strip_suffix ''s'' value of
                   Some v \<Rightarrow> Some (v, 1000000000)
                 | None \<Rightarrow>
                     (case strip_suffix ''m'' value of
                        Some v \<Rightarrow> Some (v, 60000000000)
                      | None \<Rightarrow> None))) of
        None \<Rightarrow> Inl ''duration needs ms, s, or m suffix''
      | Some (v, factor) \<Rightarrow>
          (case parse_u64 v of
             None \<Rightarrow> Inl ''invalid duration''
           | Some n \<Rightarrow> Inr (unat (saturating_mul n factor))))"

subsection \<open>Options of the program\<close>

datatype 'h StartError = StartIo IoErrorKind | StartHex 'h | StartMsg string

definition load_mesh_key ::
    "'h hex_lib \<Rightarrow> path option \<Rightarrow> file_system \<Rightarrow> 'h StartError + bytes option" where
  "load_mesh_key H p fs =
     (case p of
        None \<Rightarrow> Inr None
      | Some path \<Rightarrow>
          (case read_to_string path fs of
             Inl e \<Rightarrow> Inl (StartIo e)
           | Inr text \<Rightarrow>
               (case hex_decode H (trim text) of
                  Inl e \<Rightarrow> Inl (StartHex e)
                | Inr raw \<Rightarrow>
                    if length raw = 32 then Inr (Some raw)
                    else Inl (StartMsg ''mesh PSK must be exactly 32 bytes''))))"

text \<open>\<open>config.shutdown_grace.as_millis().min(u32::MAX as u128) as u32\<close> and \<open>ms.saturating_mul(3)\<close>.\<close>

definition grace_ms :: "nat \<Rightarrow> u32" where
  "grace_ms grace = of_nat (min (grace div 1000000) (2 ^ 32 - 1))"

definition restart_window :: "nat \<Rightarrow> u32 \<times> u32" where
  "restart_window grace =
     (let ms = grace_ms grace in (ms, of_nat (min (unat ms * 3) (2 ^ 32 - 1))))"

subsection \<open>Properties of the parsers\<close>

lemma digit_digit_char: "n < 10 \<Longrightarrow> digit (digit_char n) = Some n"
  by (simp add: digit_def digit_char_def)

lemma parse_digits_snoc:
  assumes "parse_digits ds acc = Some n" "n * 10 + d < 2 ^ 64" "d < 10"
  shows "parse_digits (ds @ [digit_char d]) acc = Some (n * 10 + d)"
  using assms
  by (induction ds acc rule: parse_digits.induct)
    (simp_all add: digit_digit_char Let_def split: option.splits if_splits)

lemma parse_shown_digits: "n < 2 ^ 64 \<Longrightarrow> parse_digits (show_nat n) 0 = Some n"
proof (induction n rule: show_nat.induct)
  case (1 n)
  show ?case
  proof (cases "n < 10")
    case True
    then show ?thesis by (subst show_nat.simps) (simp add: digit_digit_char)
  next
    case False
    have "n div 10 * 10 + n mod 10 = n" by simp
    moreover have "parse_digits (show_nat (n div 10)) 0 = Some (n div 10)" using 1 False by simp
    ultimately have "parse_digits (show_nat (n div 10) @ [digit_char (n mod 10)]) 0 = Some n"
      using parse_digits_snoc [of "show_nat (n div 10)" 0 "n div 10" "n mod 10"] 1(2) by simp
    then show ?thesis using False by (subst show_nat.simps) simp
  qed
qed

lemma show_nat_shape: "show_nat n \<noteq> [] \<and> (\<forall>c\<in>set (show_nat n). digit c \<noteq> None)"
proof (induction n rule: show_nat.induct)
  case (1 n)
  then show ?case by (subst (1 2) show_nat.simps) (auto simp: digit_digit_char)
qed

lemma strip_suffix_append [simp]: "strip_suffix p (s @ p) = Some s"
  by (simp add: strip_suffix_def)

lemma parse_u64_digits:
  assumes "n < 2 ^ 64"
  shows "parse_u64 (show_nat n) = Some (of_nat n)"
proof -
  obtain c cs where d: "show_nat n = c # cs" "digit c \<noteq> None"
    using show_nat_shape [of n] by (cases "show_nat n") auto
  then have "c \<noteq> CHR ''+''" by (auto simp: digit_def)
  with d parse_shown_digits [OF assms] show ?thesis by (simp add: parse_u64_def)
qed

lemma strip_suffix_last: "c \<noteq> d \<Longrightarrow> strip_suffix [c] (s @ [d]) = None"
  by (simp add: strip_suffix_def)

lemma strip_suffix_ms: "s = [] \<or> last s \<noteq> CHR ''m'' \<Longrightarrow> strip_suffix ''ms'' (s @ ''s'') = None"
  by (cases s rule: rev_cases) (simp_all add: strip_suffix_def)

lemma strip_suffix_m: "strip_suffix ''ms'' (s @ ''m'') = None"
  by (cases s rule: rev_cases) (simp_all add: strip_suffix_def)

text \<open>
  A duration option is read as written: a decimal number with the suffix \<open>ms\<close>, \<open>s\<close> or \<open>m\<close> gives
  that many nanoseconds, saturated at the 64-bit maximum, and a value without such a suffix is refused.
\<close>

theorem durations_parse:
  assumes "n < 2 ^ 64"
  shows "parse_duration (show_nat n @ ''ms'') = Inr (min (n * 1000000) (2 ^ 64 - 1)) \<and>
    parse_duration (show_nat n @ ''s'') = Inr (min (n * 1000000000) (2 ^ 64 - 1)) \<and>
    parse_duration (show_nat n @ ''m'') = Inr (min (n * 60000000000) (2 ^ 64 - 1)) \<and>
    parse_duration (show_nat n) = Inl ''duration needs ms, s, or m suffix''"
proof -
  let ?d = "show_nat n"
  have ne: "?d \<noteq> []" and dig: "digit (last ?d) \<noteq> None"
    using show_nat_shape [of n] by (auto simp: last_in_set)
  from dig have l: "last ?d \<noteq> CHR ''m''" "last ?d \<noteq> CHR ''s''" by (auto simp: digit_def)
  have sat: "unat (saturating_mul (of_nat n) k) = min (n * unat k) (2 ^ 64 - 1)" for k
  proof -
    have "min (n * unat k) (2 ^ 64 - 1) < 2 ^ 64" by simp
    then show ?thesis using assms by (simp add: saturating_mul_def unat_of_nat)
  qed
  have "parse_duration (?d @ ''ms'') = Inr (min (n * 1000000) (2 ^ 64 - 1))"
    by (simp only: parse_duration_def strip_suffix_append option.case prod.case parse_u64_digits [OF assms] sat) simp
  moreover have "parse_duration (?d @ ''s'') = Inr (min (n * 1000000000) (2 ^ 64 - 1))"
    using strip_suffix_ms [of ?d] l(1)
    by (simp only: parse_duration_def strip_suffix_append option.case prod.case parse_u64_digits [OF assms] sat simp_thms) simp
  moreover have "parse_duration (?d @ ''m'') = Inr (min (n * 60000000000) (2 ^ 64 - 1))"
    using strip_suffix_m [of ?d] strip_suffix_last [of "CHR ''s''" "CHR ''m''" ?d]
    by (simp only: parse_duration_def strip_suffix_append option.case prod.case parse_u64_digits [OF assms] sat char.inject simp_thms) simp
  moreover have "parse_duration ?d = Inl ''duration needs ms, s, or m suffix''"
  proof -
    obtain xs c where x: "?d = xs @ [c]" using ne by (cases ?d rule: rev_cases) auto
    with l have c: "c \<noteq> CHR ''m''" "c \<noteq> CHR ''s''" by auto
    have "strip_suffix ''ms'' (xs @ [c]) = None"
      using c by (cases xs rule: rev_cases) (auto simp: strip_suffix_def)
    with c strip_suffix_last show ?thesis by (simp add: parse_duration_def x)
  qed
  ultimately show ?thesis by blast
qed

theorem durations_parse_witness: "parse_duration (show_nat 5 @ ''s'') = Inr 5000000000"
  using durations_parse [of 5] by simp

text \<open>
  The restart announcement fits its frame: both windows are below \<open>2^32\<close> milliseconds, the retry
  window is never shorter than the reconnect window, and for a grace period of up to sixteen days they
  are exactly the period and three times the period.
\<close>

theorem restart_window_ok:
  assumes "restart_window grace = (a, b)"
  shows "a \<le> b \<and> (grace div 1000000 * 3 < 2 ^ 32 \<longrightarrow>
    unat a = grace div 1000000 \<and> unat b = 3 * (grace div 1000000))"
proof -
  let ?m = "min (grace div 1000000) (2 ^ 32 - 1) :: nat"
  have a: "unat a = ?m" and b: "unat b = min (?m * 3) (2 ^ 32 - 1)"
    using assms by (auto simp: restart_window_def grace_ms_def Let_def unat_of_nat)
  have "?m \<le> min (?m * 3) (2 ^ 32 - 1)" by simp
  then have "a \<le> b" unfolding word_le_nat_alt a b .
  with a b show ?thesis by auto
qed

theorem restart_window_ok_witness: "unat (snd (restart_window 5000000000)) = 15000"
proof -
  obtain a b where r: "restart_window 5000000000 = (a, b)" by fastforce
  from restart_window_ok [OF this] r show ?thesis by simp
qed

end
