(* ===== verification/Derp_Server.thy ===== *)
theory Derp_Server
  imports Derp_Config Derp_Relay_Delivery
begin

text \<open>
  A client's session (\<open>src/src/server.rs\<close>): the handshake with the identity proof and admission, the
  reader that dispatches the client's frames to the relay, the writer that batches queued frames, and
  the end of the session. Parameters are the crates: \<open>crypto_box\<close> (record \<open>box_lib\<close>), \<open>serde_json\<close> on
  the two handshake payloads (record \<open>json_lib\<close>), the HTTP client of the admission request, and tokio's
  channels. The writing half of the connection is a sink with the outcome of each write; \<open>late\<close> says
  which timeouts elapse.
\<close>

subsection \<open>Errors\<close>

text \<open>\<open>anyhow::Error\<close>: the causes that occur here, with \<open>context\<close> wrapping another error.\<close>

datatype ServerError =
    SeIo IoErrorKind
  | SeProtocol ProtocolError
  | SeKey "unit KeyError"
  | SeJson
  | SeHttp
  | SeElapsed
  | SeBail string
  | SePanic
  | SeContext string ServerError

text \<open>The \<open>io::Error\<close>s in the chain of an error; \<open>ProtocolError::Io\<close> has one as its source.\<close>

fun chain_io :: "ServerError \<Rightarrow> IoErrorKind list" where
  "chain_io (SeIo k) = [k]"
| "chain_io (SeProtocol (Io k)) = [k]"
| "chain_io (SeContext _ e) = chain_io e"
| "chain_io _ = []"

definition is_disconnect :: "ServerError \<Rightarrow> bool" where
  "is_disconnect e = list_ex (\<lambda>k. k = UnexpectedEof \<or> k = ConnectionReset \<or> k = BrokenPipe) (chain_io e)"

subsection \<open>The libraries and the server\<close>

record json_lib =
  ci_from :: "bytes \<Rightarrow> ClientInfo option"
  ci_to :: "ClientInfo \<Rightarrow> bytes option"
  si_from :: "bytes \<Rightarrow> ServerInfo option"
  si_to :: "ServerInfo \<Rightarrow> bytes option"

definition json_lib_ok :: "json_lib \<Rightarrow> bool" where
  "json_lib_ok J \<longleftrightarrow>
     (\<forall>ci bs. ci_to J ci = Some bs \<longrightarrow> ci_from J bs = Some ci) \<and>
     (\<forall>si bs. si_to J si = Some bs \<longrightarrow> si_from J bs = Some si)"

text \<open>The address of \<open>AdmitRequest\<close> is kept as a value; the request carries its text.\<close>

record AdmitRequest =
  node_public :: string
  admit_source :: IpAddr

text \<open>
  The outcome of the admission request: no response, or a status and the \<open>allow\<close> field of the body
  (\<open>None\<close> when the body is not the expected JSON).
\<close>

datatype admit_result = NoResponse | Response nat "bool option"

type_synonym admission = "string \<Rightarrow> AdmitRequest \<Rightarrow> admit_result"

record DerpServer =
  config :: Config
  srv_key :: NodeKeyPair

record 'w sink =
  write_all :: "'w \<Rightarrow> bytes \<Rightarrow> IoErrorKind + 'w"
  flush :: "'w \<Rightarrow> IoErrorKind + 'w"

definition server_relay :: "Config \<Rightarrow> bytes option \<Rightarrow> 'ch Relay" where
  "server_relay cfg mkey = Relay_new (cfg_queue_depth cfg) mkey"

definition is_success :: "nat \<Rightarrow> bool" where
  "is_success status \<longleftrightarrow> 200 \<le> status \<and> status < 300"

subsection \<open>Admission\<close>

definition admit ::
    "unit hex_lib \<Rightarrow> admission \<Rightarrow> Config \<Rightarrow> NodeKey \<Rightarrow> IpAddr \<Rightarrow> 'ch Relay \<Rightarrow> 'ch Relay \<times> (ServerError + unit)" where
  "admit H post cfg key source s =
     (case verify_client_url cfg of
        None \<Rightarrow> (s, Inr ())
      | Some url \<Rightarrow>
          (case post url \<lparr>node_public = NodeKey_display H key, admit_source = source\<rparr> of
             NoResponse \<Rightarrow> if verify_client_fail_open cfg then (s, Inr ()) else (s, Inl SeHttp)
           | Response status body \<Rightarrow>
               if \<not> is_success status then (s, Inl (SeBail ''admission controller returned''))
               else (case body of
                       None \<Rightarrow> (s, Inl SeHttp)
                     | Some ok \<Rightarrow>
                         if \<not> ok
                         then (upd_metrics (\<lambda>m. m\<lparr>admission_rejected := inc (admission_rejected m) 1\<rparr>) s,
                               Inl (SeBail ''client rejected by admission controller''))
                         else (s, Inr ()))))"

subsection \<open>The reader\<close>

definition frame_cost :: "Frame \<Rightarrow> nat" where
  "frame_cost f =
     (case f of
        SendPacket _ packet \<Rightarrow> length packet + 64
      | ForwardPacket _ _ packet \<Rightarrow> length packet + 64
      | _ \<Rightarrow> 64)"

definition READ_LIMIT :: nat where
  "READ_LIMIT = MAX_PACKET_SIZE + KEY_LEN * 2 + 1024"

definition no_mesh :: ServerError where
  "no_mesh = SeBail ''insufficient mesh permissions''"

text \<open>The match of the reader's loop, in the order of its arms; \<open>h\<close> is the session's handle.\<close>

definition dispatch ::
    "'ch mpsc \<Rightarrow> nat \<Rightarrow> SessionHandle \<Rightarrow> Frame \<Rightarrow> 'ch Relay \<Rightarrow> 'ch Relay \<times> (ServerError + unit)" where
  "dispatch C now h f s =
     (case f of
        SendPacket dst packet \<Rightarrow> (route C now (sh_id h) (sh_key h) dst packet False s, Inr ())
      | ForwardPacket src dst packet \<Rightarrow>
          if can_mesh h then (route C now (sh_id h) src dst packet True s, Inr ()) else (s, Inl no_mesh)
      | WatchConns \<Rightarrow>
          if \<not> can_mesh h then (s, Inl no_mesh)
          else (case watch C (sh_id h) s of (s, ok) \<Rightarrow> (s, if ok then Inr () else Inl no_mesh))
      | ClosePeer peer \<Rightarrow>
          if \<not> can_mesh h then (s, Inl no_mesh) else (fst (close_peer (sh_id h) peer s), Inr ())
      | Ping value \<Rightarrow> (fst (send C (sh_id h) (Pong value) s), Inr ())
      | NotePreferred pref \<Rightarrow> (note_preferred (sh_id h) pref s, Inr ())
      | Pong _ \<Rightarrow> (s, Inr ())
      | KeepAlive \<Rightarrow> (s, Inr ())
      | Unknown _ _ \<Rightarrow>
          (upd_metrics (\<lambda>m. m\<lparr>unknown_frames := inc (unknown_frames m) 1\<rparr>) s, Inr ())
      | _ \<Rightarrow> (s, Inl (SeBail ''unexpected client frame type'')))"

text \<open>One turn of the loop after a frame was read; the three clock readings are in order.\<close>

definition reader_turn ::
    "'ch mpsc \<Rightarrow> nat \<times> nat \<times> nat \<Rightarrow> SessionHandle \<Rightarrow> Frame \<Rightarrow> TokenBucket \<Rightarrow> 'ch Relay
       \<Rightarrow> TokenBucket \<times> 'ch Relay \<times> (ServerError + unit)" where
  "reader_turn C ts h f tb s =
     (let (now, wake, later) = ts;
          tb = (if \<not> can_mesh h then fst (consume now wake (frame_cost f) tb) else tb);
          s = note_activity (sh_id h) s;
          (s, r) = dispatch C later h f s
      in (tb, s, r))"

text \<open>
  The reader with a bound on the number of frames it reads: \<open>None\<close> says that it is still reading
  when the bound is reached. \<open>clk i\<close> are the clock readings of turn \<open>i\<close>.
\<close>

fun reader ::
    "'ch mpsc \<Rightarrow> (nat \<Rightarrow> nat \<times> nat \<times> nat) \<Rightarrow> SessionHandle \<Rightarrow> nat \<Rightarrow> stream \<Rightarrow> TokenBucket \<Rightarrow> 'ch Relay
       \<Rightarrow> 'ch Relay \<times> ServerError option" where
  "reader C clk h 0 input tb s = (s, None)"
| "reader C clk h (Suc n) input tb s =
     (case read_frame input READ_LIMIT of
        Inl e \<Rightarrow> (s, Some (SeProtocol e))
      | Inr (f, input) \<Rightarrow>
          (case reader_turn C (clk 0) h f tb s of
             (tb, s, Inl e) \<Rightarrow> (s, Some e)
           | (tb, s, Inr _) \<Rightarrow> reader C (\<lambda>i. clk (Suc i)) h n input tb s))"

subsection \<open>The writer\<close>

definition MAX_BATCH_BYTES :: nat where
  "MAX_BATCH_BYTES = 65536"

text \<open>The loop that fills the batch from the queue, for at most \<open>n\<close> further frames.\<close>

fun fill_batch :: "'ch mpsc \<Rightarrow> nat \<Rightarrow> 'ch \<Rightarrow> bytes \<Rightarrow> (ProtocolError + bytes) \<times> 'ch" where
  "fill_batch C 0 q batch = (Inr batch, q)"
| "fill_batch C (Suc n) q batch =
     (if length batch \<ge> MAX_BATCH_BYTES then (Inr batch, q)
      else case try_recv C q of
             None \<Rightarrow> (Inr batch, q)
           | Some (f, q) \<Rightarrow>
               (case encode_into f batch of
                  (batch, Inl e) \<Rightarrow> (Inl e, q)
                | (batch, Inr _) \<Rightarrow> fill_batch C n q batch))"

definition put_out :: "'w sink \<Rightarrow> bool \<Rightarrow> string \<Rightarrow> 'w \<Rightarrow> bytes \<Rightarrow> ServerError + 'w" where
  "put_out K elapsed what w bytes =
     (if elapsed then Inl (SeContext what SeElapsed)
      else case write_all K w bytes of
             Inl e \<Rightarrow> Inl (SeIo e)
           | Inr w \<Rightarrow> (case flush K w of Inl e \<Rightarrow> Inl (SeIo e) | Inr w \<Rightarrow> Inr w))"

definition write_batch ::
    "'ch mpsc \<Rightarrow> 'w sink \<Rightarrow> bool \<Rightarrow> Frame \<Rightarrow> 'ch \<Rightarrow> 'w \<Rightarrow> (ServerError + 'w) \<times> 'ch" where
  "write_batch C K elapsed first q w =
     (case encode_into first [] of
        (batch, Inl e) \<Rightarrow> (Inl (SeProtocol e), q)
      | (batch, Inr _) \<Rightarrow>
          (case fill_batch C 63 q batch of
             (Inl e, q) \<Rightarrow> (Inl (SeProtocol e), q)
           | (Inr batch, q) \<Rightarrow> (put_out K elapsed ''DERP write timeout'' w batch, q)))"

definition write_control :: "'w sink \<Rightarrow> bool \<Rightarrow> Frame \<Rightarrow> 'w \<Rightarrow> ServerError + 'w" where
  "write_control K elapsed f w =
     (case encode_into f [] of
        (batch, Inl e) \<Rightarrow> Inl (SeProtocol e)
      | (batch, Inr _) \<Rightarrow> put_out K elapsed ''DERP control write timeout'' w batch)"

text \<open>
  One turn of the writer's biased \<open>select!\<close>: what is ready besides the queue, the random ping, and
  whether a write times out. The branches are tried in the order of the source. \<open>None\<close> for the
  result says that the loop goes on. The handle keeps a sender, so the queue is never closed from the
  sending side; the branch that shrinks the batch buffer only affects its capacity.
\<close>

record turn =
  keepalive_due :: bool
  close_due :: bool
  nonce8 :: bytes
  write_late :: bool

definition writer_turn ::
    "'ch mpsc \<Rightarrow> 'w sink \<Rightarrow> turn \<Rightarrow> SessionHandle \<Rightarrow> 'ch \<Rightarrow> 'w \<Rightarrow> 'ch \<times> 'w \<times> (ServerError + unit) option" where
  "writer_turn C K t h q w =
     (case try_recv C q of
        Some (f, q) \<Rightarrow>
          (case write_batch C K (write_late t) f q w of
             (Inl e, q) \<Rightarrow> (q, w, Some (Inl e))
           | (Inr w, q) \<Rightarrow> (q, w, None))
      | None \<Rightarrow>
          if keepalive_due t then
            (case write_control K (write_late t) (if can_ack_pings h then Ping (nonce8 t) else KeepAlive) w of
               Inl e \<Rightarrow> (q, w, Some (Inl e))
             | Inr w \<Rightarrow> (q, w, None))
          else if close_due t \<and> is_closed h then (q, w, Some (Inr ()))
          else (q, w, None))"

text \<open>The writer over a sequence of turns; \<open>None\<close> says that it is still running after them.\<close>

fun writer ::
    "'ch mpsc \<Rightarrow> 'w sink \<Rightarrow> turn list \<Rightarrow> SessionHandle \<Rightarrow> 'ch \<Rightarrow> 'w \<Rightarrow> 'ch \<times> 'w \<times> (ServerError + unit) option" where
  "writer C K [] h q w = (q, w, None)"
| "writer C K (t # ts) h q w =
     (case writer_turn C K t h q w of
        (q, w, Some r) \<Rightarrow> (q, w, Some r)
      | (q, w, None) \<Rightarrow> writer C K ts h q w)"

subsection \<open>The session\<close>

definition CLIENT_INFO_LIMIT :: nat where
  "CLIENT_INFO_LIMIT = MAX_CLIENT_INFO_SIZE + KEY_LEN + 64"

text \<open>The identity proof: the client's key and its information, from its first frame.\<close>

definition client_identity ::
    "box_lib \<Rightarrow> json_lib \<Rightarrow> NodeKeyPair \<Rightarrow> Frame \<Rightarrow> ServerError + (NodeKey \<times> ClientInfo)" where
  "client_identity B J kp f =
     (case f of
        ClientInfoF client_key sealed \<Rightarrow>
          (case open_from B kp client_key sealed of
             Inl e \<Rightarrow> Inl (SeContext ''invalid client identity proof'' (SeKey e))
           | Inr plaintext \<Rightarrow>
               if length plaintext > MAX_CLIENT_INFO_SIZE then Inl (SeBail ''client info JSON too large'')
               else (case ci_from J plaintext of
                       None \<Rightarrow> Inl (SeContext ''invalid client info JSON'' SeJson)
                     | Some info \<Rightarrow> Inr (client_key, info)))
      | _ \<Rightarrow> Inl (SeBail ''first client frame was not ClientInfo''))"

text \<open>\<open>serve_stream\<close> up to the registration.\<close>

definition accept_client ::
    "box_lib \<Rightarrow> json_lib \<Rightarrow> unit hex_lib \<Rightarrow> admission \<Rightarrow> 'ch mpsc \<Rightarrow> 'w sink \<Rightarrow> (string \<Rightarrow> bool) \<Rightarrow> nat
       \<Rightarrow> DerpServer \<Rightarrow> SocketAddr \<Rightarrow> bool \<Rightarrow> stream \<Rightarrow> 'w \<Rightarrow> 'ch Relay
       \<Rightarrow> 'ch Relay \<times> (ServerError + SessionId \<times> NodeKey \<times> stream \<times> 'w)" where
  "accept_client B J H post C K late now srv remote nideal input w s =
     (case public B (srv_key srv) of
        None \<Rightarrow> (s, Inl SePanic)
      | Some pk \<Rightarrow>
      if late ''server greeting timeout'' then (s, Inl (SeContext ''server greeting timeout'' SeElapsed))
      else case write_frame (write_all K) w (ServerKey pk) of
        Inl e \<Rightarrow> (s, Inl (SeProtocol e))
      | Inr w \<Rightarrow>
      case flush K w of
        Inl e \<Rightarrow> (s, Inl (SeIo e))
      | Inr w \<Rightarrow>
      if late ''client info timeout'' then (s, Inl (SeContext ''client info timeout'' SeElapsed))
      else case read_frame input CLIENT_INFO_LIMIT of
        Inl e \<Rightarrow> (s, Inl (SeProtocol e))
      | Inr (f, input) \<Rightarrow>
      case client_identity B J (srv_key srv) f of
        Inl e \<Rightarrow> (s, Inl e)
      | Inr (client_key, info) \<Rightarrow>
          (let mesh = is_mesh_key (ci_mesh_key info) s in
           case (if \<not> mesh then admit H post (config srv) client_key (ip remote) s else (s, Inr ())) of
             (s, Inl e) \<Rightarrow> (s, Inl e)
           | (s, Inr _) \<Rightarrow>
               (case register C now client_key remote mesh (ci_can_ack_pings info) (ci_is_prober info) nideal s of
                  (sid, s) \<Rightarrow> (s, Inr (sid, client_key, input, w)))))"

definition server_info :: "Config \<Rightarrow> ServerInfo" where
  "server_info cfg =
     \<lparr>si_version = PROTOCOL_VERSION,
      si_token_bucket_bytes_per_second = (if rate_limit cfg > 0 then Some (rate_limit cfg) else None),
      si_token_bucket_bytes_burst = (if rate_limit cfg > 0 then Some (rate_burst cfg) else None)\<rparr>"

definition send_info ::
    "box_lib \<Rightarrow> json_lib \<Rightarrow> 'w sink \<Rightarrow> bytes \<Rightarrow> DerpServer \<Rightarrow> NodeKey \<Rightarrow> 'w \<Rightarrow> ServerError + 'w" where
  "send_info B J K nonce srv client_key w =
     (case si_to J (server_info (config srv)) of
        None \<Rightarrow> Inl SeJson
      | Some plain \<Rightarrow>
      case seal_to B nonce (srv_key srv) client_key plain of
        Inl e \<Rightarrow> Inl (SeKey e)
      | Inr sealed \<Rightarrow>
      case write_frame (write_all K) w (ServerInfoF sealed) of
        Inl e \<Rightarrow> Inl (SeProtocol e)
      | Inr w \<Rightarrow> (case flush K w of Inl e \<Rightarrow> Inl (SeIo e) | Inr w \<Rightarrow> Inr w))"

text \<open>
  \<open>select!\<close> of the reader and the writer: they take turns in any order, over the one relay and the
  session's queue in it, until one of them returns. A turn of the reader is one frame, with its clock
  readings; the writer sees the handle as it is at its turn. \<open>None\<close> says that both still run after the
  given turns.
\<close>

datatype session_act = Reads "nat \<times> nat \<times> nat" | Writes turn

fun session_loop ::
    "'ch mpsc \<Rightarrow> 'w sink \<Rightarrow> SessionHandle \<Rightarrow> session_act list \<Rightarrow> stream \<Rightarrow> TokenBucket \<Rightarrow> 'w \<Rightarrow> 'ch Relay
       \<Rightarrow> 'ch Relay \<times> (ServerError + unit) option" where
  "session_loop C K h [] input tb w s = (s, None)"
| "session_loop C K h (Reads ts # acts) input tb w s =
     (case read_frame input READ_LIMIT of
        Inl e \<Rightarrow> (s, Some (Inl (SeProtocol e)))
      | Inr (f, input) \<Rightarrow>
          (case reader_turn C ts h f tb s of
             (tb, s, Inl e) \<Rightarrow> (s, Some (Inl e))
           | (tb, s, Inr _) \<Rightarrow> session_loop C K h acts input tb w s))"
| "session_loop C K h (Writes t # acts) input tb w s =
     (case (heap s (sh_id h), chans s (sh_tx h)) of
        (Some h', Some q) \<Rightarrow>
          (case writer_turn C K t h' q w of
             (q, w, r) \<Rightarrow>
               (let s = s\<lparr>chans := (chans s)(sh_tx h \<mapsto> q)\<rparr>
                in case r of Some r \<Rightarrow> (s, Some r) | None \<Rightarrow> session_loop C K h acts input tb w s))
      | _ \<Rightarrow> (s, Some (Inl SePanic)))"

definition session_body ::
    "'ch mpsc \<Rightarrow> 'w sink \<Rightarrow> DerpServer \<Rightarrow> session_act list \<Rightarrow> nat \<Rightarrow> SessionHandle \<Rightarrow> stream \<Rightarrow> 'w \<Rightarrow> 'ch Relay
       \<Rightarrow> 'ch Relay \<times> (ServerError + unit) option" where
  "session_body C K srv acts now h input w s =
     session_loop C K h acts input (TokenBucket_new (rate_limit (config srv)) (rate_burst (config srv)) now) w s"

definition session_result :: "ServerError + unit \<Rightarrow> ServerError + unit" where
  "session_result r = (case r of Inl e \<Rightarrow> if is_disconnect e then Inr () else Inl e | Inr u \<Rightarrow> Inr u)"

text \<open>The drop of a receiver at the end of its function.\<close>

definition hang_up :: "'ch mpsc \<Rightarrow> chan_id \<Rightarrow> 'ch Relay \<Rightarrow> 'ch Relay" where
  "hang_up C c s = s\<lparr>chans := (chans s)(c := map_option (drop_rx C) (chans s c))\<rparr>"

datatype session_status = StillRunning SessionId | SessionEnded "ServerError + unit"

definition serve_stream ::
    "box_lib \<Rightarrow> json_lib \<Rightarrow> unit hex_lib \<Rightarrow> admission \<Rightarrow> 'ch mpsc \<Rightarrow> 'w sink \<Rightarrow> (string \<Rightarrow> bool)
       \<Rightarrow> bytes \<Rightarrow> session_act list \<Rightarrow> nat
       \<Rightarrow> DerpServer \<Rightarrow> SocketAddr \<Rightarrow> bool \<Rightarrow> stream \<Rightarrow> 'w \<Rightarrow> 'ch Relay \<Rightarrow> 'ch Relay \<times> session_status" where
  "serve_stream B J H post C K late nonce acts now srv remote nideal input w s =
     (case accept_client B J H post C K late now srv remote nideal input w s of
        (s, Inl e) \<Rightarrow> (s, SessionEnded (Inl e))
      | (s, Inr (sid, client_key, input, w)) \<Rightarrow>
          (case heap s sid of
             None \<Rightarrow> (s, SessionEnded (Inl SePanic))
           | Some h \<Rightarrow>
               (case (case send_info B J K nonce srv client_key w of
                        Inl e \<Rightarrow> (s, Some (Inl e))
                      | Inr w \<Rightarrow> session_body C K srv acts now h input w s) of
                  (s, None) \<Rightarrow> (s, StillRunning sid)
                | (s, Some r) \<Rightarrow>
                    (let s = unregister C sid s
                     in (hang_up C (SessionChan sid) s, SessionEnded (session_result r))))))"

end
