(* ===== verification/Derp_Session.thy ===== *)
theory Derp_Session
  imports Derp_Server
begin

text \<open>
  What a session does to the relay: the reader is a sequence of the relay's steps, ends on every finite
  input, and never speaks for another key without mesh permission; the handshake registers only clients
  that proved their key; the writer sends the queue in order.
\<close>

subsection \<open>A session's operations are steps of the relay\<close>

lemma live_same_ctrl: "same_ctrl s t \<Longrightarrow> live_set t = live_set s"
  by (rule same_ctrl_live)

lemma live_note_activity:
  assumes "relay_inv s"
  shows "live_set (note_activity i s) = live_set s"
proof -
  have d: "distinct (map fst (peers s))" using assms by (simp add: relay_inv_def peers_inv_def)
  have dt: "distinct (map fst (peers (note_activity i s)))"
    using note_activity_inv [OF assms] by (simp add: relay_inv_def peers_inv_def)
  have "sess_of (note_activity i s) k = sess_of s k" for k
    by (auto simp: note_activity_def Let_def sess_of_def update_conv' split: option.splits if_splits)
  then show ?thesis by (simp add: live_set_UN [OF d] live_set_UN [OF dt])
qed

lemma live_note_preferred: "live_set (note_preferred i p s) = live_set s"
  by (simp add: note_preferred_def Let_def live_set_def upd_handle_def split: option.split)

lemma live_watch: "live_set (fst (watch C i s)) = live_set s"
proof (cases "heap s i")
  case (Some h)
  show ?thesis
  proof (cases "can_mesh h")
    case True
    show ?thesis using live_only_queues [OF only_queues_watch [OF Some True, of C]] by (simp add: live_set_def)
  qed (simp add: watch_refused [OF Some])
qed (simp add: watch_def)

lemma live_metrics [simp]: "live_set (s\<lparr>metrics := m\<rparr>) = live_set s"
  by (simp add: live_set_def)

lemma fst_dispatch_watch:
  "fst (case watch C i s of (t, ok) \<Rightarrow> (t, g ok)) = fst (watch C i s)"
  by (simp add: case_prod_beta)

lemma hang_up_step: "(relay_step C)\<^sup>*\<^sup>* s (hang_up C c s)"
proof (cases "chans s c")
  case None
  then have "(chans s)(c := None) = chans s" by auto
  with None show ?thesis by (simp add: hang_up_def)
next
  case (Some q)
  from relay_step.drop [OF this] Some show ?thesis by (auto simp: hang_up_def)
qed

lemma live_hang_up [simp]: "live_set (hang_up C c s) = live_set s"
  by (simp add: hang_up_def live_set_def)

lemma dispatch_step:
  assumes "sh_id h \<in> live_set s"
  shows "(relay_step C)\<^sup>*\<^sup>* s (fst (dispatch C now h f s)) \<and> live_set (fst (dispatch C now h f s)) = live_set s"
proof -
  have step: "relay_step C s t \<Longrightarrow> (relay_step C)\<^sup>*\<^sup>* s t" for t by blast
  show ?thesis
    using assms
    by (cases f)
      (auto simp: dispatch_def live_note_preferred live_same_ctrl [OF same_ctrl_route] live_same_ctrl [OF same_ctrl_send]
        live_same_ctrl [OF same_ctrl_close_peer] live_watch fst_dispatch_watch balance_def
        intro!: step intro: relay_step.intros)
qed

lemma turn_step:
  assumes "relay_inv s" "sh_id h \<in> live_set s" "reader_turn C ts h f tb s = (tb', t, r)"
  shows "(relay_step C)\<^sup>*\<^sup>* s t \<and> live_set t = live_set s"
proof -
  let ?u = "note_activity (sh_id h) s"
  obtain now wake later where ts: "ts = (now, wake, later)" by (cases ts)
  have t: "t = fst (dispatch C later h f ?u)"
    using assms(3) by (auto simp: reader_turn_def Let_def ts split: prod.splits)
  have lu: "live_set ?u = live_set s" by (rule live_note_activity [OF assms(1)])
  then have "sh_id h \<in> live_set ?u" using assms(2) by simp
  from dispatch_step [OF this, of C later f] lu have "(relay_step C)\<^sup>*\<^sup>* ?u t" "live_set t = live_set s" by (simp_all add: t)
  moreover have "relay_step C s ?u" using assms(2) by (rule relay_step.activity)
  ultimately show ?thesis by (simp add: converse_rtranclp_into_rtranclp)
qed

lemma reader_steps:
  assumes "relay_inv s" "sh_id h \<in> live_set s"
  shows "(relay_step C)\<^sup>*\<^sup>* s (fst (reader C clk h n input tb s)) \<and>
    live_set (fst (reader C clk h n input tb s)) = live_set s"
  using assms
proof (induction n arbitrary: clk input tb s)
  case (Suc n)
  show ?case
  proof (cases "read_frame input READ_LIMIT")
    case (Inr fi)
    obtain f input' where fi: "fi = (f, input')" by (cases fi)
    obtain tb' t r where t: "reader_turn C (clk 0) h f tb s = (tb', t, r)" by (cases "reader_turn C (clk 0) h f tb s")
    note st = turn_step [OF Suc.prems t]
    have inv: "relay_inv t" using relay.steps_inv [of C s t] st Suc.prems(1) by blast
    show ?thesis
    proof (cases r)
      case (Inr u)
      have "sh_id h \<in> live_set t" using st Suc.prems(2) by simp
      from Suc.IH [OF inv this, of "\<lambda>i. clk (Suc i)" input' tb'] st show ?thesis
        by (simp add: Inr fi t \<open>read_frame input READ_LIMIT = Inr fi\<close>) (metis rtranclp_trans)
    qed (simp add: Inr fi t st)
  qed simp
qed simp

text \<open>The writer only takes frames from its queue.\<close>

lemma live_chans [simp]: "live_set (s\<lparr>chans := Q\<rparr>) = live_set s"
  by (simp add: live_set_def)

lemma writer_turn_recv:
  assumes "writer_turn C K t h q w = (q', w', r)"
  shows "(\<lambda>q q'. \<exists>f. try_recv C q = Some (f, q'))\<^sup>*\<^sup>* q q'"
proof -
  have fill: "(\<lambda>q q'. \<exists>f. try_recv C q = Some (f, q'))\<^sup>*\<^sup>* q (snd (fill_batch C n q b))" for n q b
  proof (induction n arbitrary: q b)
    case (Suc n)
    show ?case
    proof (cases "try_recv C q")
      case (Some fq)
      obtain f q1 where fq: "fq = (f, q1)" by (cases fq)
      have one: "(\<lambda>q q'. \<exists>f. try_recv C q = Some (f, q')) q q1" using Some fq by blast
      have "(\<lambda>q q'. \<exists>f. try_recv C q = Some (f, q'))\<^sup>*\<^sup>* q (snd (fill_batch C n q1 b'))" for b'
        using converse_rtranclp_into_rtranclp [of "\<lambda>q q'. \<exists>f. try_recv C q = Some (f, q')", OF one Suc.IH] .
      with Some fq one show ?thesis by (auto split: sum.split prod.split)
    qed simp
  qed simp
  show ?thesis
  proof (cases "try_recv C q")
    case None
    with assms show ?thesis by (auto simp: writer_turn_def split: sum.splits if_splits)
  next
    case (Some fq)
    obtain f q1 where fq: "fq = (f, q1)" by (cases fq)
    have one: "(\<lambda>q q'. \<exists>f. try_recv C q = Some (f, q')) q q1" using Some fq by blast
    have "q' = q1 \<or> (\<exists>b x. fill_batch C 63 q1 b = (x, q'))"
      using assms Some fq by (auto simp: writer_turn_def write_batch_def split: prod.splits sum.splits)
    then have "(\<lambda>q q'. \<exists>f. try_recv C q = Some (f, q'))\<^sup>*\<^sup>* q1 q'" using fill [of q1 63]
      by (metis rtranclp.rtrancl_refl snd_conv)
    with one show ?thesis by (rule converse_rtranclp_into_rtranclp)
  qed
qed

lemma recv_steps:
  assumes "(\<lambda>q q'. \<exists>f. try_recv C q = Some (f, q'))\<^sup>*\<^sup>* q q'" "chans s c = Some q"
  shows "(relay_step C)\<^sup>*\<^sup>* s (s\<lparr>chans := (chans s)(c \<mapsto> q')\<rparr>)"
  using assms
proof (induction rule: rtranclp_induct)
  case base
  then have "(chans s)(c \<mapsto> q) = chans s" by auto
  then show ?case by simp
next
  case (step q1 q2)
  let ?s = "s\<lparr>chans := (chans s)(c \<mapsto> q1)\<rparr>"
  from step.hyps(2) obtain f where "try_recv C q1 = Some (f, q2)" by blast
  then have "relay_step C ?s (?s\<lparr>chans := (chans ?s)(c \<mapsto> q2)\<rparr>)" by (intro relay_step.recv) simp_all
  moreover have "?s\<lparr>chans := (chans ?s)(c \<mapsto> q2)\<rparr> = s\<lparr>chans := (chans s)(c \<mapsto> q2)\<rparr>" by simp
  ultimately show ?case using rtranclp.rtrancl_into_rtrancl [OF step.IH [OF step.prems]] by metis
qed

lemma session_loop_steps:
  assumes "relay_inv s" "sh_id h \<in> live_set s" "session_loop C K h acts input tb w s = (t, r)"
  shows "(relay_step C)\<^sup>*\<^sup>* s t \<and> live_set t = live_set s"
  using assms
proof (induction C K h acts input tb w s rule: session_loop.induct)
  case (1 C K h input tb w s)
  then show ?case by simp
next
  case (2 C K h ts acts input tb w s)
  show ?case
  proof (cases "read_frame input READ_LIMIT")
    case (Inr fi)
    obtain f rest where fi: "fi = (f, rest)" by (cases fi)
    obtain tb' u q where tu: "reader_turn C ts h f tb s = (tb', u, q)" by (cases "reader_turn C ts h f tb s")
    note st = turn_step [OF "2.prems"(1,2) tu]
    have u: "relay_inv u" "sh_id h \<in> live_set u" using relay.steps_inv [of C s u] st "2.prems"(1,2) by auto
    show ?thesis
    proof (cases q)
      case (Inl e)
      then show ?thesis using "2.prems"(3) Inr fi tu st by simp
    next
      case r: (Inr x)
      have "session_loop C K h acts rest tb' w u = (t, r)" using "2.prems"(3) Inr fi tu r by simp
      from "2.IH" [OF Inr fi [symmetric] tu [symmetric] refl r u this] st show ?thesis by (metis rtranclp_trans)
    qed
  qed (use "2.prems"(3) in simp)
next
  case (3 C K h tn acts input tb w s)
  show ?case
  proof (cases "\<exists>h' q. heap s (sh_id h) = Some h' \<and> chans s (sh_tx h) = Some q")
    case True
    then obtain h' q where hq: "heap s (sh_id h) = Some h'" "chans s (sh_tx h) = Some q" by blast
    obtain q' w' r' where wt: "writer_turn C K tn h' q w = (q', w', r')" by (cases "writer_turn C K tn h' q w")
    let ?u = "s\<lparr>chans := (chans s)(sh_tx h \<mapsto> q')\<rparr>"
    have st: "(relay_step C)\<^sup>*\<^sup>* s ?u" by (rule recv_steps [OF writer_turn_recv [OF wt] hq(2)])
    have u: "relay_inv ?u" "sh_id h \<in> live_set ?u" using relay.steps_inv [OF st "3.prems"(1)] "3.prems"(2) by simp_all
    show ?thesis
    proof (cases r')
      case None
      have "session_loop C K h acts input tb w' ?u = (t, r)" using "3.prems"(3) hq wt None by simp
      from "3.IH" [OF refl hq wt [symmetric] refl refl None u this] st show ?thesis by (auto intro: rtranclp_trans)
    next
      case (Some x)
      then show ?thesis using "3.prems"(3) hq wt st by auto
    qed
  qed (use "3.prems"(3) in \<open>auto split: option.splits\<close>)
qed

subsection \<open>The reader ends\<close>

lemma read_frame_consumes:
  assumes "read_frame input m = Inr (f, rest)"
  shows "length (fst rest) + 5 \<le> length (fst input)" "snd rest = snd input"
  using assms by (auto simp: read_frame_def read_exact_def try_res_Inr Let_def split: if_splits)

lemma reader_ends:
  "length (fst input) < 5 * n \<Longrightarrow> snd (reader C clk h n input tb s) \<noteq> None"
proof (induction n arbitrary: clk input tb s)
  case (Suc n)
  show ?case
  proof (cases "read_frame input READ_LIMIT")
    case (Inr fi)
    obtain f rest where fi: "fi = (f, rest)" by (cases fi)
    have "length (fst rest) < 5 * n" using read_frame_consumes(1) [of input READ_LIMIT f rest] Inr fi Suc.prems by simp
    with Suc.IH show ?thesis by (simp add: Inr fi split: prod.split sum.split)
  qed simp
qed simp

lemma reader_more:
  "reader C clk h n input tb s = (t, Some e) \<Longrightarrow> reader C clk h (n + m) input tb s = (t, Some e)"
proof (induction n arbitrary: clk input tb s)
  case (Suc n)
  then show ?case by (auto split: sum.splits prod.splits)
qed simp

text \<open>Without turns of the writer, the session is its reader.\<close>

lemma session_loop_reader:
  "session_loop C K h (map (\<lambda>i. Reads (clk i)) [0..<n]) input tb w s =
     map_prod id (map_option Inl) (reader C clk h n input tb s)"
proof (induction n arbitrary: clk input tb s)
  case (Suc n)
  have "map (\<lambda>i. Reads (clk i)) [0..<Suc n] = Reads (clk 0) # map (\<lambda>i. Reads (clk (Suc i))) [0..<n]"
    by (simp add: map_upt_Suc del: upt_Suc)
  then show ?case
    using Suc.IH [of "\<lambda>i. clk (Suc i)"] by (auto simp del: upt_Suc split: sum.split prod.split)
qed simp

text \<open>Whatever the writer does, a session ends once its reader has had more turns than its input has frames.\<close>

lemma session_loop_ends:
  "length (fst input) < 5 * length (filter (\<lambda>a. case a of Reads _ \<Rightarrow> True | Writes _ \<Rightarrow> False) acts) \<Longrightarrow>
   snd (session_loop C K h acts input tb w s) \<noteq> None"
proof (induction C K h acts input tb w s rule: session_loop.induct)
  case (2 C K h ts acts input tb w s)
  show ?case
  proof (cases "read_frame input READ_LIMIT")
    case (Inr fi)
    obtain f rest where fi: "fi = (f, rest)" by (cases fi)
    have "length (fst rest) < 5 * length (filter (\<lambda>a. case a of Reads _ \<Rightarrow> True | Writes _ \<Rightarrow> False) acts)"
      using read_frame_consumes(1) [of input READ_LIMIT f rest] Inr fi "2.prems" by simp
    with "2.IH" [OF Inr fi [symmetric]] show ?thesis by (auto simp: Inr fi split: prod.split sum.split)
  qed simp
qed (auto simp: Let_def split: option.split prod.split)

subsection \<open>Whom a client speaks for\<close>

text \<open>The frames that carry a packet carry it in the name of a key.\<close>

fun speaks_for :: "NodeKey \<Rightarrow> Frame \<Rightarrow> bool" where
  "speaks_for k (RecvPacket src _) \<longleftrightarrow> src = k"
| "speaks_for k (ForwardPacket src _ _) \<longleftrightarrow> src = k"
| "speaks_for k _ \<longleftrightarrow> True"

text \<open>Every mailbox grows at its end only, and only by frames with a property.\<close>

definition grows_by :: "(Frame \<Rightarrow> bool) \<Rightarrow> mailboxes \<Rightarrow> mailboxes \<Rightarrow> bool" where
  "grows_by P M N \<longleftrightarrow> (\<forall>c. \<exists>new. fst (N c) = fst (M c) @ new \<and> (\<forall>f\<in>set new. P f))"

lemma grows_refl [simp, intro]: "grows_by P M M"
  by (simp add: grows_by_def)

lemma grows_trans [trans]:
  assumes "grows_by P M N" "grows_by P N L"
  shows "grows_by P M L"
  unfolding grows_by_def
proof
  fix c
  from assms obtain a b where "fst (N c) = fst (M c) @ a" "\<forall>f\<in>set a. P f" "fst (L c) = fst (N c) @ b" "\<forall>f\<in>set b. P f"
    unfolding grows_by_def by metis
  then show "\<exists>new. fst (L c) = fst (M c) @ new \<and> (\<forall>f\<in>set new. P f)" by (intro exI [of _ "a @ b"]) auto
qed

lemma grows_put: "P f \<Longrightarrow> grows_by P M (put c f M)"
  by (auto simp: grows_by_def put_def split: prod.split nat.split)

text \<open>What a handle shows through a projection, for every session ever registered.\<close>

definition proj :: "(SessionHandle \<Rightarrow> 'a) \<Rightarrow> 'ch Relay \<Rightarrow> SessionId \<Rightarrow> 'a option" where
  "proj p s j = map_option p (heap s j)"

abbreviation closed_of :: "'ch Relay \<Rightarrow> SessionId \<Rightarrow> bool option" where
  "closed_of \<equiv> proj sh_closed"

lemma proj_upd_handle: "(\<And>h. p (g h) = p h) \<Longrightarrow> proj p (upd_handle i g s) = proj p s"
  by (auto simp: proj_def upd_handle_def fun_eq_iff option.map_comp comp_def)

lemma proj_simps [simp]:
  "proj p (s\<lparr>metrics := m\<rparr>) = proj p s" "proj p (s\<lparr>reverse_paths := r\<rparr>) = proj p s"
  "proj p (s\<lparr>peers := P\<rparr>) = proj p s" "proj p (s\<lparr>active_ix := A\<rparr>) = proj p s"
  "proj p (s\<lparr>chans := Q\<rparr>) = proj p s" "proj p (s\<lparr>mesh_routes := R\<rparr>) = proj p s"
  "proj p (received x s) = proj p s" "proj p (count_in b s) = proj p s" "proj p (hang_up C c s) = proj p s"
  by (simp_all add: proj_def fun_eq_iff received_def count_in_def hang_up_def Let_def)

lemma proj_only_queues: "only_queues s t \<Longrightarrow> proj p t = proj p s"
  by (simp add: proj_def fun_eq_iff relay_frame)

lemma proj_send [simp]: "proj p (fst (send C i f s)) = proj p s"
  by (rule proj_only_queues [OF only_queues_send])

lemma proj_route:
  assumes "\<And>h x. p (h\<lparr>seen_sources := x\<rparr>) = p h" "\<And>h x. p (h\<lparr>peer_gone_limiter := x\<rparr>) = p h"
  shows "proj p (route C now i src dst packet b s) = proj p s"
proof -
  let ?r = "received packet s"
  have loc: "proj p (route_local C d src dst packet ?r) = proj p s" for d
  proof -
    obtain t ok where t: "send C d (RecvPacket src packet) ?r = (t, ok)" by fastforce
    have "proj p t = proj p s" using proj_send [of p C d "RecvPacket src packet" ?r] by (simp add: t)
    then show ?thesis
      by (simp add: route_local_def t Let_def proj_upd_handle assms split: bool.split option.split)
  qed
  have nh: "proj p (send_peer_not_here C now i dst packet u) = proj p u" for u
    by (simp add: send_peer_not_here_def Let_def proj_upd_handle assms split: option.split prod.split)
  have rem: "proj p (route_remote C now i src dst packet b ?r) = proj p s"
  proof -
    obtain t ok where t: "(if b then (?r, False) else forward_to_mesh C src dst packet ?r) = (t, ok)" by fastforce
    have "proj p t = proj p s"
      using proj_only_queues [OF only_queues_forward [of ?r C src dst packet], of p] t by (cases b) auto
    then show ?thesis by (simp add: route_remote_def t nh split: bool.split)
  qed
  show ?thesis by (simp add: route_split loc rem split: option.split)
qed

lemma proj_note_activity [simp]: "proj p (note_activity i s) = proj p s"
  by (simp add: note_activity_def Let_def split: option.split)

lemma proj_note_preferred:
  "(\<And>h x y. p (h\<lparr>preferred := x, preferred_seen := y\<rparr>) = p h) \<Longrightarrow> proj p (note_preferred i q s) = proj p s"
  by (simp add: note_preferred_def Let_def proj_upd_handle split: option.split)

lemma watchers_route: "watchers (route C now i src dst packet b s) = watchers s"
  using same_ctrl_route [of s C now i src dst packet b] by (simp add: same_ctrl_def)

text \<open>
  What an unprivileged turn may do: put packets in its own name only, and neither watch nor close.
\<close>

definition plain_effect :: "('ch \<Rightarrow> Frame list) \<Rightarrow> ('ch \<Rightarrow> nat) \<Rightarrow> NodeKey \<Rightarrow> 'ch Relay \<Rightarrow> 'ch Relay \<Rightarrow> bool" where
  "plain_effect pend room k s t \<longleftrightarrow> grows_by (speaks_for k) (boxes pend room s) (boxes pend room t) \<and>
     watchers t = watchers s \<and> closed_of t = closed_of s"

lemma plain_refl [simp, intro]: "plain_effect pend room k s s"
  by (simp add: plain_effect_def)

lemma plain_trans [trans]:
  "plain_effect pend room k s t \<Longrightarrow> plain_effect pend room k t u \<Longrightarrow> plain_effect pend room k s u"
  by (auto simp: plain_effect_def intro: grows_trans)

lemma plain_route:
  assumes "mpsc_ok C pend room" "relay_inv s" "heap s i = Some hi"
  shows "plain_effect pend room k s (route C now i k dst packet b s)"
proof -
  have "grows_by (speaks_for k) (boxes pend room s) (boxes pend room (route C now i k dst packet b s))"
    unfolding route_boxes_live [OF assms] by (auto simp: grows_put split: option.split)
  then show ?thesis by (simp add: plain_effect_def watchers_route proj_route)
qed

lemma dispatch_plain:
  assumes "mpsc_ok C pend room" "relay_inv s" "sh_id h \<in> live_set s" "\<not> can_mesh h"
  shows "plain_effect pend room (sh_key h) s (fst (dispatch C now h f s))"
proof -
  have pi: "peers_inv s" using assms(2) by (simp add: relay_inv_def)
  from live_handle [OF pi assms(3)] obtain hi where hi: "heap s (sh_id h) = Some hi" by blast
  have pong: "plain_effect pend room (sh_key h) s (fst (send C (sh_id h) (Pong v) s))" for v
    by (simp add: plain_effect_def send_boxes(1) [OF assms(1) hi] grows_put only_queues_fields(5) [OF only_queues_send])
  have pref: "plain_effect pend room (sh_key h) s (note_preferred (sh_id h) p s)" for p
    by (simp add: plain_effect_def proj_note_preferred occ_quiet note_preferred_eq [OF hi])
  have cnt: "plain_effect pend room (sh_key h) s (s\<lparr>metrics := m\<rparr>)" for m by (simp add: plain_effect_def)
  show ?thesis
    using assms(4) pong pref cnt plain_route [OF assms(1,2) hi] by (cases f) (simp_all add: dispatch_def)
qed

lemma turn_plain:
  assumes "mpsc_ok C pend room" "relay_inv s" "sh_id h \<in> live_set s" "\<not> can_mesh h"
    and "reader_turn C ts h f tb s = (tb', t, r)"
  shows "plain_effect pend room (sh_key h) s t"
proof -
  let ?u = "note_activity (sh_id h) s"
  obtain now wake later where ts: "ts = (now, wake, later)" by (cases ts)
  have t: "t = fst (dispatch C later h f ?u)"
    using assms(5) by (auto simp: reader_turn_def Let_def ts split: prod.splits)
  have "watchers ?u = watchers s" by (simp add: note_activity_def Let_def split: option.split)
  then have "plain_effect pend room (sh_key h) s ?u"
    by (simp add: plain_effect_def occ_quiet proj_note_activity)
  also have "plain_effect pend room (sh_key h) ?u t"
    unfolding t using assms(1-4) by (intro dispatch_plain) (simp_all add: note_activity_inv live_note_activity)
  finally show ?thesis .
qed

lemma reader_plain:
  assumes "mpsc_ok C pend room" "\<not> can_mesh h" "relay_inv s" "sh_id h \<in> live_set s"
  shows "plain_effect pend room (sh_key h) s (fst (reader C clk h n input tb s))"
  using assms(3,4)
proof (induction n arbitrary: clk input tb s)
  case (Suc n)
  show ?case
  proof (cases "read_frame input READ_LIMIT")
    case (Inr fi)
    obtain f input' where fi: "fi = (f, input')" by (cases fi)
    obtain tb' t r where t: "reader_turn C (clk 0) h f tb s = (tb', t, r)" by (cases "reader_turn C (clk 0) h f tb s")
    note st = turn_step [OF Suc.prems t]
    note pl = turn_plain [OF assms(1) Suc.prems assms(2) t]
    have inv: "relay_inv t" using relay.steps_inv [of C s t] st Suc.prems(1) by blast
    show ?thesis
    proof (cases r)
      case (Inr u)
      have "sh_id h \<in> live_set t" using st Suc.prems(2) by simp
      from plain_trans [OF pl Suc.IH [OF inv this, of "\<lambda>i. clk (Suc i)" input' tb']] show ?thesis
        by (simp add: Inr fi t \<open>read_frame input READ_LIMIT = Inr fi\<close>)
    qed (simp add: Inr fi t pl)
  qed simp
qed simp

subsection \<open>The handshake\<close>

lemma admit_cases:
  assumes "admit H post cfg key a s = (t, r)"
  shows "(r = Inr () \<and> t = s) \<or>
    (\<exists>e. r = Inl e \<and> (t = s \<or> t = upd_metrics (\<lambda>m. m\<lparr>admission_rejected := inc (admission_rejected m) 1\<rparr>) s))"
  using assms by (auto simp: admit_def split: option.splits admit_result.splits if_splits)

lemma accept_Inr:
  assumes "accept_client B J H post C K late now srv remote nideal input w s = (t, Inr (sid, key, rest, w'))"
  obtains f info where "read_frame input CLIENT_INFO_LIMIT = Inr (f, rest)"
    "client_identity B J (srv_key srv) f = Inr (key, info)"
    "is_mesh_key (ci_mesh_key info) s \<or> admit H post (config srv) key (ip remote) s = (s, Inr ())"
    "register C now key remote (is_mesh_key (ci_mesh_key info) s) (ci_can_ack_pings info)
       (ci_is_prober info) nideal s = (sid, t)"
proof -
  from assms obtain f info where f: "read_frame input CLIENT_INFO_LIMIT = Inr (f, rest)"
    "client_identity B J (srv_key srv) f = Inr (key, info)"
    and more: "(case (if \<not> is_mesh_key (ci_mesh_key info) s
                then admit H post (config srv) key (ip remote) s else (s, Inr ())) of
             (s', Inl e) \<Rightarrow> (s', Inl e)
           | (s', Inr _) \<Rightarrow>
               (case register C now key remote (is_mesh_key (ci_mesh_key info) s) (ci_can_ack_pings info)
                  (ci_is_prober info) nideal s' of (i, s'') \<Rightarrow> (s'', Inr (i, key, rest, w')))) =
         (t, Inr (sid, key, rest, w'))"
    by (auto simp: accept_client_def Let_def split: option.splits sum.splits if_splits prod.splits)
  obtain u r where u: "admit H post (config srv) key (ip remote) s = (u, r)" by fastforce
  from more f admit_cases [OF u] u show thesis
    by (intro that) (auto split: if_splits prod.splits sum.splits)
qed

lemma accept_registers:
  assumes "accept_client B J H post C K late now srv remote nideal input w s = (t, Inr (sid, key, rest, w'))"
  shows "\<exists>mesh ack prober. register C now key remote mesh ack prober nideal s = (sid, t)"
  by (rule accept_Inr [OF assms]) blast

lemma accept_Inl:
  assumes "accept_client B J H post C K late now srv remote nideal input w s = (t, Inl e)"
  shows "t = s \<or> t = upd_metrics (\<lambda>m. m\<lparr>admission_rejected := inc (admission_rejected m) 1\<rparr>) s"
  using assms
  by (auto simp: accept_client_def Let_def split: option.splits sum.splits if_splits prod.splits dest!: admit_cases)

lemma live_register:
  assumes "relay_inv s"
  shows "live_set (snd (register C now key ep mesh ack prober nideal s)) = insert (next_id s) (live_set s)"
proof -
  have "peers_inv s" using assms by (simp add: relay_inv_def)
  then show ?thesis by (simp add: live_only_queues [OF register_registered] registered_live)
qed

lemma live_unregister:
  assumes "relay_inv s" "i \<in> live_set s"
  shows "live_set (unregister C i s) = live_set s - {i}"
proof -
  have pi: "peers_inv s" using assms(1) by (simp add: relay_inv_def)
  from live_handle [OF pi assms(2)] obtain h ps where h: "heap s i = Some h"
    "map_of (peers s) (sh_key h) = Some ps" "i \<in> set (sessions ps)" by metis
  show ?thesis by (rule departed_live [OF pi h refl unregister_departed [OF pi h(1,2)]])
qed

lemma serve_stream_cases:
  assumes "serve_stream B J H post C K late nonce acts now srv remote nideal input w s = (t, r)"
  obtains (refused) e where "accept_client B J H post C K late now srv remote nideal input w s = (t, Inl e)" "r = SessionEnded (Inl e)"
  | (served) sid key rest w' u h v q where
      "accept_client B J H post C K late now srv remote nideal input w s = (u, Inr (sid, key, rest, w'))"
      "heap u sid = Some h" "t = hang_up C (SessionChan sid) (unregister C sid v)" "r = SessionEnded (session_result q)"
      "(\<exists>e. (v, Some q) = (u, Some (Inl e))) \<or> (\<exists>w''. session_body C K srv acts now h rest w'' u = (v, Some q))"
  | (running) sid key rest w' u h w'' where
      "accept_client B J H post C K late now srv remote nideal input w s = (u, Inr (sid, key, rest, w'))"
      "heap u sid = Some h" "r = StillRunning sid" "session_body C K srv acts now h rest w'' u = (t, None)"
  | (impossible) sid key rest w' where
      "accept_client B J H post C K late now srv remote nideal input w s = (t, Inr (sid, key, rest, w'))"
      "heap t sid = None"
proof -
  obtain u a where acc: "accept_client B J H post C K late now srv remote nideal input w s = (u, a)" by fastforce
  show thesis
  proof (cases a)
    case (Inl e)
    with assms acc refused show thesis by (simp add: serve_stream_def)
  next
    case (Inr x)
    obtain sid key rest w' where x: "a = Inr (sid, key, rest, w')" using Inr by (cases x) auto
    show thesis
    proof (cases "heap u sid")
      case None
      with assms acc x impossible show thesis by (simp add: serve_stream_def)
    next
      case (Some h)
      obtain v q where b: "(case send_info B J K nonce srv key w' of Inl e \<Rightarrow> (u, Some (Inl e))
          | Inr w \<Rightarrow> session_body C K srv acts now h rest w u) = (v, q)" by fastforce
      with assms acc x Some have r: "(case q of None \<Rightarrow> (v, StillRunning sid)
          | Some r \<Rightarrow> (hang_up C (SessionChan sid) (unregister C sid v), SessionEnded (session_result r))) = (t, r)"
        by (simp add: serve_stream_def Let_def split: option.splits)
      show thesis
      proof (cases q)
        case None
        with b r acc x Some running show thesis by (auto split: sum.splits)
      next
        case q: (Some r')
        have "(\<exists>e. (v, Some r') = (u, Some (Inl e))) \<or> (\<exists>w''. session_body C K srv acts now h rest w'' u = (v, Some r'))"
          using b q by (cases "send_info B J K nonce srv key w'") auto
        moreover have "t = hang_up C (SessionChan sid) (unregister C sid v)" "r = SessionEnded (session_result r')"
          using r q by simp_all
        ultimately show thesis using served [OF _ Some, of key rest w' v r'] acc x by simp
      qed
    qed
  qed
qed

lemma body_steps:
  assumes "relay_inv u" "sh_id h \<in> live_set u" "session_body C K srv acts now h rest w u = (v, q)"
  shows "(relay_step C)\<^sup>*\<^sup>* u v \<and> live_set v = live_set u"
  by (rule session_loop_steps [OF assms(1,2) assms(3) [unfolded session_body_def]])

lemma registered_session:
  assumes "relay_inv s" "ids_left s" "register C now key ep mesh ack prober nideal s = (sid, u)"
  shows "sid = next_id s" "relay_step C s u" "relay_inv u" "live_set u = insert sid (live_set s)"
    "\<exists>h. heap u sid = Some h \<and> sh_id h = sid \<and> sh_key h = key \<and> can_mesh h = mesh" "sid \<notin> live_set s"
proof -
  have u: "u = snd (register C now key ep mesh ack prober nideal s)" and sid: "sid = next_id s"
    using assms(3) register_id [of C now key ep mesh ack prober nideal s] by simp_all
  then show "sid = next_id s" by simp
  show st: "relay_step C s u" unfolding u by (rule relay_step.register [OF assms(2)])
  show "relay_inv u" by (rule relay_inv_step [OF assms(1) st])
  show "live_set u = insert sid (live_set s)" unfolding u sid by (rule live_register [OF assms(1)])
  have "heap u sid = mark_dup (joined key s) ((heap s)(sid \<mapsto> new_handle sid now key ep mesh ack prober nideal)) sid"
    unfolding u using only_queues_fields(1) [OF register_registered [of key s now ep mesh ack prober nideal C]] sid by simp
  then show "\<exists>h. heap u sid = Some h \<and> sh_id h = sid \<and> sh_key h = key \<and> can_mesh h = mesh"
    by (auto simp: mark_dup_def new_handle_def)
  show "sid \<notin> live_set s" unfolding sid using assms(1) by (intro not_live_next) (simp_all add: relay_inv_def)
qed

text \<open>How the relay's sessions stand after a call: as before, or with the session that still runs.\<close>

definition after_session :: "SessionId set \<Rightarrow> SessionId set \<Rightarrow> session_status \<Rightarrow> bool" where
  "after_session L L' r \<longleftrightarrow> (case r of StillRunning sid \<Rightarrow> L' = insert sid L \<and> sid \<notin> L | SessionEnded _ \<Rightarrow> L' = L)"

lemma serve_reach:
  assumes reach: "reachable C s" and left: "ids_left s"
    and run: "serve_stream B J H post C K late nonce acts now srv remote nideal input w s = (t, r)"
  shows "reachable C t \<and> after_session (live_set s) (live_set t) r"
proof -
  have inv: "relay_inv s" using reach by (rule reachable_relay_inv)
  have begun: "reachable C u \<and> relay_inv u \<and> live_set u = insert sid (live_set s) \<and> sid \<notin> live_set s \<and> (\<exists>h. heap u sid = Some h \<and> sh_id h = sid)"
    if "accept_client B J H post C K late now srv remote nideal input w s = (u, Inr (sid, key, rest, w'))" for u sid key rest w'
  proof -
    from accept_registers [OF that] obtain mesh ack prober where
      "register C now key remote mesh ack prober nideal s = (sid, u)" by blast
    from registered_session [OF inv left this] reach.more [OF reach] show ?thesis by blast
  qed
  from run show ?thesis
  proof (cases rule: serve_stream_cases)
    case (refused e)
    have "relay_step C s (upd_metrics (\<lambda>m. m\<lparr>admission_rejected := inc (admission_rejected m) 1\<rparr>) s)"
      by (rule relay_step.counter) (simp_all add: balance_def)
    with reach accept_Inl [OF refused(1)] show ?thesis by (auto simp: refused(2) after_session_def intro: reach.more)
  next
    case (served sid key rest w' u h v q)
    note u = begun [OF served(1)]
    then have h: "sh_id h \<in> live_set u" using served(2) by auto
    have b: "(relay_step C)\<^sup>*\<^sup>* u v \<and> live_set v = live_set u"
      using served(5) body_steps [of u h C K srv acts now rest _ v "Some q"] u h by auto
    have rv: "reachable C v" using reach_steps [of relay_init "relay_step C" u v] u b by blast
    have sv: "sid \<in> live_set v" using b u by simp
    have "reachable C (unregister C sid v)" by (rule reach.more [OF rv relay_step.unregister [OF sv]])
    then have "reachable C t" unfolding served(3) using hang_up_step by (rule reach_steps)
    moreover have "live_set t = live_set s"
      unfolding served(3) using live_unregister [OF reachable_relay_inv [OF rv] sv] b u by auto
    ultimately show ?thesis by (simp add: served(4) after_session_def)
  next
    case (running sid key rest w' u h w'')
    note u = begun [OF running(1)]
    then have h: "sh_id h \<in> live_set u" using running(2) by auto
    from body_steps [OF _ h running(4)] u have b: "(relay_step C)\<^sup>*\<^sup>* u t" "live_set t = live_set u" by auto
    with u reach_steps [of relay_init "relay_step C" u t] show ?thesis by (simp add: running(3) after_session_def)
  next
    case (impossible sid key rest w')
    from begun [OF impossible(1)] impossible(2) show ?thesis by simp
  qed
qed

subsection \<open>Batches\<close>

text \<open>Filling a batch takes a prefix of the queue and appends the encodings of its frames in order.\<close>

lemma fill_batch_takes:
  assumes ok: "mpsc_ok C pend room" and enc: "\<forall>f\<in>set (pend q). \<exists>raw. encode f = Inr raw"
  shows "\<exists>k q'. k \<le> n \<and> k \<le> length (pend q) \<and> pend q' = drop k (pend q) \<and>
    fill_batch C n q batch = (Inr (fst (put_all encode_into (take k (pend q)) batch)), q') \<and>
    snd (put_all encode_into (take k (pend q)) batch) = Inr ()"
  using enc
proof (induction n arbitrary: q batch)
  case (Suc n)
  show ?case
  proof (cases "length batch \<ge> MAX_BATCH_BYTES \<or> try_recv C q = None")
    case True
    then show ?thesis by (intro exI [of _ 0] exI [of _ q]) auto
  next
    case False
    then obtain f q1 where r: "try_recv C q = Some (f, q1)" by auto
    have "case try_recv C q of None \<Rightarrow> pend q = [] | Some (f, q') \<Rightarrow> pend q = f # pend q' \<and> room q' = Suc (room q)"
      using ok unfolding mpsc_ok_def by blast
    with r have p: "pend q = f # pend q1" by simp
    with Suc.prems obtain raw where raw: "encode f = Inr raw" by auto
    then have e: "encode_into f batch = (batch @ raw, Inr ())" by (simp add: encode_into_encode)
    have "\<forall>g\<in>set (pend q1). \<exists>raw. encode g = Inr raw" using Suc.prems p by simp
    from Suc.IH [OF this, of "batch @ raw"] obtain k q' where "k \<le> n" "k \<le> length (pend q1)" "pend q' = drop k (pend q1)"
      "fill_batch C n q1 (batch @ raw) = (Inr (fst (put_all encode_into (take k (pend q1)) (batch @ raw))), q')"
      "snd (put_all encode_into (take k (pend q1)) (batch @ raw)) = Inr ()" by blast
    with False r p e show ?thesis by (intro exI [of _ "Suc k"] exI [of _ q']) simp
  qed
qed auto

end
