(* ===== verification/Derp_Writer.thy ===== *)
theory Derp_Writer
  imports Derp_Session
begin

text \<open>
  The writer of a session: on a connection that takes its writes in time it sends the queue in order
  and without loss, in batches of at most sixty-four frames, and ends with an error never.
\<close>

text \<open>
  A connection that takes every write: \<open>sent\<close> are the bytes it was given. A turn is timely when its
  write does not time out; its random ping has eight bytes.
\<close>

definition sink_ok :: "'w sink \<Rightarrow> ('w \<Rightarrow> bytes) \<Rightarrow> bool" where
  "sink_ok K sent \<longleftrightarrow>
     (\<forall>w bs. case write_all K w bs of Inl _ \<Rightarrow> False | Inr w' \<Rightarrow> sent w' = sent w @ bs) \<and>
     (\<forall>w. case flush K w of Inl _ \<Rightarrow> False | Inr w' \<Rightarrow> sent w' = sent w)"

definition timely :: "turn \<Rightarrow> bool" where
  "timely t \<longleftrightarrow> \<not> write_late t \<and> length (nonce8 t) = 8"

lemma put_out_sink:
  assumes "sink_ok K sent"
  shows "\<exists>w'. put_out K False what w bs = Inr w' \<and> sent w' = sent w @ bs"
proof -
  from assms have "case write_all K w bs of Inl _ \<Rightarrow> False | Inr w' \<Rightarrow> sent w' = sent w @ bs"
    unfolding sink_ok_def by blast
  then obtain w1 where w1: "write_all K w bs = Inr w1" "sent w1 = sent w @ bs" by (auto split: sum.splits)
  from assms have "case flush K w1 of Inl _ \<Rightarrow> False | Inr w' \<Rightarrow> sent w' = sent w1"
    unfolding sink_ok_def by blast
  then obtain w2 where "flush K w1 = Inr w2" "sent w2 = sent w1" by (auto split: sum.splits)
  with w1 show ?thesis by (simp add: put_out_def)
qed

lemma recv_pend:
  assumes "mpsc_ok C pend room"
  shows "pend q = [] \<Longrightarrow> try_recv C q = None"
    "pend q = f # fs \<Longrightarrow> \<exists>q'. try_recv C q = Some (f, q') \<and> pend q' = fs"
proof -
  have r: "case try_recv C q of None \<Rightarrow> pend q = [] | Some (f, q') \<Rightarrow> pend q = f # pend q' \<and> room q' = Suc (room q)"
    using assms unfolding mpsc_ok_def by blast
  show "pend q = [] \<Longrightarrow> try_recv C q = None" using r by (auto split: option.splits)
  show "pend q = f # fs \<Longrightarrow> \<exists>q'. try_recv C q = Some (f, q') \<and> pend q' = fs" using r by (auto split: option.splits)
qed

text \<open>The peer reads exactly the frames \<open>fs\<close> from the bytes \<open>raw\<close>.\<close>

definition carries :: "nat \<Rightarrow> bytes \<Rightarrow> Frame list \<Rightarrow> bool" where
  "carries max_len raw fs \<longleftrightarrow>
     (\<forall>rest e. get_n (\<lambda>r. read_frame r max_len) (length fs) (raw @ rest, e) = Inr (map wire_normal fs, (rest, e)))"

lemma get_n_append:
  "get_n get m s = Inr (xs, s') \<Longrightarrow> get_n get n s' = Inr (ys, s'') \<Longrightarrow> get_n get (m + n) s = Inr (xs @ ys, s'')"
  by (induction m arbitrary: s xs) (auto simp: try_res_Inr)

lemma carries_append: "carries m a xs \<Longrightarrow> carries m b ys \<Longrightarrow> carries m (a @ b) (xs @ ys)"
  unfolding carries_def by (fastforce intro: get_n_append)

lemma carries_Nil [simp]: "carries m [] []"
  by (simp add: carries_def)

text \<open>A turn with frames in the queue writes between one and sixty-four of them, in order.\<close>

lemma batch_turn:
  assumes C: "mpsc_ok C pend room" and K: "sink_ok K sent" and send: "\<forall>f\<in>set (pend q). sendable m f"
    and "timely t" "pend q \<noteq> []"
  shows "\<exists>k raw q' w'. writer_turn C K t h q w = (q', w', None) \<and> 1 \<le> k \<and> k \<le> 64 \<and> k \<le> length (pend q) \<and>
    pend q' = drop k (pend q) \<and> sent w' = sent w @ raw \<and> carries m raw (take k (pend q))"
proof -
  from assms(5) obtain f fs where p: "pend q = f # fs" by (cases "pend q") auto
  from recv_pend(2) [OF C p] obtain q1 where q1: "try_recv C q = Some (f, q1)" "pend q1 = fs" by blast
  have "\<exists>raw. encode g = Inr raw" if "g \<in> set (pend q)" for g
    using send that by (cases "encode g") (auto simp: sendable_def)
  then obtain ra where ra: "encode f = Inr ra" and enc: "\<forall>g\<in>set (pend q1). \<exists>raw. encode g = Inr raw"
    using p q1 by auto
  from fill_batch_takes [OF C enc, of 63 ra] obtain k q' where k: "k \<le> 63" "k \<le> length fs" "pend q' = drop k fs"
    "fill_batch C 63 q1 ra = (Inr (fst (put_all encode_into (take k fs) ra)), q')"
    using q1(2) by blast
  have "\<forall>g\<in>set (take (Suc k) (pend q)). sendable m g" using send by (meson in_set_takeD)
  from derp.put_all_get_n [OF this] obtain raw where raw:
    "put_all encode_into (take (Suc k) (pend q)) [] = (raw, Inr ())" "carries m raw (take (Suc k) (pend q))"
    unfolding carries_def by auto
  have "put_all encode_into (take k fs) ra = (raw, Inr ())"
    using raw(1) ra by (simp add: p encode_into_encode)
  then have "write_batch C K False f q1 w = (put_out K False ''DERP write timeout'' w raw, q')"
    using k(4) ra by (simp add: write_batch_def encode_into_encode)
  moreover obtain w' where "put_out K False ''DERP write timeout'' w raw = Inr w'" "sent w' = sent w @ raw"
    using put_out_sink [OF K] by blast
  ultimately have "writer_turn C K t h q w = (q', w', None)" "sent w' = sent w @ raw"
    using assms(4) q1(1) by (simp_all add: writer_turn_def timely_def)
  with k raw p show ?thesis by (intro exI [of _ "Suc k"] exI [of _ raw]) auto
qed

lemma idle_turn:
  assumes C: "mpsc_ok C pend room" and K: "sink_ok K sent" and "timely t" "pend q = []"
  shows "\<exists>ctl w' r. writer_turn C K t h q w = (q, w', r) \<and> sent w' = sent w @ ctl \<and> r \<noteq> Some (Inl e)"
proof -
  let ?f = "if can_ack_pings h then Ping (nonce8 t) else KeepAlive"
  have "\<exists>raw. encode ?f = Inr raw" using assms(3) by (simp add: encode_eq timely_def)
  then obtain raw where "encode ?f = Inr raw" by blast
  with assms(3) put_out_sink [OF K, of "''DERP control write timeout''" w raw] show ?thesis
    by (auto simp: writer_turn_def recv_pend(1) [OF C assms(4)] write_control_def timely_def encode_into_encode)
qed

lemma idle_run:
  assumes C: "mpsc_ok C pend room" and K: "sink_ok K sent" and "\<forall>t\<in>set ts. timely t" "pend q = []"
  shows "\<exists>ctl w' r. writer C K ts h q w = (q, w', r) \<and> sent w' = sent w @ ctl \<and> r \<noteq> Some (Inl e)"
  using assms(3)
proof (induction ts arbitrary: w)
  case (Cons t ts)
  from idle_turn [OF C K _ assms(4), of t h w e] Cons.prems obtain ctl w1 r where
    t: "writer_turn C K t h q w = (q, w1, r)" "sent w1 = sent w @ ctl" "r \<noteq> Some (Inl e)" by auto
  from Cons.IH [of w1] Cons.prems t show ?case by (cases r) auto
qed auto

lemma writer_run:
  assumes C: "mpsc_ok C pend room" and K: "sink_ok K sent"
    and "\<forall>f\<in>set (pend q). sendable m f" "\<forall>t\<in>set ts. timely t" "length (pend q) \<le> length ts"
  shows "\<exists>raw ctl q' w' r. writer C K ts h q w = (q', w', r) \<and> r \<noteq> Some (Inl e) \<and> pend q' = [] \<and>
    sent w' = sent w @ raw @ ctl \<and> carries m raw (pend q)"
  using assms(3-)
proof (induction ts arbitrary: q w)
  case (Cons t ts)
  show ?case
  proof (cases "pend q = []")
    case True
    from idle_run [OF C K Cons.prems(2) True, of h w e] True show ?thesis by (metis append_Nil carries_Nil)
  next
    case False
    from batch_turn [OF C K Cons.prems(1) _ False, of t h w] Cons.prems(2) obtain k raw q1 w1 where
      t: "writer_turn C K t h q w = (q1, w1, None)" "1 \<le> k" "pend q1 = drop k (pend q)"
      "sent w1 = sent w @ raw" "carries m raw (take k (pend q))" by auto
    have "\<forall>f\<in>set (pend q1). sendable m f" using Cons.prems(1) t(3) by (metis in_set_dropD)
    moreover have "\<forall>t\<in>set ts. timely t" "length (pend q1) \<le> length ts" using Cons.prems t by auto
    ultimately obtain raw' ctl q' w' r where
      u: "writer C K ts h q1 w1 = (q', w', r)" "r \<noteq> Some (Inl e)" "pend q' = []"
      "sent w' = sent w1 @ raw' @ ctl" "carries m raw' (drop k (pend q))"
      using Cons.IH [of q1 w1] t(3) by auto
    from carries_append [OF t(5) u(5)] t(1,4) u show ?thesis
      by (intro exI [of _ "raw @ raw'"] exI [of _ ctl]) simp
  qed
qed simp

end
