(* ===== verification/Derp_Mesh.thy ===== *)
theory Derp_Mesh
  imports Derp_Writer Derp_Text
begin

text \<open>
  The mesh client (\<open>src/src/mesh.rs\<close>): the connection one server keeps to another to learn which peers
  it serves and to forward packets to it. The parser of URLs, TCP and TLS are parameters; an established
  connection is its incoming bytes and its sink.
\<close>

subsection \<open>The upgrade\<close>

text \<open>The loop of \<open>read_upgrade\<close>, byte by byte up to the empty line.\<close>

fun upgrade_loop :: "bytes \<Rightarrow> bytes \<Rightarrow> IoErrorKind \<Rightarrow> ServerError + (bytes \<times> stream)" where
  "upgrade_loop buf input e =
     (if ends_with (str_bytes (crlf @ crlf)) buf then Inr (buf, (input, e))
      else if length buf > 32768 then Inl (SeBail ''mesh HTTP response too large'')
      else case input of
             [] \<Rightarrow> Inl (SeIo e)
           | b # bs \<Rightarrow> upgrade_loop (buf @ [b]) bs e)"

declare upgrade_loop.simps [simp del]

definition read_upgrade :: "stream \<Rightarrow> ServerError + stream" where
  "read_upgrade r =
     try_res (upgrade_loop [] (fst r) (snd r)) (\<lambda>(buf, r).
       if \<not> starts_with (str_bytes ''HTTP/1.1 101 '') (utf8_lossy buf) then Inl (SeBail ''mesh upgrade failed'') else Inr r)"

subsection \<open>Dialling\<close>

text \<open>
  What \<open>run\<close> asks of a parsed URL: \<open>host_str\<close>, \<open>port_or_known_default\<close>, \<open>scheme\<close> and \<open>path\<close>. The law is the
  documented one: the path of an \<open>http\<close> or \<open>https\<close> URL begins with a slash, also when the text has no path.
\<close>

record Url =
  url_host :: "string option"
  url_port :: "u16 option"
  url_scheme :: string
  url_path :: string

definition url_lib_ok :: "(string \<Rightarrow> Url option) \<Rightarrow> bool" where
  "url_lib_ok U \<longleftrightarrow>
     (\<forall>peer u. U peer = Some u \<longrightarrow> url_scheme u = ''http'' \<or> url_scheme u = ''https'' \<longrightarrow> (\<exists>p. url_path u = CHR ''/'' # p))"

text \<open>The TCP and TLS connectors, with the check of a name for TLS.\<close>

record 'io dialer =
  tcp_connect :: "string \<Rightarrow> u16 \<Rightarrow> IoErrorKind + 'io"
  set_nodelay :: "'io \<Rightarrow> IoErrorKind + unit"
  server_name_ok :: "string \<Rightarrow> bool"
  tls_connect :: "string \<Rightarrow> 'io \<Rightarrow> IoErrorKind + 'io"

definition mesh_request :: "string \<Rightarrow> string \<Rightarrow> u16 \<Rightarrow> string" where
  "mesh_request path host prt =
     ''GET '' @ (if path = [] then ''/derp'' else path) @ '' HTTP/1.1'' @ crlf @
     ''Host: '' @ host @ '':'' @ show_nat (unat prt) @ crlf @
     ''Connection: Upgrade'' @ crlf @ ''Upgrade: DERP'' @ crlf @ crlf"

text \<open>\<open>run\<close> up to the request: the text of the request and the connection.\<close>

definition mesh_connect :: "(string \<Rightarrow> Url option) \<Rightarrow> 'io dialer \<Rightarrow> string \<Rightarrow> ServerError + (string \<times> 'io)" where
  "mesh_connect U D peer =
     (case U peer of
        None \<Rightarrow> Inl (SeBail ''invalid mesh URL'')
      | Some url \<Rightarrow>
      case url_host url of
        None \<Rightarrow> Inl (SeBail ''mesh URL has no host'')
      | Some host \<Rightarrow>
      case url_port url of
        None \<Rightarrow> Inl (SeBail ''mesh URL has no port'')
      | Some prt \<Rightarrow>
      case tcp_connect D host prt of
        Inl e \<Rightarrow> Inl (SeIo e)
      | Inr tcp \<Rightarrow>
      case set_nodelay D tcp of
        Inl e \<Rightarrow> Inl (SeIo e)
      | Inr _ \<Rightarrow>
      case (if url_scheme url = ''http'' then Inr tcp
            else if url_scheme url = ''https'' then
              (if \<not> server_name_ok D host then Inl (SeBail ''invalid TLS mesh hostname'')
               else case tls_connect D host tcp of Inl e \<Rightarrow> Inl (SeIo e) | Inr io \<Rightarrow> Inr io)
            else Inl (SeBail ''unsupported mesh URL scheme'')) of
        Inl e \<Rightarrow> Inl e
      | Inr io \<Rightarrow> Inr (mesh_request (url_path url) host prt, io))"

subsection \<open>The handshake\<close>

definition mesh_client_info :: "bytes \<Rightarrow> ClientInfo" where
  "mesh_client_info mkey =
     \<lparr>ci_mesh_key = Some mkey, ci_version = PROTOCOL_VERSION, ci_can_ack_pings = True, ci_is_prober = False\<rparr>"

text \<open>Write a frame and flush, as \<open>run\<close> does three times.\<close>

definition put_frame :: "'w sink \<Rightarrow> 'w \<Rightarrow> Frame \<Rightarrow> ServerError + 'w" where
  "put_frame K w f =
     (case write_frame (write_all K) w f of
        Inl e \<Rightarrow> Inl (SeProtocol e)
      | Inr w \<Rightarrow> (case flush K w of Inl e \<Rightarrow> Inl (SeIo e) | Inr w \<Rightarrow> Inr w))"

definition mesh_handshake ::
    "box_lib \<Rightarrow> json_lib \<Rightarrow> 'w sink \<Rightarrow> bytes \<Rightarrow> string \<Rightarrow> NodeKeyPair \<Rightarrow> bytes \<Rightarrow> stream \<Rightarrow> 'w
       \<Rightarrow> ServerError + (stream \<times> 'w)" where
  "mesh_handshake B J K nonce request kp mkey input w =
     (case write_all K w (str_bytes request) of
        Inl e \<Rightarrow> Inl (SeIo e)
      | Inr w \<Rightarrow>
      case flush K w of
        Inl e \<Rightarrow> Inl (SeIo e)
      | Inr w \<Rightarrow>
      case read_upgrade input of
        Inl e \<Rightarrow> Inl e
      | Inr input \<Rightarrow>
      case read_frame input 1024 of
        Inl e \<Rightarrow> Inl (SeProtocol e)
      | Inr (ServerKey remote_key, input) \<Rightarrow>
          (case ci_to J (mesh_client_info mkey) of
             None \<Rightarrow> Inl SeJson
           | Some plain \<Rightarrow>
           case seal_to B nonce kp remote_key plain of
             Inl e \<Rightarrow> Inl (SeKey e)
           | Inr sealed \<Rightarrow>
           case public B kp of
             None \<Rightarrow> Inl SePanic
           | Some pk \<Rightarrow>
           case put_frame K w (ClientInfoF pk sealed) of
             Inl e \<Rightarrow> Inl e
           | Inr w \<Rightarrow>
           case read_frame input MAX_INFO_SIZE of
             Inl e \<Rightarrow> Inl (SeProtocol e)
           | Inr (ServerInfoF _, input) \<Rightarrow>
               (case put_frame K w WatchConns of
                  Inl e \<Rightarrow> Inl e
                | Inr w \<Rightarrow> Inr (input, w))
           | Inr _ \<Rightarrow> Inl (SeBail ''mesh peer sent no server info''))
      | Inr _ \<Rightarrow> Inl (SeBail ''mesh peer sent no server key''))"

subsection \<open>The connection\<close>

definition MESH_READ_LIMIT :: nat where
  "MESH_READ_LIMIT = MAX_PACKET_SIZE + 128"

definition mesh_dispatch :: "'ch mpsc \<Rightarrow> u64 \<Rightarrow> Frame \<Rightarrow> 'ch Relay \<Rightarrow> 'ch Relay" where
  "mesh_dispatch C mid f s =
     (case f of
        PeerPresent peer _ _ _ \<Rightarrow> add_mesh_route mid peer (MeshChan mid) s
      | PeerGone peer _ \<Rightarrow> remove_mesh_route mid peer s
      | Ping v \<Rightarrow> fst (chan_send C (MeshChan mid) (Pong v) s)
      | _ \<Rightarrow> s)"

text \<open>
  The two halves of the connection run concurrently: a turn is one frame read and handled, or one frame
  taken from the queue and written. A writer that finds its queue empty waits. The loop ends with the
  first error of either half; \<open>None\<close> says that it is still running after the given turns. The reader
  holds a sender of the queue, so the queue is never closed from the sending side.
\<close>

datatype mesh_turn = MeshRead | MeshWrite

definition mesh_read ::
    "'ch mpsc \<Rightarrow> u64 \<Rightarrow> stream \<Rightarrow> 'ch Relay \<Rightarrow> stream \<times> 'ch Relay \<times> ServerError option" where
  "mesh_read C mid input s =
     (case read_frame input MESH_READ_LIMIT of
        Inl e \<Rightarrow> (input, s, Some (SeProtocol e))
      | Inr (f, input) \<Rightarrow> (input, mesh_dispatch C mid f s, None))"

definition mesh_write ::
    "'ch mpsc \<Rightarrow> 'w sink \<Rightarrow> u64 \<Rightarrow> 'w \<Rightarrow> 'ch Relay \<Rightarrow> 'w \<times> 'ch Relay \<times> ServerError option" where
  "mesh_write C K mid w s =
     (case Option.bind (chans s (MeshChan mid)) (try_recv C) of
        None \<Rightarrow> (w, s, None)
      | Some (f, q) \<Rightarrow>
          (let s = s\<lparr>chans := (chans s)(MeshChan mid \<mapsto> q)\<rparr>
           in case put_frame K w f of
                Inl e \<Rightarrow> (w, s, Some e)
              | Inr w \<Rightarrow> (w, s, None)))"

fun mesh_loop ::
    "'ch mpsc \<Rightarrow> 'w sink \<Rightarrow> u64 \<Rightarrow> mesh_turn list \<Rightarrow> stream \<Rightarrow> 'w \<Rightarrow> 'ch Relay
       \<Rightarrow> stream \<times> 'w \<times> 'ch Relay \<times> ServerError option" where
  "mesh_loop C K mid [] input w s = (input, w, s, None)"
| "mesh_loop C K mid (MeshRead # ts) input w s =
     (case mesh_read C mid input s of
        (input, s, Some e) \<Rightarrow> (input, w, s, Some e)
      | (input, s, None) \<Rightarrow> mesh_loop C K mid ts input w s)"
| "mesh_loop C K mid (MeshWrite # ts) input w s =
     (case mesh_write C K mid w s of
        (w, s, Some e) \<Rightarrow> (input, w, s, Some e)
      | (w, s, None) \<Rightarrow> mesh_loop C K mid ts input w s)"

text \<open>
  \<open>run\<close> on an established connection, for the turns \<open>ts\<close>. \<open>nmid\<close> is \<open>NEXT_MESH_ID\<close>. The result has the
  new counter, the relay and how the connection ended, if it has.
\<close>

definition mesh_run ::
    "box_lib \<Rightarrow> json_lib \<Rightarrow> 'ch mpsc \<Rightarrow> 'w sink \<Rightarrow> bytes \<Rightarrow> DerpServer \<Rightarrow> string \<Rightarrow> bytes \<Rightarrow> mesh_turn list
       \<Rightarrow> stream \<Rightarrow> 'w \<Rightarrow> u64 \<Rightarrow> 'ch Relay \<Rightarrow> u64 \<times> 'ch Relay \<times> ServerError option" where
  "mesh_run B J C K nonce srv request mkey ts input w nmid s =
     (case mesh_handshake B J K nonce request (srv_key srv) mkey input w of
        Inl e \<Rightarrow> (nmid, s, Some e)
      | Inr (input, w) \<Rightarrow>
          (let mid = nmid;
               nmid = nmid + 1;
               s = s\<lparr>chans := (chans s)(MeshChan mid \<mapsto> channel C (max (cfg_queue_depth (config srv)) 64))\<rparr>
           in case mesh_loop C K mid ts input w s of
                (_, _, s, None) \<Rightarrow> (nmid, s, None)
              | (_, _, s, Some e) \<Rightarrow> (nmid, hang_up C (MeshChan mid) (remove_mesh mid s), Some e)))"

subsection \<open>Which connections are kept\<close>

text \<open>\<open>spawn\<close>: the connections it keeps up, with their key; none without a mesh key.\<close>

definition spawn_mesh :: "string list \<Rightarrow> bytes option \<Rightarrow> (string \<times> bytes) list" where
  "spawn_mesh peer_urls mkey = (case mkey of None \<Rightarrow> [] | Some k \<Rightarrow> map (\<lambda>p. (p, k)) peer_urls)"

text \<open>One call of \<open>run\<close>: dialling, then the connection.\<close>

definition mesh_attempt ::
    "(string \<Rightarrow> Url option) \<Rightarrow> (stream \<times> 'w) dialer \<Rightarrow> box_lib \<Rightarrow> json_lib \<Rightarrow> 'ch mpsc \<Rightarrow> 'w sink \<Rightarrow> bytes \<Rightarrow> DerpServer
       \<Rightarrow> string \<Rightarrow> bytes \<Rightarrow> mesh_turn list \<Rightarrow> u64 \<Rightarrow> 'ch Relay \<Rightarrow> u64 \<times> 'ch Relay \<times> ServerError option" where
  "mesh_attempt U D B J C K nonce srv peer mkey ts nmid s =
     (case mesh_connect U D peer of
        Inl e \<Rightarrow> (nmid, s, Some e)
      | Inr (request, input, w) \<Rightarrow> mesh_run B J C K nonce srv request mkey ts input w nmid s)"

text \<open>
  The task that keeps a connection up: one attempt after the other, for ever. An attempt has its network, its
  nonce and its turns. The result says whether all the given attempts have ended.
\<close>

fun mesh_task ::
    "(string \<Rightarrow> Url option) \<Rightarrow> box_lib \<Rightarrow> json_lib \<Rightarrow> 'ch mpsc \<Rightarrow> 'w sink \<Rightarrow> DerpServer \<Rightarrow> string \<Rightarrow> bytes
       \<Rightarrow> ((stream \<times> 'w) dialer \<times> bytes \<times> mesh_turn list) list \<Rightarrow> u64 \<Rightarrow> 'ch Relay \<Rightarrow> u64 \<times> 'ch Relay \<times> bool" where
  "mesh_task U B J C K srv peer mkey [] nmid s = (nmid, s, True)"
| "mesh_task U B J C K srv peer mkey ((D, nonce, ts) # rest) nmid s =
     (case mesh_attempt U D B J C K nonce srv peer mkey ts nmid s of
        (nmid, s, None) \<Rightarrow> (nmid, s, False)
      | (nmid, s, Some _) \<Rightarrow> mesh_task U B J C K srv peer mkey rest nmid s)"

subsection \<open>The connection's routes follow the peer's announcements\<close>

text \<open>What a mesh connection knows of its peer: the keys announced and not yet withdrawn.\<close>

fun known_step :: "Frame \<Rightarrow> NodeKey set \<Rightarrow> NodeKey set" where
  "known_step (PeerPresent k _ _ _) K = insert k K"
| "known_step (PeerGone k _) K = K - {k}"
| "known_step _ K = K"

text \<open>The keys with a route through a connection, and the routes through the others.\<close>

definition reached :: "u64 \<Rightarrow> 'ch Relay \<Rightarrow> NodeKey set" where
  "reached mid s = {k. mid \<in> mr_mesh_id ` set (routes_of s k)}"

definition other_routes :: "u64 \<Rightarrow> 'ch Relay \<Rightarrow> NodeKey \<Rightarrow> MeshRoute list" where
  "other_routes mid s k = filter (\<lambda>r. mr_mesh_id r \<noteq> mid) (routes_of s k)"

lemma routes_of_add:
  "routes_of (add_mesh_route m k ch s) k' =
     (if k' = k \<and> m \<notin> mr_mesh_id ` set (routes_of s k) then routes_of s k @ [\<lparr>mr_mesh_id = m, mr_tx = ch\<rparr>]
      else routes_of s k')"
  unfolding routes_of_def [of "add_mesh_route m k ch s"] add_mesh_route_lookup
  by (auto simp: list_ex_iff routes_of_def)

lemma routes_of_remove:
  assumes "mesh_inv s"
  shows "routes_of (remove_mesh_route m k s) k' =
    (if k' = k then filter (\<lambda>r. mr_mesh_id r \<noteq> m) (routes_of s k) else routes_of s k')"
  using remove_mesh_loop(2) [OF assms, of m "[k]" k'] by auto

lemma routes_only_queues: "only_queues s t \<Longrightarrow> routes_of t k = routes_of s k"
  by (simp add: routes_of_def only_queues_fields)

lemma mesh_dispatch_step: "(relay_step C)\<^sup>*\<^sup>* s (mesh_dispatch C mid f s)"
  by (cases f) (auto simp: mesh_dispatch_def intro: relay_step.intros)

lemma mesh_dispatch_refines:
  assumes "mesh_inv s"
  shows "reached mid (mesh_dispatch C mid f s) = known_step f (reached mid s)"
    and "other_routes mid (mesh_dispatch C mid f s) = other_routes mid s"
  by (cases f; auto simp: mesh_dispatch_def reached_def routes_of_add routes_of_remove [OF assms]
      routes_only_queues [OF only_queues_chan_send])
    (cases f; auto simp: mesh_dispatch_def other_routes_def fun_eq_iff routes_of_add routes_of_remove [OF assms]
      routes_only_queues [OF only_queues_chan_send])

text \<open>
  A run of a system with two kinds of steps: those that handle an item, and those that handle none.
\<close>

inductive handles :: "('f \<Rightarrow> 's \<Rightarrow> 's) \<Rightarrow> ('s \<Rightarrow> 's \<Rightarrow> bool) \<Rightarrow> 's \<Rightarrow> 'f list \<Rightarrow> 's \<Rightarrow> bool" for step idle where
  stop: "handles step idle s [] s"
| item: "handles step idle (step f s) fs t \<Longrightarrow> handles step idle s (f # fs) t"
| skip: "idle s u \<Longrightarrow> handles step idle u fs t \<Longrightarrow> handles step idle s fs t"

text \<open>
  What a client of the route table relies on: a step on one connection's behalf changes what that
  connection knows as announced and leaves the routes through the others alone; an idle step changes
  neither.
\<close>

locale presence_table =
  fixes inv :: "'s \<Rightarrow> bool" and step :: "'f \<Rightarrow> 's \<Rightarrow> 's" and idle :: "'s \<Rightarrow> 's \<Rightarrow> bool" and keys :: "'s \<Rightarrow> 'k set"
    and others :: "'s \<Rightarrow> 'o" and says :: "'f \<Rightarrow> 'k set \<Rightarrow> 'k set"
  assumes step_inv: "inv s \<Longrightarrow> inv (step f s)"
    and step_keys: "inv s \<Longrightarrow> keys (step f s) = says f (keys s)"
    and step_others: "inv s \<Longrightarrow> others (step f s) = others s"
    and idle_inv: "idle s t \<Longrightarrow> inv s \<Longrightarrow> inv t"
    and idle_keys: "idle s t \<Longrightarrow> keys t = keys s"
    and idle_others: "idle s t \<Longrightarrow> others t = others s"
begin

lemma run_table:
  "handles step idle s fs t \<Longrightarrow> inv s \<Longrightarrow> inv t \<and> keys t = fold says fs (keys s) \<and> others t = others s"
  by (induction rule: handles.induct) (simp_all add: step_inv step_keys step_others idle_inv idle_keys idle_others)

end

lemma mesh_dispatch_inv: "mesh_inv s \<Longrightarrow> mesh_inv (mesh_dispatch C mid f s)"
  by (cases f) (simp_all add: mesh_dispatch_def add_mesh_route_inv remove_mesh_route_inv
      mesh_inv_keeps [OF keeps_only_queues [OF only_queues_chan_send]])

text \<open>The writer's step takes a frame from the connection's queue.\<close>

definition taken :: "'ch mpsc \<Rightarrow> chan_id \<Rightarrow> 'ch Relay \<Rightarrow> 'ch Relay \<Rightarrow> bool" where
  "taken C c s t \<longleftrightarrow> (\<exists>q f q'. chans s c = Some q \<and> try_recv C q = Some (f, q') \<and> t = s\<lparr>chans := (chans s)(c \<mapsto> q')\<rparr>)"

lemma taken_step: "taken C c s t \<Longrightarrow> relay_step C s t"
  by (auto simp: taken_def intro: relay_step.recv)

lemma routes_chans [simp]:
  "routes_of (s\<lparr>chans := Q\<rparr>) k = routes_of s k" "mesh_inv (s\<lparr>chans := Q\<rparr>) = mesh_inv s"
  by (simp_all add: routes_of_def mesh_inv_def)

interpretation mesh_conn: presence_table mesh_inv "mesh_dispatch C mid" "taken C (MeshChan mid)" "reached mid"
  "other_routes mid" known_step for C mid
proof unfold_locales
  fix s t
  assume "taken C (MeshChan mid) s t"
  then show "mesh_inv s \<Longrightarrow> mesh_inv t" "reached mid t = reached mid s" "other_routes mid t = other_routes mid s"
    by (auto simp: taken_def reached_def other_routes_def fun_eq_iff)
qed (rule mesh_dispatch_inv mesh_dispatch_refines; assumption)+

subsection \<open>The two halves\<close>

text \<open>The frames that a reader of at most \<open>n\<close> frames gets from its input before an error.\<close>

fun frames_in :: "nat \<Rightarrow> stream \<Rightarrow> Frame list" where
  "frames_in 0 input = []"
| "frames_in (Suc n) input =
     (case read_frame input MESH_READ_LIMIT of Inl _ \<Rightarrow> [] | Inr (f, input) \<Rightarrow> f # frames_in n input)"

lemma frames_in_get_n:
  "get_n (\<lambda>r. read_frame r MESH_READ_LIMIT) n input = Inr (fs, rest) \<Longrightarrow> frames_in n input = fs"
  by (induction n arbitrary: input fs) (auto simp: try_res_Inr)

lemma mesh_write_taken: "mesh_write C K mid w s = (w', t, r) \<Longrightarrow> t = s \<and> r = None \<or> taken C (MeshChan mid) s t"
  by (auto simp: mesh_write_def taken_def Let_def split: option.splits sum.splits Option.bind_splits)

text \<open>What the connection does depends on the frames read, not on when the writer had its turns.\<close>

lemma mesh_loop_handles:
  assumes "mesh_loop C K mid ts input w s = (input', w', t, r)"
  shows "\<exists>n \<le> count_list ts MeshRead. (r = None \<longrightarrow> n = count_list ts MeshRead) \<and>
    handles (mesh_dispatch C mid) (taken C (MeshChan mid)) s (frames_in n input) t"
  using assms
proof (induction C K mid ts input w s rule: mesh_loop.induct)
  case (1 C K mid input w s)
  then show ?case by (simp add: handles.stop)
next
  case (2 C K mid ts input w s)
  show ?case
  proof (cases "read_frame input MESH_READ_LIMIT")
    case (Inl e)
    with "2.prems" show ?thesis by (auto simp: mesh_read_def intro!: exI [of _ 0] handles.stop)
  next
    case (Inr fi)
    obtain f rest where fi: "fi = (f, rest)" by (cases fi)
    have rd: "mesh_read C mid input s = (rest, mesh_dispatch C mid f s, None)" by (simp add: mesh_read_def Inr fi)
    have "mesh_loop C K mid ts rest w (mesh_dispatch C mid f s) = (input', w', t, r)" using "2.prems" by (simp add: rd)
    from "2.IH" [OF rd [symmetric] refl refl this] obtain n where n: "n \<le> count_list ts MeshRead"
      "r = None \<longrightarrow> n = count_list ts MeshRead"
      "handles (mesh_dispatch C mid) (taken C (MeshChan mid)) (mesh_dispatch C mid f s) (frames_in n rest) t" by blast
    from handles.item [OF n(3)] n(1,2) show ?thesis by (auto simp: Inr fi intro!: exI [of _ "Suc n"])
  qed
next
  case (3 C K mid ts input w s)
  obtain w1 s1 r1 where wr: "mesh_write C K mid w s = (w1, s1, r1)" by (cases "mesh_write C K mid w s")
  note k = mesh_write_taken [OF wr]
  show ?case
  proof (cases r1)
    case None
    have "mesh_loop C K mid ts input w1 s1 = (input', w', t, r)" using "3.prems" by (simp add: wr None)
    from "3.IH" [OF wr [unfolded None, symmetric] refl refl this] k show ?thesis by (auto intro: handles.skip)
  next
    case (Some e)
    with wr k "3.prems" have "taken C (MeshChan mid) s t" "r \<noteq> None" by auto
    then show ?thesis by (auto intro!: exI [of _ 0] intro: handles.skip [OF _ handles.stop])
  qed
qed

lemma handles_steps:
  "handles (mesh_dispatch C mid) (taken C (MeshChan mid)) s fs t \<Longrightarrow> (relay_step C)\<^sup>*\<^sup>* s t"
proof (induction rule: handles.induct)
  case (item f s fs t)
  from rtranclp_trans [OF mesh_dispatch_step item.IH] show ?case .
next
  case (skip s u fs t)
  from converse_rtranclp_into_rtranclp [of "relay_step C", OF taken_step [OF skip.hyps(1)] skip.IH] show ?case .
qed simp

lemma mesh_loop_ends:
  "length (fst input) < 5 * count_list ts MeshRead \<Longrightarrow> mesh_loop C K mid ts input w s = (input', w', t, r) \<Longrightarrow> r \<noteq> None"
proof (induction C K mid ts input w s rule: mesh_loop.induct)
  case (2 C K mid ts input w s)
  show ?case
  proof (cases "read_frame input MESH_READ_LIMIT")
    case (Inr fi)
    obtain f rest where fi: "fi = (f, rest)" by (cases fi)
    have "length (fst rest) < 5 * count_list ts MeshRead"
      using read_frame_consumes(1) [of input MESH_READ_LIMIT f rest] Inr fi "2.prems"(1) by simp
    with "2.IH" [of rest "(mesh_dispatch C mid f s, None)"] "2.prems"(2) show ?thesis by (simp add: mesh_read_def Inr fi)
  qed (use 2 in \<open>auto simp: mesh_read_def\<close>)
qed (auto split: prod.splits option.splits)

text \<open>On a connection that takes its writes, the queue goes out in order.\<close>

lemma put_frame_sink:
  assumes "sink_ok K sent" "encode f = Inr raw"
  shows "\<exists>w'. put_frame K w f = Inr w' \<and> sent w' = sent w @ raw"
  using put_out_sink [OF assms(1), of "[]" w raw] assms(2)
  by (auto simp: put_frame_def put_out_def write_frame_def split: sum.splits)

lemma mesh_writes:
  assumes C: "mpsc_ok C pend room" and K: "sink_ok K sent" and q: "chans s (MeshChan mid) = Some q"
    and "\<forall>f\<in>set (pend q). sendable m f"
  shows "\<exists>raw w' q'. mesh_loop C K mid (replicate (length (pend q)) MeshWrite) input w s =
      (input, w', s\<lparr>chans := (chans s)(MeshChan mid \<mapsto> q')\<rparr>, None) \<and>
    pend q' = [] \<and> sent w' = sent w @ raw \<and> carries m raw (pend q)"
  using assms(3,4)
proof (induction "pend q" arbitrary: q w s)
  case Nil
  then have "s\<lparr>chans := (chans s)(MeshChan mid \<mapsto> q)\<rparr> = s" by (simp add: fun_upd_idem)
  with Nil show ?case by (metis append_Nil2 carries_Nil list.size(3) mesh_loop.simps(1) replicate_0)
next
  case (Cons f fs)
  from recv_pend(2) [OF C Cons.hyps(2) [symmetric]] obtain q1 where q1: "try_recv C q = Some (f, q1)" "pend q1 = fs" by blast
  have f: "sendable m f" using Cons.prems(2) Cons.hyps(2) by (metis list.set_intros(1))
  from derp.put_all_get_n [of "[f]" m] f obtain ra where ra: "encode f = Inr ra" "carries m ra [f]"
    unfolding carries_def by (cases "encode f") (auto simp: encode_into_encode)
  from put_frame_sink [OF K ra(1), of w] obtain w1 where w1: "put_frame K w f = Inr w1" "sent w1 = sent w @ ra" by blast
  let ?s = "s\<lparr>chans := (chans s)(MeshChan mid \<mapsto> q1)\<rparr>"
  have wr: "mesh_write C K mid w s = (w1, ?s, None)" by (simp add: mesh_write_def Cons.prems(1) q1(1) w1(1))
  have "\<forall>g\<in>set (pend q1). sendable m g" using Cons.prems(2) Cons.hyps(2) q1(2) by (metis list.set_intros(2))
  from Cons.hyps(1) [of q1 ?s, OF q1(2) [symmetric] _ this, of w1] obtain raw w' q' where
    "mesh_loop C K mid (replicate (length (pend q1)) MeshWrite) input w1 ?s =
      (input, w', s\<lparr>chans := (chans s)(MeshChan mid \<mapsto> q')\<rparr>, None)" "pend q' = []" "sent w' = sent w1 @ raw"
    "carries m raw fs" by (auto simp: q1(2))
  with wr w1(2) carries_append [OF ra(2)] q1(2) show ?case
    by (auto simp: Cons.hyps(2) [symmetric] intro!: exI [of _ "ra @ raw"])
qed

lemma known_step_wire [simp]: "known_step (wire_normal f) K = known_step f K"
  by (cases f rule: wire_normal.cases) (simp_all add: Let_def split: option.split list.split)

lemma fold_known_wire [simp]: "fold known_step (map wire_normal fs) K = fold known_step fs K"
  by (induction fs arbitrary: K) simp_all

subsection \<open>The whole connection\<close>

lemma live_mesh_ops [simp]:
  "live_set (add_mesh_route m k ch s) = live_set s" "live_set (remove_mesh_route m k s) = live_set s"
  "live_set (fst (chan_send C c f s)) = live_set s"
  by (simp_all add: live_set_def add_mesh_route_def remove_mesh_route_def chan_send_def Let_def split: option.split)

lemma routes_hang_up [simp]: "routes_of (hang_up C c s) k = routes_of s k"
  by (simp add: hang_up_def routes_of_def)

lemma mesh_run_steps:
  assumes reach: "reachable C s"
    and run: "mesh_run B J C K nonce srv request mkey ts input w nmid s = (nmid', t, r)"
  shows "reachable C t \<and> (r \<noteq> None \<longrightarrow> (\<forall>k. routes_of t k = routes_of s k \<or> routes_of t k = other_routes nmid s k))"
proof (cases "mesh_handshake B J K nonce request (srv_key srv) mkey input w")
  case (Inr iw)
  obtain rest w' where iw: "iw = (rest, w')" by (cases iw)
  let ?s1 = "s\<lparr>chans := (chans s)(MeshChan nmid \<mapsto> channel C (max (cfg_queue_depth (config srv)) 64))\<rparr>"
  obtain i2 w2 s2 r2 where s2: "mesh_loop C K nmid ts rest w' ?s1 = (i2, w2, s2, r2)"
    by (cases "mesh_loop C K nmid ts rest w' ?s1")
  have t: "t = (if r = None then s2 else hang_up C (MeshChan nmid) (remove_mesh nmid s2))"
    using run Inr iw s2 by (auto simp: mesh_run_def Let_def split: option.splits)
  have r1: "reachable C ?s1" by (rule reach.more [OF reach relay_step.mesh_connect]) simp
  from mesh_loop_handles [OF s2] obtain fs where h: "handles (mesh_dispatch C nmid) (taken C (MeshChan nmid)) ?s1 fs s2" by blast
  note l = mesh_conn.run_table [OF h reachable_mesh_inv [OF r1]]
  have r2: "reachable C s2" using reach_steps [OF r1 handles_steps [OF h]] .
  have "reachable C (hang_up C (MeshChan nmid) (remove_mesh nmid s2))"
    by (rule reach_steps [OF reach.more [OF r2 relay_step.remove_mesh] hang_up_step])
  then have "reachable C t" using r2 by (simp add: t)
  moreover have "routes_of t k = other_routes nmid s k" if "r \<noteq> None" for k
  proof -
    have "routes_of t k = other_routes nmid s2 k"
      using remove_mesh_routes [OF reachable_mesh_inv [OF r2]] that by (auto simp: t other_routes_def)
    also have "\<dots> = other_routes nmid ?s1 k" using l by simp
    finally show ?thesis by (simp add: other_routes_def routes_of_def)
  qed
  ultimately show ?thesis by blast
qed (use run reach in \<open>auto simp: mesh_run_def\<close>)

lemma mesh_attempt_reach:
  assumes "reachable C s" "mesh_attempt U D B J C K nonce srv peer mkey ts nmid s = (nmid', t, r)"
  shows "reachable C t \<and> (r \<noteq> None \<longrightarrow> (\<forall>k. routes_of t k = routes_of s k \<or> routes_of t k = other_routes nmid s k))"
proof (cases "mesh_connect U D peer")
  case (Inr x)
  obtain request input w where x: "x = (request, input, w)" by (cases x)
  have "mesh_run B J C K nonce srv request mkey ts input w nmid s = (nmid', t, r)"
    using assms(2) Inr x by (simp add: mesh_attempt_def)
  with assms(1) show ?thesis by (rule mesh_run_steps)
qed (use assms in \<open>auto simp: mesh_attempt_def\<close>)

lemma mesh_attempt_ends:
  assumes "reachable C s" "\<And>k. nmid \<notin> mr_mesh_id ` set (routes_of s k)"
    and "mesh_attempt U D B J C K nonce srv peer mkey ts nmid s = (nmid', t, Some e)"
  shows "reachable C t" "routes_of t k = routes_of s k" "nmid' = nmid \<or> nmid' = nmid + 1"
proof -
  have "other_routes nmid s k = routes_of s k" for k
    unfolding other_routes_def using assms(2) [of k] by (auto simp: filter_id_conv)
  with mesh_attempt_reach [OF assms(1,3)] show "reachable C t" "routes_of t k = routes_of s k" by auto
  show "nmid' = nmid \<or> nmid' = nmid + 1"
    using assms(3) by (auto simp: mesh_attempt_def mesh_run_def Let_def split: sum.splits prod.splits option.splits)
qed

lemma mesh_task_ends:
  assumes "reachable C s" "\<And>k j. j < length as \<Longrightarrow> nmid + of_nat j \<notin> mr_mesh_id ` set (routes_of s k)"
    and "mesh_task U B J C K srv peer mkey as nmid s = (nmid', t, True)"
  shows "reachable C t \<and> (\<forall>k. routes_of t k = routes_of s k)"
  using assms
proof (induction U B J C K srv peer mkey as nmid s rule: mesh_task.induct)
  case (1 U B J C K srv peer mkey nmid s)
  then show ?case by simp
next
  case (2 U B J C K srv peer mkey D nonce ts rest nmid s)
  obtain n1 s1 r1 where run: "mesh_attempt U D B J C K nonce srv peer mkey ts nmid s = (n1, s1, r1)"
    by (cases "mesh_attempt U D B J C K nonce srv peer mkey ts nmid s")
  with "2.prems"(3) obtain e where r1: "r1 = Some e" by (cases r1) auto
  have "nmid \<notin> mr_mesh_id ` set (routes_of s k)" for k using "2.prems"(2) [of 0 k] by simp
  note one = mesh_attempt_ends [OF "2.prems"(1) this run [unfolded r1]]
  have fresh: "n1 + of_nat j \<notin> mr_mesh_id ` set (routes_of s1 k)" if "j < length rest" for k j
    using "2.prems"(2) [of j k] "2.prems"(2) [of "Suc j" k] that one(2,3) by (auto simp: ac_simps)
  have "mesh_task U B J C K srv peer mkey rest n1 s1 = (nmid', t, True)" using "2.prems"(3) run r1 by simp
  from "2.IH" [OF run [symmetric] refl r1 one(1) fresh this] one(2) show ?case by simp
qed

end
