(* ===== verification/Derp_System.thy ===== *)
theory Derp_System
  imports Derp_Mesh Derp_Writer
begin

text \<open>
  The server while it runs: any number of client sessions and mesh connections, each a task of its own,
  interleaved step by step over the one relay. The tasks' local states are the unread input and the
  token bucket of a session and the set of mesh connections. A step is one client accepted or refused,
  one frame read and handled, one turn of a writer, one frame from or to a mesh peer, or an end. The
  history variables \<open>proved\<close> (the keys that clients have proved) and \<open>lost\<close> (the sessions dropped without
  being unregistered) do not influence the steps.
\<close>

record 'ch server_state =
  sys_relay :: "'ch Relay"
  serving :: "SessionId \<rightharpoonup> stream \<times> TokenBucket"
  mesh_conns :: "u64 set"
  proved :: "NodeKey set"
  lost :: "SessionId set"

definition address_ok :: "SocketAddr \<Rightarrow> bool" where
  "address_ok a \<longleftrightarrow> (case ip a of V4 o4 \<Rightarrow> length o4 = 4 | V6 o6 \<Rightarrow> length o6 = 16)"

text \<open>The end of a session's task: \<open>unregister\<close>, then the drop of the receiver.\<close>

definition end_session :: "'ch mpsc \<Rightarrow> SessionId \<Rightarrow> 'ch Relay \<Rightarrow> 'ch Relay" where
  "end_session C i s = hang_up C (SessionChan i) (unregister C i s)"

inductive server_step ::
    "box_lib \<Rightarrow> json_lib \<Rightarrow> unit hex_lib \<Rightarrow> admission \<Rightarrow> 'ch mpsc \<Rightarrow> bytes sink \<Rightarrow> DerpServer
       \<Rightarrow> 'ch server_state \<Rightarrow> 'ch server_state \<Rightarrow> bool"
  for B J H post C K srv where
  refuse: "accept_client B J H post C K late now srv remote nideal input w (sys_relay S) = (t, Inl e) \<Longrightarrow>
    server_step B J H post C K srv S (S\<lparr>sys_relay := t\<rparr>)"
| accept: "accept_client B J H post C K late now srv remote nideal input w (sys_relay S) = (t, Inr (i, key, rest, w')) \<Longrightarrow>
    ids_left (sys_relay S) \<Longrightarrow> address_ok remote \<Longrightarrow>
    server_step B J H post C K srv S
      (S\<lparr>sys_relay := t,
         serving := (serving S)(i \<mapsto> (rest, TokenBucket_new (rate_limit (config srv)) (rate_burst (config srv)) now)),
         proved := insert key (proved S)\<rparr>)"
| read: "serving S i = Some (input, tb) \<Longrightarrow> heap (sys_relay S) i = Some h \<Longrightarrow>
    read_frame input READ_LIMIT = Inr (f, rest) \<Longrightarrow> reader_turn C ts h f tb (sys_relay S) = (tb', t, Inr u) \<Longrightarrow>
    server_step B J H post C K srv S (S\<lparr>sys_relay := t, serving := (serving S)(i \<mapsto> (rest, tb'))\<rparr>)"
| fail: "serving S i = Some (input, tb) \<Longrightarrow> heap (sys_relay S) i = Some h \<Longrightarrow>
    read_frame input READ_LIMIT = Inr (f, rest) \<Longrightarrow> reader_turn C ts h f tb (sys_relay S) = (tb', t, Inl e) \<Longrightarrow>
    server_step B J H post C K srv S (S\<lparr>sys_relay := end_session C i t, serving := (serving S)(i := None)\<rparr>)"
| leave: "serving S i = Some (input, tb) \<Longrightarrow>
    server_step B J H post C K srv S (S\<lparr>sys_relay := end_session C i (sys_relay S), serving := (serving S)(i := None)\<rparr>)"
| drop: "serving S i = Some (input, tb) \<Longrightarrow>
    server_step B J H post C K srv S
      (S\<lparr>sys_relay := hang_up C (SessionChan i) (sys_relay S), serving := (serving S)(i := None), lost := insert i (lost S)\<rparr>)"
| send: "serving S i = Some (input, tb) \<Longrightarrow> heap (sys_relay S) i = Some h \<Longrightarrow>
    chans (sys_relay S) (SessionChan i) = Some q \<Longrightarrow> writer_turn C K t h q w = (q', w', r) \<Longrightarrow>
    server_step B J H post C K srv S
      (S\<lparr>sys_relay := (sys_relay S)\<lparr>chans := (chans (sys_relay S))(SessionChan i \<mapsto> q')\<rparr>\<rparr>)"
| mesh_up: "m \<notin> mesh_conns S \<Longrightarrow>
    server_step B J H post C K srv S
      (S\<lparr>sys_relay := (sys_relay S)\<lparr>chans := (chans (sys_relay S))(MeshChan m \<mapsto> channel C (max (cfg_queue_depth (config srv)) 64))\<rparr>,
         mesh_conns := insert m (mesh_conns S)\<rparr>)"
| mesh_frame: "m \<in> mesh_conns S \<Longrightarrow> read_frame input MESH_READ_LIMIT = Inr (f, rest) \<Longrightarrow>
    server_step B J H post C K srv S (S\<lparr>sys_relay := mesh_dispatch C m f (sys_relay S)\<rparr>)"
| mesh_send: "m \<in> mesh_conns S \<Longrightarrow> chans (sys_relay S) (MeshChan m) = Some q \<Longrightarrow> try_recv C q = Some (f, q') \<Longrightarrow>
    server_step B J H post C K srv S
      (S\<lparr>sys_relay := (sys_relay S)\<lparr>chans := (chans (sys_relay S))(MeshChan m \<mapsto> q')\<rparr>\<rparr>)"
| mesh_down: "m \<in> mesh_conns S \<Longrightarrow>
    server_step B J H post C K srv S
      (S\<lparr>sys_relay := hang_up C (MeshChan m) (remove_mesh m (sys_relay S)), mesh_conns := mesh_conns S - {m}\<rparr>)"
| restart: "server_step B J H post C K srv S
    (S\<lparr>sys_relay := broadcast_restart C (fst (restart_window (shutdown_grace (config srv))))
         (snd (restart_window (shutdown_grace (config srv)))) (sys_relay S)\<rparr>)"
| count: "current_clients m = current_clients (metrics (sys_relay S)) \<Longrightarrow>
    preferred_clients m = preferred_clients (metrics (sys_relay S)) \<Longrightarrow> balance m = balance (metrics (sys_relay S)) \<Longrightarrow>
    server_step B J H post C K srv S (S\<lparr>sys_relay := (sys_relay S)\<lparr>metrics := m\<rparr>\<rparr>)"

inductive_cases server_stepE: "server_step B J H post C K srv S T"

definition server_init :: "Config \<Rightarrow> bytes option \<Rightarrow> 'ch server_state \<Rightarrow> bool" where
  "server_init cfg mkey S \<longleftrightarrow>
     S = \<lparr>sys_relay = server_relay cfg mkey, serving = Map.empty, mesh_conns = {}, proved = {}, lost = {}\<rparr>"

subsection \<open>The relay under the sessions\<close>

text \<open>
  Every step of the server is a sequence of steps of the relay, so all invariants of the relay hold; the
  registered sessions are exactly those being served and those lost.
\<close>

definition tasks_inv :: "'ch mpsc \<Rightarrow> 'ch server_state \<Rightarrow> bool" where
  "tasks_inv C S \<longleftrightarrow> reachable C (sys_relay S) \<and> live_set (sys_relay S) = dom (serving S) \<union> lost S \<and>
     dom (serving S) \<inter> lost S = {}"

lemma end_session_steps:
  assumes "relay_inv s" "i \<in> live_set s"
  shows "(relay_step C)\<^sup>*\<^sup>* s (end_session C i s) \<and> live_set (end_session C i s) = live_set s - {i}"
proof -
  from converse_rtranclp_into_rtranclp [of "relay_step C", OF relay_step.unregister [OF assms(2)] hang_up_step]
    live_unregister [OF assms]
  show ?thesis by (simp add: end_session_def)
qed

lemma live_remove_mesh [simp]: "live_set (remove_mesh m s) = live_set s"
proof -
  have "live_set (fold (remove_mesh_route m) ks s) = live_set s" for ks
    by (induction ks arbitrary: s) simp_all
  then show ?thesis by (simp add: remove_mesh_def)
qed

lemma live_mesh_dispatch [simp]: "live_set (mesh_dispatch C m f s) = live_set s"
  by (cases f) (simp_all add: mesh_dispatch_def)

lemma live_restart [simp]: "live_set (broadcast_restart C a b s) = live_set s"
  by (rule live_only_queues [OF only_queues_restart])

lemma served_handle:
  assumes "tasks_inv C S" "serving S i = Some x" "heap (sys_relay S) i = Some h"
  shows "i \<in> live_set (sys_relay S)" "sh_id h = i" "relay_inv (sys_relay S)"
proof -
  show inv: "relay_inv (sys_relay S)" using assms(1) reachable_relay_inv by (auto simp: tasks_inv_def)
  show live: "i \<in> live_set (sys_relay S)" using assms(1,2) by (auto simp: tasks_inv_def)
  from live_tx [OF inv live] assms(3) show "sh_id h = i" by auto
qed

lemma server_step_relay:
  assumes inv: "tasks_inv C S" and step: "server_step B J H post C K srv S T"
  shows "(relay_step C)\<^sup>*\<^sup>* (sys_relay S) (sys_relay T) \<and> live_set (sys_relay T) = dom (serving T) \<union> lost T \<and>
    dom (serving T) \<inter> lost T = {}"
proof -
  have reach: "reachable C (sys_relay S)" and live: "live_set (sys_relay S) = dom (serving S) \<union> lost S"
    and disj: "dom (serving S) \<inter> lost S = {}" using inv by (auto simp: tasks_inv_def)
  have same: ?thesis if "(relay_step C)\<^sup>*\<^sup>* (sys_relay S) (sys_relay T)"
      "live_set (sys_relay T) = live_set (sys_relay S)" "dom (serving T) = dom (serving S)" "lost T = lost S"
    using that live disj by simp
  have one: "relay_step C s t \<Longrightarrow> (relay_step C)\<^sup>*\<^sup>* s t" for s t :: "'a Relay" by blast
  from step show ?thesis
  proof cases
    case (refuse late now remote nideal input w t e)
    have "relay_step C (sys_relay S)
        (upd_metrics (\<lambda>m. m\<lparr>admission_rejected := inc (admission_rejected m) 1\<rparr>) (sys_relay S))"
      by (rule relay_step.counter) (simp_all add: balance_def)
    with accept_Inl [OF refuse(2)] show ?thesis by (intro same) (auto simp: refuse(1))
  next
    case (accept late now remote nideal input w t i key rest w')
    from accept_registers [OF accept(2)] obtain mesh ack prober where
      "register C now key remote mesh ack prober nideal (sys_relay S) = (i, t)" by blast
    note reg = registered_session [OF reachable_relay_inv [OF reach] accept(3) this]
    from reg(2,4,6) live disj show ?thesis by (auto simp: accept(1))
  next
    case (read i input tb h f rest ts tb' t u)
    note h = served_handle [OF inv read(2,3)]
    have "sh_id h \<in> live_set (sys_relay S)" using h by simp
    from turn_step [OF h(3) this read(5)] read(2) show ?thesis by (intro same) (auto simp: read(1))
  next
    case (fail i input tb h f rest ts tb' t e)
    note h = served_handle [OF inv fail(2,3)]
    have "sh_id h \<in> live_set (sys_relay S)" using h by simp
    note tu = turn_step [OF h(3) this fail(5)]
    have "relay_inv t" using relay.steps_inv [of C] tu h(3) by blast
    moreover have "i \<in> live_set t" using tu h(1) by simp
    ultimately have "(relay_step C)\<^sup>*\<^sup>* t (end_session C i t)" "live_set (end_session C i t) = live_set t - {i}"
      using end_session_steps by blast+
    with tu live disj fail(2) show ?thesis by (auto simp: fail(1) intro: rtranclp_trans)
  next
    case (leave i input tb)
    then have "i \<in> live_set (sys_relay S)" using live by auto
    from end_session_steps [OF reachable_relay_inv [OF reach] this] live disj leave(2) show ?thesis by (auto simp: leave(1))
  next
    case (drop i input tb)
    from hang_up_step live disj drop(2) show ?thesis by (auto simp: drop(1))
  next
    case (send i input tb h q t w q' w' r)
    from recv_steps [OF writer_turn_recv [OF send(5)] send(4)] show ?thesis by (intro same) (simp_all add: send(1))
  next
    case (mesh_up m)
    show ?thesis by (intro same one) (simp_all add: mesh_up(1) relay_step.mesh_connect)
  next
    case (mesh_frame m input f rest)
    show ?thesis by (intro same) (simp_all add: mesh_frame(1) mesh_dispatch_step)
  next
    case (mesh_send m q f q')
    from relay_step.recv [OF mesh_send(3,4)] show ?thesis by (intro same one) (simp_all add: mesh_send(1))
  next
    case (mesh_down m)
    have "relay_step C (sys_relay S) (remove_mesh m (sys_relay S))" by (rule relay_step.remove_mesh)
    from converse_rtranclp_into_rtranclp [of "relay_step C", OF this hang_up_step] show ?thesis
      by (intro same) (simp_all add: mesh_down(1))
  next
    case restart
    show ?thesis by (intro same one) (simp_all add: restart relay_step.restart)
  next
    case (count m)
    from relay_step.counter [OF count(2-4)] show ?thesis by (intro same one) (simp_all add: count(1))
  qed
qed

lemma tasks_inv_step:
  assumes "tasks_inv C S" "server_step B J H post C K srv S T"
  shows "tasks_inv C T"
proof -
  have "reachable C (sys_relay S)" using assms(1) by (simp add: tasks_inv_def)
  with server_step_relay [OF assms] show ?thesis by (auto simp: tasks_inv_def intro: reach_steps)
qed

lemma tasks_inv_init: "server_init cfg mkey S \<Longrightarrow> tasks_inv C S"
  by (auto simp: server_init_def tasks_inv_def server_relay_def relay_init_def live_set_def Relay_new_def intro!: reach.start)

interpretation tasks: inductive_invariant "server_init cfg mkey" "server_step B J H post C K srv" "tasks_inv C"
  for cfg mkey B J H post C K srv
  by unfold_locales (auto intro: tasks_inv_init tasks_inv_step)

interpretation server_relay: simulation "server_init cfg mkey" "server_step B J H post C K srv" "tasks_inv C"
    relay_init "relay_step C" sys_relay
  for cfg mkey B J H post C K srv
  by unfold_locales (auto simp: server_init_def server_relay_def relay_init_def dest: server_step_relay)

subsection \<open>Who the sessions are\<close>

definition who :: "SessionHandle \<Rightarrow> NodeKey \<times> SocketAddr \<times> bool" where
  "who h = (sh_key h, endpoint h, can_mesh h)"

lemma who_upd [simp]:
  "who (h\<lparr>seen_sources := x\<rparr>) = who h" "who (h\<lparr>peer_gone_limiter := l\<rparr>) = who h" "who (h\<lparr>duplicate := d\<rparr>) = who h"
  "who (h\<lparr>sh_closed := c\<rparr>) = who h" "who (h\<lparr>preferred := p\<rparr>) = who h" "who (h\<lparr>preferred_seen := q\<rparr>) = who h"
  "who (new_handle i now key ep mesh ack prober nideal) = (key, ep, mesh)"
  by (simp_all add: who_def new_handle_def)

lemma who_close_peer [simp]: "proj who (fst (close_peer i k s)) = proj who s"
proof -
  have "proj who (fold close js s) = proj who s" for js
    by (induction js arbitrary: s) (simp_all add: close_def proj_upd_handle)
  then show ?thesis by (simp add: close_peer_def split: option.split)
qed

lemma who_watch [simp]: "proj who (fst (watch C i s)) = proj who s"
proof (cases "heap s i")
  case (Some h)
  show ?thesis
  proof (cases "can_mesh h")
    case True
    show ?thesis using proj_only_queues [OF only_queues_watch [OF Some True, of C], of who] by (simp add: proj_def fun_eq_iff)
  qed (simp add: watch_refused [OF Some])
qed (simp add: watch_def)

lemma who_dispatch: "proj who (fst (dispatch C now h f s)) = proj who s"
  by (cases f) (simp_all add: dispatch_def proj_route proj_note_preferred fst_dispatch_watch)

lemma who_turn: "reader_turn C ts h f tb s = (tb', t, r) \<Longrightarrow> proj who t = proj who s"
  using who_dispatch [of C _ h f "note_activity (sh_id h) s"]
  by (auto simp: reader_turn_def Let_def split: prod.splits) (metis fst_conv)

lemma who_unregister:
  assumes "relay_inv s" "i \<in> live_set s"
  shows "proj who (unregister C i s) = proj who s"
proof -
  have pi: "peers_inv s" using assms(1) by (simp add: relay_inv_def)
  from live_handle [OF pi assms(2)] obtain h ps where h: "heap s i = Some h" "map_of (peers s) (sh_key h) = Some ps" by metis
  from unregister_departed [OF pi h, of C] have
    "heap (unregister C i s) = (\<lambda>j. if j = i then Some (h\<lparr>sh_closed := True, preferred := False\<rparr>)
       else if filter (\<lambda>j. j \<noteq> i) (sessions ps) = [j] then map_option (\<lambda>h. h\<lparr>duplicate := False\<rparr>) (heap s j) else heap s j)"
    by (simp add: departed_def)
  with h(1) show ?thesis by (auto simp: proj_def fun_eq_iff option.map_comp comp_def)
qed

lemma who_register:
  assumes "relay_inv s" "ids_left s" "register C now key ep mesh ack prober nideal s = (i, t)"
  shows "proj who t = (proj who s)(i \<mapsto> (key, ep, mesh))"
proof -
  have t: "t = snd (register C now key ep mesh ack prober nideal s)" and i: "i = next_id s"
    using assms(3) register_id [of C now key ep mesh ack prober nideal s] by simp_all
  have "heap t = mark_dup (joined key s) ((heap s)(i \<mapsto> new_handle i now key ep mesh ack prober nideal))"
    unfolding t using only_queues_fields(1) [OF register_registered [of key s now ep mesh ack prober nideal C]]
    by (simp add: i registered_def)
  then show ?thesis
    by (auto simp: proj_def fun_eq_iff mark_dup_def option.map_comp comp_def)
qed

lemma who_mesh [simp]:
  "proj who (mesh_dispatch C m f s) = proj who s" "proj who (remove_mesh m s) = proj who s"
proof -
  have r: "proj who (remove_mesh_route m k s) = proj who s" for k and s :: "'a Relay"
    by (simp add: remove_mesh_route_def Let_def split: option.split)
  show "proj who (mesh_dispatch C m f s) = proj who s"
    by (cases f) (simp_all add: mesh_dispatch_def r add_mesh_route_def Let_def proj_only_queues [OF only_queues_chan_send])
  have "proj who (fold (remove_mesh_route m) ks s) = proj who s" for ks
    by (induction ks arbitrary: s) (simp_all add: r)
  then show "proj who (remove_mesh m s) = proj who s" by (simp add: remove_mesh_def)
qed

lemma mesh_key_step: "relay_inv s \<Longrightarrow> relay_step C s t \<Longrightarrow> mesh_key t = mesh_key s"
proof -
  assume inv: "relay_inv s" and step: "relay_step C s t"
  have k: "keeps s u \<Longrightarrow> mesh_key u = mesh_key s" for u by (simp add: keeps_def)
  have r: "mesh_key (remove_mesh_route m k s) = mesh_key s" for m k and s :: "'a Relay"
    by (simp add: remove_mesh_route_def Let_def split: option.split)
  have rr: "mesh_key (fold (remove_mesh_route m) ks s) = mesh_key s" for m ks
    by (induction ks arbitrary: s) (simp_all add: r)
  from step show ?thesis
    by (cases rule: relay_stepE)
      (use inv in \<open>auto simp: r rr remove_mesh_def add_mesh_route_def Let_def k [OF keeps_register]
        k [OF live_keeps_unregister] k [OF keeps_note_activity] k [OF keeps_note_preferred] k [OF keeps_route]
        k [OF keeps_watch] k [OF keeps_close_peer] k [OF keeps_send] k [OF keeps_restart]
        k [OF keeps_only_queues [OF only_queues_chan_send]]\<close>)
qed

lemma mesh_key_steps: "(relay_step C)\<^sup>*\<^sup>* s t \<Longrightarrow> relay_inv s \<Longrightarrow> mesh_key t = mesh_key s"
proof (induction rule: rtranclp_induct)
  case (step t u)
  have "relay_inv t" using relay.steps_inv [OF step.hyps(1) step.prems] .
  with step mesh_key_step show ?case by metis
qed simp

subsection \<open>The invariants of the running server\<close>

lemma read_frame_wf: "read_frame r m = Inr (f, rest) \<Longrightarrow> frame_wf f"
  by (auto simp: read_frame_def try_res_Inr Let_def split: if_splits dest: decode_frame_wf)

text \<open>Every session was registered under a key that was proved, from a well-formed address.\<close>

definition people_ok :: "bytes option \<Rightarrow> NodeKey set \<Rightarrow> 'ch Relay \<Rightarrow> bool" where
  "people_ok mkey P s \<longleftrightarrow>
     (\<forall>i k a m. proj who s i = Some (k, a, m) \<longrightarrow>
        k \<in> P \<and> nodekey_ok k \<and> address_ok a \<and> (m \<longrightarrow> mkey \<noteq> None))"

definition people_inv :: "bytes option \<Rightarrow> 'ch server_state \<Rightarrow> bool" where
  "people_inv mkey S \<longleftrightarrow> mesh_key (sys_relay S) = mkey \<and> people_ok mkey (proved S) (sys_relay S)"

lemma people_handle:
  assumes "people_ok mkey P s" "heap s i = Some h"
  shows "sh_key h \<in> P" "nodekey_ok (sh_key h)" "address_ok (endpoint h)" "can_mesh h \<Longrightarrow> mkey \<noteq> None"
proof -
  have "proj who s i = Some (sh_key h, endpoint h, can_mesh h)" using assms(2) by (simp add: proj_def who_def)
  with assms(1) show "sh_key h \<in> P" "nodekey_ok (sh_key h)" "address_ok (endpoint h)" "can_mesh h \<Longrightarrow> mkey \<noteq> None"
    unfolding people_ok_def by blast+
qed

lemma accept_who:
  assumes "relay_inv s" "ids_left s"
    and "accept_client B J H post C K late now srv remote nideal input w s = (t, Inr (i, key, rest, w'))"
  shows "\<exists>m. proj who t = (proj who s)(i \<mapsto> (key, remote, m)) \<and> nodekey_ok key \<and> (m \<longrightarrow> mesh_key s \<noteq> None)"
proof -
  from assms(3) obtain f info where a: "read_frame input CLIENT_INFO_LIMIT = Inr (f, rest)"
    "client_identity B J (srv_key srv) f = Inr (key, info)"
    "register C now key remote (is_mesh_key (ci_mesh_key info) s) (ci_can_ack_pings info)
       (ci_is_prober info) nideal s = (i, t)" by (rule accept_Inr)
  from a(2) obtain sealed where "f = ClientInfoF key sealed"
    by (auto simp: client_identity_def split: Frame.splits sum.splits if_splits option.splits)
  with read_frame_wf [OF a(1)] have "nodekey_ok key" by simp
  with who_register [OF assms(1,2) a(3)] show ?thesis by (auto simp: is_mesh_key_def split: option.splits)
qed

lemma server_who:
  assumes inv: "tasks_inv C S" and step: "server_step B J H post C K srv S T"
  shows "(proj who (sys_relay T) = proj who (sys_relay S) \<and> proved T = proved S) \<or>
    (\<exists>i k a m. proj who (sys_relay T) = (proj who (sys_relay S))(i \<mapsto> (k, a, m)) \<and> proved T = insert k (proved S) \<and>
       nodekey_ok k \<and> address_ok a \<and> (m \<longrightarrow> mesh_key (sys_relay S) \<noteq> None))"
proof -
  have ri: "relay_inv (sys_relay S)" using inv reachable_relay_inv by (auto simp: tasks_inv_def)
  have ends: "proj who (end_session C i s) = proj who s" if "relay_inv s" "i \<in> live_set s" for i s
    using who_unregister [OF that] by (simp add: end_session_def)
  from step show ?thesis
  proof cases
    case (refuse late now remote nideal input w t e)
    with accept_Inl [OF refuse(2)] show ?thesis by auto
  next
    case (accept late now remote nideal input w t i key rest w')
    from accept_who [OF ri accept(3,2)] obtain m where
      "proj who t = (proj who (sys_relay S))(i \<mapsto> (key, remote, m))" "nodekey_ok key" "m \<longrightarrow> mesh_key (sys_relay S) \<noteq> None" by blast
    with accept(4) show ?thesis
      by (intro disjI2 exI [of _ i] exI [of _ key] exI [of _ remote] exI [of _ m]) (simp add: accept(1))
  next
    case (read i input tb h f rest ts tb' t u)
    show ?thesis using who_turn [OF read(5)] by (simp add: read(1))
  next
    case (fail i input tb h f rest ts tb' t e)
    note h = served_handle [OF inv fail(2,3)]
    have "sh_id h \<in> live_set (sys_relay S)" using h by simp
    note tu = turn_step [OF h(3) this fail(5)]
    have "relay_inv t" "i \<in> live_set t" using relay.steps_inv [of C] tu h by auto
    from ends [OF this] who_turn [OF fail(5)] show ?thesis by (intro disjI1) (auto simp: fail(1))
  next
    case (leave i input tb)
    then have "i \<in> live_set (sys_relay S)" using inv by (auto simp: tasks_inv_def)
    from ends [OF ri this] show ?thesis by (intro disjI1) (auto simp: leave(1))
  qed (auto simp: proj_only_queues [OF only_queues_restart])
qed

lemma people_inv_step:
  assumes "tasks_inv C S" "people_inv mkey S" "server_step B J H post C K srv S T"
  shows "people_inv mkey T"
proof -
  have "relay_inv (sys_relay S)" using assms(1) reachable_relay_inv by (auto simp: tasks_inv_def)
  with server_step_relay [OF assms(1,3)] have mk: "mesh_key (sys_relay T) = mesh_key (sys_relay S)"
    using mesh_key_steps by blast
  from server_who [OF assms(1,3)] assms(2) mk show ?thesis
    unfolding people_inv_def people_ok_def by (elim disjE exE conjE) (auto split: if_splits)
qed

lemma people_inv_init: "server_init cfg mkey S \<Longrightarrow> people_inv mkey S"
  by (auto simp: server_init_def people_inv_def people_ok_def server_relay_def Relay_new_def proj_def)

interpretation people: relative_invariant "server_init cfg mkey" "server_step B J H post C K srv" "tasks_inv C" "people_inv mkey"
  for cfg mkey B J H post C K srv
  by unfold_locales (auto intro: people_inv_init people_inv_step)

end
