(* ===== verification/Derp_Queues.thy ===== *)
theory Derp_Queues
  imports Derp_System
begin

text \<open>
  What waits in the queues of the running server: every frame is one that its receiver reads, whatever
  clients and mesh peers sent, and without a mesh key every packet is in the name of a key that was proved.
\<close>

subsection \<open>Properties of all queued frames\<close>

definition all_queued :: "(Frame \<Rightarrow> bool) \<Rightarrow> mailboxes \<Rightarrow> bool" where
  "all_queued Q M \<longleftrightarrow> (\<forall>c. \<forall>f\<in>set (fst (M c)). Q f)"

lemma queued_sub:
  "all_queued Q M \<Longrightarrow> (\<And>c. set (fst (N c)) \<subseteq> set (fst (M c))) \<Longrightarrow> (\<And>f. Q f \<Longrightarrow> R f) \<Longrightarrow> all_queued R N"
  unfolding all_queued_def by blast

lemma queued_put [intro]: "all_queued Q M \<Longrightarrow> Q f \<Longrightarrow> all_queued Q (put c f M)"
  unfolding all_queued_def put_def by (auto split: prod.split nat.split) (metis fst_conv)

lemma queued_puts [intro]:
  "all_queued Q M \<Longrightarrow> (\<And>x. x \<in> set xs \<Longrightarrow> Q (f x)) \<Longrightarrow> all_queued Q (fold (\<lambda>x. put (c x) (f x)) xs M)"
  by (induction xs arbitrary: M) (simp_all add: queued_put)

lemma queued_send:
  assumes "mpsc_ok C pend room" "all_queued Q (boxes pend room s)" "Q f"
  shows "all_queued Q (boxes pend room (fst (send C i f s)))"
proof (cases "heap s i")
  case (Some h)
  with assms show ?thesis by (simp add: send_boxes(1) queued_put)
qed (use assms in \<open>simp add: send_def\<close>)

lemma queued_register:
  assumes "mpsc_ok C pend room" "relay_inv s" "ids_left s" "0 < queue_depth s" "all_queued Q (boxes pend room s)"
    and "Q (Health DUPLICATE_HEALTH)" "\<And>fl. Q (PeerPresent key (Some ep) (Some fl) [])"
  shows "all_queued Q (boxes pend room (snd (register C now key ep mesh ack prober nideal s)))"
proof -
  have "all_queued Q ((boxes pend room s)(c := ([], n)))" for c n by (rule queued_sub [OF assms(5)]) auto
  with assms(6,7) show ?thesis by (simp add: register_boxes [OF assms(1-4) refl] queued_puts)
qed

lemma queued_unregister:
  assumes ok: "mpsc_ok C pend room" and inv: "relay_inv s" and i: "i \<in> live_set s" "heap s i = Some h"
    and a: "all_queued Q (boxes pend room s)" and Q: "Q (PeerGone (sh_key h) DISCONNECTED)" "Q (Health [])"
  shows "all_queued Q (boxes pend room (unregister C i s))"
proof -
  have "peers_inv s" using inv by (simp add: relay_inv_def)
  from live_handle [OF this i(1)] i(2) obtain ps where h:
    "map_of (peers s) (sh_key h) = Some ps" "i \<in> set (sessions ps)" "pset_ok s (sh_key h) ps" by (metis option.inject)
  show ?thesis
  proof (cases "filter (\<lambda>j. j \<noteq> i) (sessions ps) = []")
    case True
    with h(2,3) have "sessions ps = [i]" by (intro filter_remove_last) (simp_all add: pset_ok_def)
    then show ?thesis using a Q by (simp add: unregister_boxes_gone [OF ok inv i(2) h(1)] queued_puts)
  next
    case False
    then show ?thesis using a Q by (simp add: unregister_boxes_stay [OF ok inv i(2) h(1) refl] queued_put)
  qed
qed

lemma queued_hang_up:
  "mpsc_ok C pend room \<Longrightarrow> all_queued Q (boxes pend room s) \<Longrightarrow> all_queued Q (boxes pend room (hang_up C c s))"
  by (erule queued_sub) (auto simp: boxes_def hang_up_def mpsc_ok_def split: option.splits)

lemma queued_recv:
  assumes "mpsc_ok C pend room" "(\<lambda>q q'. \<exists>f. try_recv C q = Some (f, q'))\<^sup>*\<^sup>* q q'" "chans s c = Some q"
    and "all_queued Q (boxes pend room s)"
  shows "all_queued Q (boxes pend room (s\<lparr>chans := (chans s)(c \<mapsto> q')\<rparr>))"
proof -
  have "set (pend q') \<subseteq> set (pend q)" using assms(2)
  proof (induction rule: rtranclp_induct)
    case (step q1 q2)
    then obtain f where "try_recv C q1 = Some (f, q2)" by blast
    moreover have "case try_recv C q1 of None \<Rightarrow> pend q1 = [] | Some (f, q') \<Rightarrow> pend q1 = f # pend q' \<and> room q' = Suc (room q1)"
      using assms(1) unfolding mpsc_ok_def by blast
    ultimately have "pend q1 = f # pend q2" by simp
    with step.IH show ?case by auto
  qed simp
  with assms(3) show ?thesis by (intro queued_sub [OF assms(4)]) (auto simp: boxes_def)
qed

lemma queued_mesh_dispatch:
  assumes "mpsc_ok C pend room" "all_queued Q (boxes pend room s)" "\<And>v. f = Ping v \<Longrightarrow> Q (Pong v)"
  shows "all_queued Q (boxes pend room (mesh_dispatch C m f s))"
  using assms by (cases f) (simp_all add: mesh_dispatch_def occ_quiet chan_send_boxes queued_put)

lemma queued_restart:
  assumes ok: "mpsc_ok C pend room" and a: "all_queued Q (boxes pend room s)" "Q (Restarting x y)"
  shows "all_queued Q (boxes pend room (broadcast_restart C x y s))"
proof -
  have f: "all_queued Q (boxes pend room (fold g xs s))"
    if "\<And>x s. all_queued Q (boxes pend room s) \<Longrightarrow> all_queued Q (boxes pend room (g x s))" "all_queued Q (boxes pend room s)"
    for g :: "'x \<Rightarrow> 'a Relay \<Rightarrow> 'a Relay" and xs s
    using that(2) by (induction xs arbitrary: s) (simp_all add: that(1))
  show ?thesis unfolding broadcast_restart_def
    by (rule f [OF _ a(1)]) (auto intro!: f queued_send [OF ok] a(2))
qed

lemma queued_route:
  assumes "mpsc_ok C pend room" "relay_inv s" "heap s i = Some h" "all_queued Q (boxes pend room s)"
    and "Q (RecvPacket src packet)" "Q (ForwardPacket src dst packet)" "Q (PeerGone dst NOT_HERE)"
  shows "all_queued Q (boxes pend room (route C now i src dst packet fwd s))"
  using assms(4-) by (auto simp: route_boxes_live [OF assms(1-3)] split: option.split)

subsection \<open>Good frames\<close>

fun packet_src :: "Frame \<Rightarrow> NodeKey option" where
  "packet_src (RecvPacket src _) = Some src"
| "packet_src (ForwardPacket src _ _) = Some src"
| "packet_src _ = None"

text \<open>
  A frame that every reader takes, and which, without a mesh key, carries a packet only in the name of one
  of the given keys.
\<close>

definition good_frame :: "bytes option \<Rightarrow> NodeKey set \<Rightarrow> Frame \<Rightarrow> bool" where
  "good_frame mkey P f \<longleftrightarrow> sendable MESH_READ_LIMIT f \<and> (mkey = None \<longrightarrow> (\<forall>k. packet_src f = Some k \<longrightarrow> k \<in> P))"

lemma good_control [simp]:
  "good_frame mkey P (Health [])" "good_frame mkey P (Health DUPLICATE_HEALTH)" "good_frame mkey P (Restarting a b)"
  "length v = 8 \<Longrightarrow> good_frame mkey P (Pong v)" "nodekey_ok k \<Longrightarrow> good_frame mkey P (PeerGone k r)"
  by (simp_all add: good_frame_def sendable_def encode_eq MESH_READ_LIMIT_def DUPLICATE_HEALTH_def)

lemma good_present: "nodekey_ok k \<Longrightarrow> address_ok a \<Longrightarrow> good_frame mkey P (PeerPresent k (Some a) (Some fl) [])"
  by (cases "ip a") (auto simp: good_frame_def sendable_def encode_eq payload_of_present address_ok_def to_ipv6_mapped_def MESH_READ_LIMIT_def)

lemma good_packets:
  assumes "nodekey_ok src" "length packet \<le> MAX_PACKET_SIZE" "mkey = None \<Longrightarrow> src \<in> P"
  shows "good_frame mkey P (RecvPacket src packet)"
    and "nodekey_ok dst \<Longrightarrow> good_frame mkey P (ForwardPacket src dst packet)"
  using assms
  by (simp_all add: good_frame_def sendable_def encode_eq payload_of_packets MESH_READ_LIMIT_def MAX_PACKET_SIZE_def FRAME_HEADER_LEN_def)

lemma good_mono: "good_frame mkey P f \<Longrightarrow> P \<subseteq> P' \<Longrightarrow> good_frame mkey P' f"
  by (auto simp: good_frame_def)

text \<open>What the decoder guarantees of the packets and pings that are answered or passed on.\<close>

lemma read_packet_size:
  "read_frame r m = Inr (SendPacket k p, rest) \<Longrightarrow> length p \<le> MAX_PACKET_SIZE"
  "read_frame r m = Inr (ForwardPacket k k' p, rest) \<Longrightarrow> length p \<le> MAX_PACKET_SIZE"
proof -
  have d: "decode k b = Inr f \<Longrightarrow> length (case f of SendPacket _ p \<Rightarrow> p | ForwardPacket _ _ p \<Rightarrow> p | _ \<Rightarrow> []) \<le> MAX_PACKET_SIZE" for k b f
    using decode_encodable [of k b f] by (cases f) (auto simp: payload_of_packets split: if_splits)
  show "read_frame r m = Inr (SendPacket k p, rest) \<Longrightarrow> length p \<le> MAX_PACKET_SIZE"
    "read_frame r m = Inr (ForwardPacket k k' p, rest) \<Longrightarrow> length p \<le> MAX_PACKET_SIZE"
    by (auto simp: read_frame_def try_res_Inr Let_def split: if_splits dest!: d)
qed

lemma good_present_frame:
  assumes "relay_inv s" "people_ok mkey P s" "kp \<in> set (peers s)"
  shows "good_frame mkey P (present_frame s kp)"
proof -
  obtain k ps where k: "kp = (k, ps)" by (cases kp)
  have pi: "peers_inv s" "index_inv s" using assms(1) by (simp_all add: relay_inv_def)
  then have lk: "map_of (peers s) k = Some ps" using assms(3) k by (simp add: peers_inv_def)
  with pi have "pset_ok s k ps" by (simp add: peers_inv_def)
  then have "PeerSet_active ps \<noteq> None" by (auto simp: pset_ok_def PeerSet_active_def split: option.split)
  then obtain d where "PeerSet_active ps = Some d" by blast
  with pi lk have d: "active_ix s k = Some d" by (simp add: index_inv_def)
  from active_registered [OF assms(1) d] obtain hd where "heap s d = Some hd" "sh_key hd = k" by metis
  with people_handle [OF assms(2)] d show ?thesis by (auto simp: k present_frame_def Let_def intro!: good_present)
qed

lemma good_watch:
  assumes "mpsc_ok C pend room" "relay_inv s" "people_ok mkey P s" "all_queued (good_frame mkey P) (boxes pend room s)"
  shows "all_queued (good_frame mkey P) (boxes pend room (fst (watch C i s)))"
proof (cases "heap s i")
  case (Some h)
  show ?thesis
  proof (cases "can_mesh h")
    case True
    show ?thesis
      unfolding watch_boxes [OF assms(1,2) Some True] fold_map comp_def by (intro queued_puts assms(4) good_present_frame [OF assms(2,3)])
  qed (simp add: watch_refused [OF Some] assms(4))
qed (simp add: watch_def assms(4))

lemma good_dispatch:
  assumes ok: "mpsc_ok C pend room" and inv: "relay_inv s" "people_ok mkey P s" "all_queued (good_frame mkey P) (boxes pend room s)"
    and h: "sh_id h \<in> live_set s" "sh_key h \<in> P" "nodekey_ok (sh_key h)" "can_mesh h \<Longrightarrow> mkey \<noteq> None"
    and f: "read_frame input READ_LIMIT = Inr (f, rest)"
  shows "all_queued (good_frame mkey P) (boxes pend room (fst (dispatch C now h f s)))"
proof -
  obtain hi where hi: "heap s (sh_id h) = Some hi" using live_handle [OF _ h(1)] inv(1) by (auto simp: relay_inv_def)
  have wf: "frame_wf f" by (rule read_frame_wf [OF f])
  have close: "boxes pend room (fst (close_peer i k s)) = boxes pend room s" for i k by (simp add: occ_quiet)
  have size: "length (case f of SendPacket _ p \<Rightarrow> p | ForwardPacket _ _ p \<Rightarrow> p | _ \<Rightarrow> []) \<le> MAX_PACKET_SIZE"
    using f read_packet_size by (cases f) simp_all
  show ?thesis
    using wf h inv size
    by (cases f) (auto simp: dispatch_def fst_dispatch_watch close occ_quiet
      intro!: queued_route [OF ok inv(1) hi] queued_send [OF ok] good_watch [OF ok] good_packets)
qed

subsection \<open>The invariant\<close>

definition queues_inv :: "('ch \<Rightarrow> Frame list) \<Rightarrow> ('ch \<Rightarrow> nat) \<Rightarrow> bytes option \<Rightarrow> 'ch server_state \<Rightarrow> bool" where
  "queues_inv pend room mkey S \<longleftrightarrow> all_queued (good_frame mkey (proved S)) (boxes pend room (sys_relay S))"

lemma good_turn:
  assumes ok: "mpsc_ok C pend room" and inv: "tasks_inv C S" "people_inv mkey S" "queues_inv pend room mkey S"
    and i: "serving S i = Some x" "heap (sys_relay S) i = Some h" "reader_turn C ts h f tb (sys_relay S) = (tb', t, r)"
    and f: "read_frame input READ_LIMIT = Inr (f, rest)"
  shows "all_queued (good_frame mkey (proved S)) (boxes pend room t)" "relay_inv t" "i \<in> live_set t"
    "people_ok mkey (proved S) t"
proof -
  note h = served_handle [OF inv(1) i(1,2)]
  let ?s = "sys_relay S" and ?u = "note_activity i (sys_relay S)"
  have live: "sh_id h \<in> live_set ?s" using h by simp
  have po: "people_ok mkey (proved S) ?s" using inv(2) by (simp add: people_inv_def)
  obtain now wake later where ts: "ts = (now, wake, later)" by (cases ts)
  have t: "t = fst (dispatch C later h f ?u)"
    using i(3) h(2) by (auto simp: reader_turn_def Let_def ts split: prod.splits)
  have u: "relay_inv ?u" "sh_id h \<in> live_set ?u" "people_ok mkey (proved S) ?u"
    "all_queued (good_frame mkey (proved S)) (boxes pend room ?u)"
    using h live po inv(3) by (simp_all add: note_activity_inv live_note_activity people_ok_def queues_inv_def occ_quiet)
  show "all_queued (good_frame mkey (proved S)) (boxes pend room t)"
    unfolding t by (rule good_dispatch [OF ok u(1,3,4,2) people_handle(1,2,4) [OF po i(2)] f])
  from turn_step [OF h(3) live i(3)] relay.steps_inv [of C] h show "relay_inv t" "i \<in> live_set t" by auto
  show "people_ok mkey (proved S) t" using po who_turn [OF i(3)] by (simp add: people_ok_def)
qed

lemma good_end:
  assumes ok: "mpsc_ok C pend room" and "relay_inv s" "i \<in> live_set s" "people_ok mkey P s"
    and "all_queued (good_frame mkey P) (boxes pend room s)"
  shows "all_queued (good_frame mkey P) (boxes pend room (end_session C i s))"
proof -
  obtain h where h: "heap s i = Some h" using live_tx [OF assms(2,3)] by blast
  from people_handle(2) [OF assms(4) h] show ?thesis
    unfolding end_session_def
    by (intro queued_hang_up [OF ok] queued_unregister [OF ok assms(2,3) h assms(5)]) simp_all
qed

lemma queues_inv_step:
  assumes ok: "mpsc_ok C pend room" and inv: "tasks_inv C S" "people_inv mkey S" "queues_inv pend room mkey S"
    and step: "server_step B J H post C K srv S T"
  shows "queues_inv pend room mkey T"
proof -
  have ri: "relay_inv (sys_relay S)" "0 < queue_depth (sys_relay S)"
    using inv(1) reachable_relay_inv [of C "sys_relay S"] reachable_side_inv [of C "sys_relay S"]
    by (auto simp: tasks_inv_def side_inv_def)
  have a: "all_queued (good_frame mkey (proved S)) (boxes pend room (sys_relay S))" using inv(3) by (simp add: queues_inv_def)
  from step show ?thesis
  proof cases
    case (refuse late now remote nideal input w t e)
    from accept_Inl [OF refuse(2)] a show ?thesis by (auto simp: queues_inv_def refuse(1))
  next
    case (accept late now remote nideal input w t i key rest w')
    from accept_registers [OF accept(2)] obtain mesh ack prober where
      r: "register C now key remote mesh ack prober nideal (sys_relay S) = (i, t)" by blast
    then have t: "t = snd (register C now key remote mesh ack prober nideal (sys_relay S))" by simp
    have "nodekey_ok key" using accept_who [OF ri(1) accept(3,2)] by blast
    moreover have "all_queued (good_frame mkey (insert key (proved S))) (boxes pend room (sys_relay S))"
      by (rule queued_sub [OF a]) (auto intro: good_mono)
    ultimately show ?thesis
      using queued_register [OF ok ri(1) accept(3) ri(2)] accept(4) by (simp add: queues_inv_def accept(1) t good_present)
  next
    case (read i input tb h f rest ts tb' t u)
    from good_turn(1) [OF ok inv read(2,3,5,4)] show ?thesis by (simp add: queues_inv_def read(1))
  next
    case (fail i input tb h f rest ts tb' t e)
    note tu = good_turn [OF ok inv fail(2,3,5,4)]
    from good_end [OF ok tu(2,3,4,1)] show ?thesis by (simp add: queues_inv_def fail(1))
  next
    case (leave i input tb)
    then have "i \<in> live_set (sys_relay S)" using inv(1) by (auto simp: tasks_inv_def)
    from good_end [OF ok ri(1) this _ a] inv(2) show ?thesis by (simp add: queues_inv_def leave(1) people_inv_def)
  next
    case (drop i input tb)
    from queued_hang_up [OF ok a] show ?thesis by (simp add: queues_inv_def drop(1))
  next
    case (send i input tb h q t w q' w' r)
    from queued_recv [OF ok writer_turn_recv [OF send(5)] send(4) a] show ?thesis by (simp add: queues_inv_def send(1))
  next
    case (mesh_up m)
    have "pend (channel C (max (cfg_queue_depth (config srv)) 64)) = []" using ok by (simp add: mpsc_ok_def)
    then show ?thesis unfolding queues_inv_def mesh_up(1) by (intro queued_sub [OF a]) (auto simp: boxes_def)
  next
    case (mesh_frame m input f rest)
    have "good_frame mkey (proved S) (Pong v)" if "f = Ping v" for v using read_frame_wf [OF mesh_frame(3)] that by simp
    from queued_mesh_dispatch [OF ok a this] show ?thesis by (simp add: queues_inv_def mesh_frame(1))
  next
    case (mesh_send m q f q')
    have "(\<lambda>q q'. \<exists>f. try_recv C q = Some (f, q'))\<^sup>*\<^sup>* q q'" using mesh_send(4) by blast
    from queued_recv [OF ok this mesh_send(3) a] show ?thesis by (simp add: queues_inv_def mesh_send(1))
  next
    case (mesh_down m)
    from queued_hang_up [OF ok, of _ "remove_mesh m (sys_relay S)"] a show ?thesis
      by (simp add: queues_inv_def mesh_down(1) occ_quiet)
  next
    case restart
    from queued_restart [OF ok a] show ?thesis by (simp add: queues_inv_def restart)
  next
    case (count m)
    from a show ?thesis by (simp add: queues_inv_def count(1))
  qed
qed

lemma queues_inv_init: "server_init cfg mkey S \<Longrightarrow> queues_inv pend room mkey S"
  by (auto simp: server_init_def queues_inv_def server_relay_def Relay_new_def all_queued_def boxes_def)

lemma queues_inv_reach:
  assumes "mpsc_ok C pend room" "reach (server_init cfg mkey) (server_step B J H post C K srv) S"
  shows "queues_inv pend room mkey S"
  using assms(2)
proof (induction rule: reach.induct)
  case (more S T)
  from tasks.reach_inv [OF more.hyps(1)] people.reach_rel [OF more.hyps(1)] more.IH more.hyps(2) show ?case
    by (rule queues_inv_step [OF assms(1)])
qed (rule queues_inv_init)

end
