(* ===== verification/Derp_Session_Props.thy ===== *)
theory Derp_Session_Props
  imports Derp_Writer Derp_Relay_Props
begin

text \<open>
  The properties of a client's session, with a reference instance of the JSON library and a sink that
  collects the bytes written.
\<close>

subsection \<open>Reference instances\<close>

definition demo_config :: Config where
  "demo_config = \<lparr>addr = ep_of 3340, stun_addr = ''off'', private_key = ''derper.key'', tls_cert = None,
     tls_key = None, mesh_psk_file = None, mesh_with = [], verify_client_url = None,
     verify_client_fail_open = True, cfg_queue_depth = 64, rate_limit = 0, rate_burst = 1048576,
     write_timeout = 2000, bootstrap_dns_file = None, shutdown_grace = 5000\<rparr>"

definition plain_info :: ClientInfo where
  "plain_info = \<lparr>ci_mesh_key = None, ci_version = 2, ci_can_ack_pings = True, ci_is_prober = False\<rparr>"

definition mesh_info :: ClientInfo where
  "mesh_info = \<lparr>ci_mesh_key = Some (replicate 32 7), ci_version = 2, ci_can_ack_pings = True, ci_is_prober = False\<rparr>"

text \<open>A library that knows two client payloads and one server payload.\<close>

definition json_ref :: json_lib where
  "json_ref = \<lparr>ci_from = (\<lambda>bs. if bs = [0] then Some plain_info else if bs = [1] then Some mesh_info else None),
     ci_to = (\<lambda>ci. if ci = plain_info then Some [0] else if ci = mesh_info then Some [1] else None),
     si_from = (\<lambda>bs. Some (server_info demo_config)),
     si_to = (\<lambda>si. if si = server_info demo_config then Some [2] else None)\<rparr>"

lemma json_ref_ok: "json_lib_ok json_ref"
  by (auto simp: json_lib_ok_def json_ref_def)

definition byte_sink :: "bytes sink" where
  "byte_sink = \<lparr>write_all = (\<lambda>w bs. Inr (w @ bs)), flush = Inr\<rparr>"

definition demo_server :: DerpServer where
  "demo_server = \<lparr>config = demo_config, srv_key = generate (replicate 32 9)\<rparr>"

text \<open>The first frame of a client with key \<open>k\<close> that seals the payload \<open>[0]\<close>, and how it is read.\<close>

definition hello :: "NodeKey \<Rightarrow> bytes" where
  "hello k = (let sealed = replicate 24 3 @ [0] in frame_bytes (ClientInfoF k sealed) (as_bytes k @ sealed))"

lemma hello_read:
  assumes "nodekey_ok k"
  shows "read_frame (hello k @ rest, e) CLIENT_INFO_LIMIT = Inr (ClientInfoF k (replicate 24 3 @ [0]), (rest, e))"
    "client_identity open_box json_ref kp (ClientInfoF k (replicate 24 3 @ [0])) = Inr (k, plain_info)"
proof -
  let ?f = "ClientInfoF k (replicate 24 3 @ [0])"
  have "length (as_bytes k) = 32" using assms by simp
  moreover have "decode (kind ?f) (as_bytes k @ replicate 24 3 @ [0]) = Inr (wire_normal ?f)"
    using assms by (intro decode_payload) simp_all
  ultimately show "read_frame (hello k @ rest, e) CLIENT_INFO_LIMIT = Inr (ClientInfoF k (replicate 24 3 @ [0]), (rest, e))"
    by (simp add: hello_def Let_def read_frame_bytes CLIENT_INFO_LIMIT_def del: kind.simps)
  show "client_identity open_box json_ref kp (ClientInfoF k (replicate 24 3 @ [0])) = Inr (k, plain_info)"
    by (simp add: client_identity_def open_from_def open_box_def json_ref_def)
qed

text \<open>What makes the handshake succeed.\<close>

lemma accept_ok:
  assumes "public B (srv_key srv) = Some pk" "\<And>x. \<not> late x" "encode (ServerKey pk) = Inr raw"
    and "write_all K w raw = Inr w1" "flush K w1 = Inr w2" "read_frame input CLIENT_INFO_LIMIT = Inr (f, rest)"
    and "client_identity B J (srv_key srv) f = Inr (key, info)"
    and "is_mesh_key (ci_mesh_key info) s \<or> admit H post (config srv) key (ip remote) s = (s, Inr ())"
    and "register C now key remote (is_mesh_key (ci_mesh_key info) s) (ci_can_ack_pings info)
       (ci_is_prober info) nideal s = (sid, t)"
  shows "accept_client B J H post C K late now srv remote nideal input w s = (t, Inr (sid, key, rest, w2))"
  using assms by (auto simp: accept_client_def write_frame_def Let_def)

lemma encode_server_key: "length (as_bytes k) = 32 \<Longrightarrow> encode (ServerKey k) = Inr (frame_bytes (ServerKey k) (MAGIC @ as_bytes k))"
  by (simp add: encode_eq)

lemma demo_server_key: "\<exists>pk. public open_box (srv_key demo_server) = Some pk \<and> length (as_bytes pk) = 32"
proof -
  have "1 # xs \<noteq> replicate 32 (0 :: byte)" for xs by (simp add: numeral_eq_Suc)
  then show ?thesis by (simp add: public_def open_box_def demo_server_def generate_def NodeKey_new_def)
qed

lemma hello_accepted:
  assumes "nodekey_ok k"
  shows "\<exists>t sid w'. accept_client open_box json_ref hex_ref post C byte_sink (\<lambda>_. False) now demo_server remote nideal
    (hello k @ rest, e) [] s = (t, Inr (sid, k, (rest, e), w')) \<and> register C now k remote False True False nideal s = (sid, t)"
proof -
  obtain pk where pk: "public open_box (srv_key demo_server) = Some pk" "length (as_bytes pk) = 32"
    using demo_server_key by blast
  note rd = hello_read(1) [OF assms, of rest e] hello_read(2) [OF assms, of "srv_key demo_server"]
  have ad: "admit hex_ref post (config demo_server) k (ip remote) s = (s, Inr ())"
    by (simp add: admit_def demo_server_def demo_config_def)
  have wr: "write_all byte_sink [] b = Inr b" "flush byte_sink b = Inr b" for b by (simp_all add: byte_sink_def)
  obtain sid t where r: "register C now k remote (is_mesh_key (ci_mesh_key plain_info) s)
      (ci_can_ack_pings plain_info) (ci_is_prober plain_info) nideal s = (sid, t)" by fastforce
  then have "accept_client open_box json_ref hex_ref post C byte_sink (\<lambda>_. False) now demo_server remote nideal
      (hello k @ rest, e) [] s = (t, Inr (sid, k, (rest, e), frame_bytes (ServerKey pk) (MAGIC @ as_bytes pk)))"
    by (intro accept_ok [OF pk(1) _ encode_server_key [OF pk(2)] wr rd disjI2 [OF ad]]) simp
  moreover have "register C now k remote False True False nideal s = (sid, t)"
    using r by (simp add: plain_info_def is_mesh_key_def split: option.splits)
  ultimately show ?thesis by blast
qed

text \<open>The server's answer, and the session that waits for its first turn.\<close>

lemma demo_answer: "\<exists>v. send_info open_box json_ref byte_sink (replicate 24 4) demo_server k w = Inr v"
  by (simp add: send_info_def json_ref_def demo_server_def seal_to_def open_box_def write_frame_def encode_eq byte_sink_def)

lemma hello_served:
  assumes "nodekey_ok k" "relay_inv s" "ids_left s"
  shows "\<exists>u sid h v. serve_stream open_box json_ref hex_ref post C byte_sink (\<lambda>_. False) (replicate 24 4) acts now demo_server remote nideal
      (hello k @ rest, e) [] s =
    (case session_body C byte_sink demo_server acts now h (rest, e) v u of
       (s, None) \<Rightarrow> (s, StillRunning sid)
     | (s, Some r) \<Rightarrow> (hang_up C (SessionChan sid) (unregister C sid s), SessionEnded (session_result r)))"
proof -
  from hello_accepted [OF assms(1)] obtain u sid w' where
    a: "accept_client open_box json_ref hex_ref post C byte_sink (\<lambda>_. False) now demo_server remote nideal
      (hello k @ rest, e) [] s = (u, Inr (sid, k, (rest, e), w'))" "register C now k remote False True False nideal s = (sid, u)" by blast
  from registered_session(5) [OF assms(2,3) a(2)] obtain h where h: "heap u sid = Some h" by blast
  from demo_answer obtain v where "send_info open_box json_ref byte_sink (replicate 24 4) demo_server k w' = Inr v" by blast
  then have "serve_stream open_box json_ref hex_ref post C byte_sink (\<lambda>_. False) (replicate 24 4) acts now demo_server remote nideal
      (hello k @ rest, e) [] s =
    (case session_body C byte_sink demo_server acts now h (rest, e) v u of
       (s, None) \<Rightarrow> (s, StillRunning sid)
     | (s, Some r) \<Rightarrow> (hang_up C (SessionChan sid) (unregister C sid s), SessionEnded (session_result r)))"
    by (simp add: serve_stream_def a(1) h Let_def split: prod.split option.split)
  then show ?thesis by blast
qed

subsection \<open>The session as a whole\<close>

text \<open>
  However a session ends (refused, failed while answering, by the client, by the writer, or by an
  error), the relay is in a reachable state with exactly the sessions it had before: a session never
  leaks, and all the invariants of the relay hold.
\<close>

theorem session_leaves_nothing:
  assumes "reachable C s" "ids_left s"
    and "serve_stream B J H post C K late nonce acts now srv remote nideal input w s = (t, SessionEnded r)"
  shows "reachable C t \<and> live_set t = live_set s \<and> current_clients (metrics t) = current_clients (metrics s)"
proof -
  have r: "reachable C t" "live_set t = live_set s" using serve_reach [OF assms] by (simp_all add: after_session_def)
  have "relay_inv s" "relay_inv t" using assms(1) r reachable_relay_inv by blast+
  then have "current_clients (metrics t) = of_nat (card (live_set t))" "current_clients (metrics s) = of_nat (card (live_set s))"
    by (simp_all add: relay_inv_def gauge_inv_def client_count_card)
  with r show ?thesis by simp
qed

theorem session_leaves_nothing_witness:
  "\<exists>t r. serve_stream open_box json_ref hex_ref (\<lambda>_ _. NoResponse) fifo byte_sink (\<lambda>_. False)
     (replicate 24 4) [Reads (0, 0, 0)] 0 demo_server (ep_of 7) False
     (hello (key_of 5), UnexpectedEof) [] demo = (t, SessionEnded r) \<and> live_set t = live_set demo"
proof -
  let ?run = "serve_stream open_box json_ref hex_ref (\<lambda>_ _. NoResponse) fifo byte_sink (\<lambda>_. False)
     (replicate 24 4) [Reads (0, 0, 0)] 0 demo_server (ep_of 7) False
     (hello (key_of 5), UnexpectedEof) [] demo"
  have k: "nodekey_ok (key_of 5)" by (simp add: key_of_def nodekey_ok_def)
  have left: "ids_left demo" by code_simp
  have "read_frame ([], UnexpectedEof) READ_LIMIT = Inl (Io UnexpectedEof)" by (simp add: read_frame_def read_exact_def)
  then obtain t r where t: "?run = (t, SessionEnded r)"
    using hello_served [OF k reachable_relay_inv [OF demo_reachable] left, where acts = "[Reads (0, 0, 0)]" and rest = "[]" and e = UnexpectedEof
        and post = "\<lambda>_ _. NoResponse" and C = fifo and now = 0 and remote = "ep_of 7" and nideal = False]
    by (auto simp: session_body_def)
  from session_leaves_nothing [OF demo_reachable left t] t show ?thesis by simp
qed

text \<open>
  C8: A client without mesh permission speaks only for itself: whatever bytes it sends, every packet
  that its session puts into any queue, of a client or of a mesh connection, carries its own key as
  the source; it never becomes a watcher and never closes a session.
\<close>

theorem no_spoofing:
  assumes "mpsc_ok C pend room" "reachable C s" "heap s i = Some h" "i \<in> live_set s" "\<not> can_mesh h"
    and "t = fst (reader C clk h n input tb s)"
  shows "(\<forall>c. \<exists>new. fst (boxes pend room t c) = fst (boxes pend room s c) @ new \<and>
      (\<forall>f\<in>set new. speaks_for (sh_key h) f)) \<and>
    watchers t = watchers s \<and> (\<forall>j. map_option sh_closed (heap t j) = map_option sh_closed (heap s j))"
proof -
  have inv: "relay_inv s" using assms(2) by (rule reachable_relay_inv)
  from live_tx [OF inv assms(4)] assms(3) have "sh_id h = i" by auto
  with assms(4) have "sh_id h \<in> live_set s" by simp
  from reader_plain [OF assms(1,5) inv this, of clk n input tb] show ?thesis
    by (simp add: plain_effect_def grows_by_def proj_def fun_eq_iff assms(6))
qed

theorem no_spoofing_witness:
  "\<exists>new. fst (boxes fst snd (fst (reader fifo (\<lambda>_. (0, 0, 0)) (the (heap demo 1)) 5
        (as_u8 T_SendPacket # u32_to_be 33 @ replicate 32 2 @ [42], UnexpectedEof)
        (TokenBucket_new 0 0 0) demo)) (SessionChan 2)) = new \<and>
     (\<forall>f\<in>set new. speaks_for (key_of 1) f)"
proof -
  have d: "map_option (\<lambda>h. (sh_key h, can_mesh h)) (heap demo 1) = Some (key_of 1, False)" by code_simp
  then obtain h where h: "heap demo 1 = Some h" "sh_key h = key_of 1" "\<not> can_mesh h" by auto
  have l: "1 \<in> live_set demo" "fst (boxes fst snd demo (SessionChan 2)) = []" by code_simp+
  from no_spoofing [OF fifo_ok demo_reachable h(1) l(1) h(3) refl, of "\<lambda>_. (0, 0, 0)" 5
      "(as_u8 T_SendPacket # u32_to_be 33 @ replicate 32 2 @ [42], UnexpectedEof)" "TokenBucket_new 0 0 0"]
  show ?thesis using h l(2) by (metis append_Nil option.sel)
qed

text \<open>
  C9: A client is registered only under the key it proved: its first frame was a \<open>ClientInfo\<close> for that
  key whose box opens with it to valid information, it has mesh permission exactly when it presented
  the configured mesh key, and otherwise the admission controller, if there is one, let it in.
\<close>

theorem identity_proved:
  assumes "reachable C s" "ids_left s"
    and "accept_client B J H post C K late now srv remote nideal input w s = (t, Inr (sid, key, rest, w'))"
  shows "\<exists>sealed plaintext info h. read_frame input CLIENT_INFO_LIMIT = Inr (ClientInfoF key sealed, rest) \<and>
    (open_from B (srv_key srv) key sealed :: unit KeyError + bytes) = Inr plaintext \<and> ci_from J plaintext = Some info \<and>
    heap t sid = Some h \<and> sh_key h = key \<and> (can_mesh h \<longleftrightarrow> mesh_key s \<noteq> None \<and> ci_mesh_key info = mesh_key s) \<and>
    (can_mesh h \<or> verify_client_url (config srv) = None \<or>
     (\<exists>url. verify_client_url (config srv) = Some url \<and>
        (case post url \<lparr>node_public = NodeKey_display H key, admit_source = ip remote\<rparr> of
           NoResponse \<Rightarrow> verify_client_fail_open (config srv)
         | Response status body \<Rightarrow> is_success status \<and> body = Some True)))"
proof -
  have inv: "relay_inv s" using assms(1) by (rule reachable_relay_inv)
  from assms(3) obtain f info where a: "read_frame input CLIENT_INFO_LIMIT = Inr (f, rest)"
    "client_identity B J (srv_key srv) f = Inr (key, info)"
    "is_mesh_key (ci_mesh_key info) s \<or> admit H post (config srv) key (ip remote) s = (s, Inr ())"
    "register C now key remote (is_mesh_key (ci_mesh_key info) s) (ci_can_ack_pings info)
       (ci_is_prober info) nideal s = (sid, t)" by (rule accept_Inr)
  from a(2) obtain sealed plaintext where f: "f = ClientInfoF key sealed"
    "(open_from B (srv_key srv) key sealed :: unit KeyError + bytes) = Inr plaintext" "ci_from J plaintext = Some info"
    by (auto simp: client_identity_def split: Frame.splits sum.splits if_splits option.splits)
  from registered_session(5) [OF inv assms(2) a(4)] obtain h where
    h: "heap t sid = Some h" "sh_key h = key" "can_mesh h = is_mesh_key (ci_mesh_key info) s" by blast
  have mesh: "is_mesh_key (ci_mesh_key info) s \<longleftrightarrow> mesh_key s \<noteq> None \<and> ci_mesh_key info = mesh_key s"
    by (auto simp: is_mesh_key_def split: option.splits)
  have "verify_client_url (config srv) = None \<or>
     (\<exists>url. verify_client_url (config srv) = Some url \<and>
        (case post url \<lparr>node_public = NodeKey_display H key, admit_source = ip remote\<rparr> of
           NoResponse \<Rightarrow> verify_client_fail_open (config srv)
         | Response status body \<Rightarrow> is_success status \<and> body = Some True))"
    if "admit H post (config srv) key (ip remote) s = (s, Inr ())"
    using that by (auto simp: admit_def split: option.splits admit_result.splits if_splits)
  with a f h mesh show ?thesis by blast
qed

theorem identity_proved_witness:
  "\<exists>t sid key rest w' h. accept_client open_box json_ref hex_ref (\<lambda>_ _. NoResponse) fifo byte_sink (\<lambda>_. False) 0
      demo_server (ep_of 7) False (hello (key_of 5) @ [], UnexpectedEof) [] demo = (t, Inr (sid, key, rest, w')) \<and>
    heap t sid = Some h \<and> sh_key h = key"
proof -
  have "nodekey_ok (key_of 5)" by (simp add: key_of_def nodekey_ok_def)
  from hello_accepted [OF this] obtain t sid w' where
    t: "accept_client open_box json_ref hex_ref (\<lambda>_ _. NoResponse) fifo byte_sink (\<lambda>_. False) 0
      demo_server (ep_of 7) False (hello (key_of 5) @ [], UnexpectedEof) [] demo =
        (t, Inr (sid, key_of 5, ([], UnexpectedEof), w'))" by metis
  have "ids_left demo" by code_simp
  from identity_proved [OF demo_reachable this t] t show ?thesis by blast
qed

subsection \<open>The reader and the writer\<close>

text \<open>
  C24: Whatever a client sends, its reader ends: a stream of \<open>n\<close> bytes holds at most \<open>n div 5\<close> frames, and
  after as many turns the reader has returned, always with an error (the end of the stream is one).
\<close>

theorem reader_returns:
  "\<exists>t e. \<forall>m. reader C clk h (length (fst input) div 5 + 1 + m) input tb s = (t, Some e)"
proof -
  let ?n = "length (fst input) div 5 + 1"
  have "snd (reader C clk h ?n input tb s) \<noteq> None" by (rule reader_ends) simp
  then obtain t e where "reader C clk h ?n input tb s = (t, Some e)"
    by (cases "reader C clk h ?n input tb s") auto
  from reader_more [OF this] show ?thesis by blast
qed

lemma byte_sink_ok: "sink_ok byte_sink (\<lambda>w. w)"
  by (simp add: sink_ok_def byte_sink_def)

text \<open>
  The writer delivers: on a connection that takes its writes in time, as many turns as there are
  frames in the queue empty it, the bytes written first are read by the client as exactly these frames
  in their order, and the writer does not fail.
\<close>

theorem writer_drains:
  assumes "mpsc_ok C pend room" "sink_ok K sent" "\<forall>f\<in>set (pend q). sendable max_len f"
    and "\<forall>t\<in>set ts. timely t" "length (pend q) \<le> length ts"
  shows "\<exists>raw control q' w' r. writer C K ts h q w = (q', w', r) \<and> r \<noteq> Some (Inl e) \<and> pend q' = [] \<and>
    sent w' = sent w @ raw @ control \<and>
    get_n (\<lambda>r. read_frame r max_len) (length (pend q)) (raw @ rest, ended) = Inr (map wire_normal (pend q), (rest, ended))"
  using writer_run [OF assms, of h w e] unfolding carries_def by blast

theorem writer_drains_witness:
  "\<exists>raw control q' w' r. writer fifo byte_sink (replicate 2 \<lparr>keepalive_due = True, close_due = False,
      nonce8 = replicate 8 1, write_late = False\<rparr>) (the (heap demo 1)) ([KeepAlive, NotePreferred True], 62) [] = (q', w', r) \<and>
    w' = raw @ control \<and> get_n (\<lambda>r. read_frame r 64) 2 (raw, UnexpectedEof) =
      Inr ([KeepAlive, NotePreferred True], ([], UnexpectedEof))"
proof -
  let ?q = "([KeepAlive, NotePreferred True], 62) :: Frame list \<times> nat"
  let ?t = "\<lparr>keepalive_due = True, close_due = False, nonce8 = replicate 8 1, write_late = False\<rparr>"
  have "sink_ok byte_sink (\<lambda>w. w)" by (rule byte_sink_ok)
  moreover have "\<forall>f\<in>set (fst ?q). sendable 64 f" by (simp add: sendable_def encode_eq)
  moreover have "\<forall>t\<in>set (replicate 2 ?t). timely t" by (simp add: timely_def)
  moreover have "length (fst ?q) \<le> length (replicate 2 ?t)" by simp
  ultimately show ?thesis
    using writer_drains [OF fifo_ok, of byte_sink "\<lambda>w. w" ?q 64 "replicate 2 ?t" "the (heap demo 1)" "[]"
      SeHttp "[]" UnexpectedEof] by (fastforce simp: numeral_2_eq_2)
qed

end
