(* ===== verification/Derp_System_Props.thy ===== *)
theory Derp_System_Props
  imports Derp_Queues Derp_Session_Props
begin

text \<open>
  What holds in every state of the running server, and an example run: a client proves its key and sends
  a packet to itself.
\<close>

subsection \<open>An example run\<close>

definition start_state :: "(Frame list \<times> nat) server_state" where
  "start_state = \<lparr>sys_relay = server_relay demo_config None, serving = Map.empty, mesh_conns = {}, proved = {}, lost = {}\<rparr>"

definition alone :: "(Frame list \<times> nat) Relay" where
  "alone = snd (register fifo 0 (key_of 5) (ep_of 7) False True False False (server_relay demo_config None))"

abbreviation self_packet :: Frame where
  "self_packet \<equiv> SendPacket (key_of 5) [42]"

definition joined_state :: "bytes \<Rightarrow> (Frame list \<times> nat) server_state" where
  "joined_state rest = \<lparr>sys_relay = alone,
     serving = [1 \<mapsto> ((rest, UnexpectedEof), TokenBucket_new (rate_limit demo_config) (rate_burst demo_config) 0)],
     mesh_conns = {}, proved = {key_of 5}, lost = {}\<rparr>"

abbreviation demo_step :: "(Frame list \<times> nat) server_state \<Rightarrow> (Frame list \<times> nat) server_state \<Rightarrow> bool" where
  "demo_step \<equiv> server_step open_box json_ref hex_ref (\<lambda>_ _. NoResponse) fifo byte_sink demo_server"

text \<open>A client's handshake is a step of the server, whatever it sends afterwards.\<close>

lemma hello_step:
  assumes "nodekey_ok k" "ids_left (sys_relay S)"
    and "register fifo 0 k (ep_of 7) False True False False (sys_relay S) = (i, t)"
  shows "demo_step S (S\<lparr>sys_relay := t,
      serving := (serving S)(i \<mapsto> ((rest, UnexpectedEof), TokenBucket_new (rate_limit demo_config) (rate_burst demo_config) 0)),
      proved := insert k (proved S)\<rparr>)"
proof -
  from hello_accepted [OF assms(1), of "\<lambda>_ _. NoResponse" fifo 0 "ep_of 7" False rest UnexpectedEof "sys_relay S"] assms(3)
  obtain w' where a: "accept_client open_box json_ref hex_ref (\<lambda>_ _. NoResponse) fifo byte_sink (\<lambda>_. False) 0 demo_server
      (ep_of 7) False (hello k @ rest, UnexpectedEof) [] (sys_relay S) = (t, Inr (i, k, (rest, UnexpectedEof), w'))" by auto
  have "address_ok (ep_of 7)" by code_simp
  from server_step.accept [OF a assms(2) this] show ?thesis by (simp add: demo_server_def)
qed

lemma joined_reach: "reach (server_init demo_config None) demo_step (joined_state rest)"
proof -
  have k: "nodekey_ok (key_of 5)" by (simp add: key_of_def nodekey_ok_def)
  obtain i t where r: "register fifo 0 (key_of 5) (ep_of 7) False True False False (sys_relay start_state) = (i, t)" by fastforce
  have it: "i = 1" "t = alone"
    using register_id [of fifo 0 "key_of 5" "ep_of 7" False True False False "sys_relay start_state"] r
    by (simp_all add: alone_def start_state_def server_relay_def Relay_new_def)
  have "ids_left (sys_relay start_state)" by (simp add: start_state_def server_relay_def Relay_new_def)
  from hello_step [OF k this r, of rest] it have "demo_step start_state (joined_state rest)"
    by (simp add: joined_state_def start_state_def)
  moreover have "reach (server_init demo_config None) demo_step start_state"
    by (rule reach.start) (simp add: server_init_def start_state_def)
  ultimately show ?thesis by (blast intro: reach.more)
qed

text \<open>A second client joins.\<close>

definition two :: "(Frame list \<times> nat) Relay" where
  "two = snd (register fifo 0 (key_of 6) (ep_of 7) False True False False alone)"

lemma pair_reach:
  "\<exists>S. reach (server_init demo_config None) demo_step S \<and> sys_relay S = two \<and>
     serving S 1 = Some ((rest, UnexpectedEof), TokenBucket_new (rate_limit demo_config) (rate_burst demo_config) 0)"
proof -
  have k: "nodekey_ok (key_of 6)" by (simp add: key_of_def nodekey_ok_def)
  let ?S = "joined_state rest"
  obtain i t where r: "register fifo 0 (key_of 6) (ep_of 7) False True False False (sys_relay ?S) = (i, t)" by fastforce
  have "ids_left alone" "next_id alone = 2" by code_simp+
  then have it: "ids_left (sys_relay ?S)" "i = 2" "t = two"
    using register_id [of fifo 0 "key_of 6" "ep_of 7" False True False False "sys_relay ?S"] r
    by (simp_all add: two_def joined_state_def)
  from reach.more [OF joined_reach hello_step [OF k it(1) r, of "[]"]] it show ?thesis
    by (intro exI conjI) (assumption, simp_all add: joined_state_def)
qed

definition sent_state :: "TokenBucket \<Rightarrow> (Frame list \<times> nat) server_state" where
  "sent_state tb = (joined_state [])\<lparr>sys_relay := route fifo 0 1 (key_of 5) (key_of 5) [42] False (note_activity 1 alone),
     serving := [1 \<mapsto> (([], UnexpectedEof), tb)]\<rparr>"

lemma sent_reach: "\<exists>tb. reach (server_init demo_config None) demo_step (sent_state tb)"
proof -
  let ?raw = "frame_bytes self_packet (as_bytes (key_of 5) @ [42])"
  have "map_option (\<lambda>h. (sh_id h, sh_key h)) (heap alone 1) = Some (1, key_of 5)" by code_simp
  then obtain h where h: "heap alone 1 = Some h" "sh_id h = 1" "sh_key h = key_of 5" by auto
  have "decode (kind self_packet) (as_bytes (key_of 5) @ [42]) = Inr (wire_normal self_packet)"
    by (rule decode_payload) (simp_all add: key_of_def nodekey_ok_def payload_of_packets)
  then have rd: "read_frame (?raw @ [], UnexpectedEof) READ_LIMIT = Inr (self_packet, ([], UnexpectedEof))"
    by (subst read_frame_bytes) (simp_all add: key_of_def READ_LIMIT_def del: kind.simps)
  obtain tb where tu: "reader_turn fifo (0, 0, 0) h self_packet (TokenBucket_new (rate_limit demo_config) (rate_burst demo_config) 0)
      (sys_relay (joined_state ?raw)) = (tb, route fifo 0 1 (key_of 5) (key_of 5) [42] False (note_activity 1 alone), Inr ())"
    by (auto simp: reader_turn_def dispatch_def joined_state_def h)
  have "demo_step (joined_state ?raw) (sent_state tb)"
    using server_step.read [OF _ _ rd tu, of 1] h(1) by (simp add: joined_state_def sent_state_def)
  with joined_reach show ?thesis by (blast intro: reach.more)
qed

subsection \<open>Properties\<close>



text \<open>
  C2: A server without a mesh key carries authentic packets only: in every reachable state, however many
  clients connect, send and leave, every packet in every queue, of a client or of a mesh connection,
  carries as its source a key that some client proved in its handshake.
\<close>

theorem packets_authentic:
  assumes "mpsc_ok C pend room" "reach (server_init cfg None) (server_step B J H post C K srv) S"
    and "f \<in> set (fst (boxes pend room (sys_relay S) c))" "packet_src f = Some k"
  shows "k \<in> proved S"
  using queues_inv_reach [OF assms(1,2)] assms(3,4) unfolding queues_inv_def all_queued_def good_frame_def by blast

theorem packets_authentic_witness:
  "\<exists>S. reach (server_init demo_config None) demo_step S \<and>
     RecvPacket (key_of 5) [42] \<in> set (fst (boxes fst snd (sys_relay S) (SessionChan 1))) \<and> key_of 5 \<in> proved S"
proof -
  from sent_reach obtain tb where r: "reach (server_init demo_config None) demo_step (sent_state tb)" by blast
  have "fst (boxes fst snd (route fifo 0 1 (key_of 5) (key_of 5) [42] False (note_activity 1 alone)) (SessionChan 1)) =
      [RecvPacket (key_of 5) [42]]" by code_simp
  then have q: "RecvPacket (key_of 5) [42] \<in> set (fst (boxes fst snd (sys_relay (sent_state tb)) (SessionChan 1)))"
    by (simp add: sent_state_def)
  from packets_authentic [OF fifo_ok r q] r q show ?thesis by auto
qed

subsection \<open>Delivery\<close>

lemma queue_received:
  assumes "mpsc_ok C pend room" "sink_ok K' sent" "reach (server_init cfg mkey) (server_step B J H post C K srv) S"
    and "chans (sys_relay S) c = Some q" "list_all timely ts" "length (pend q) \<le> length ts"
  shows "\<exists>raw control q' w' r. writer C K' ts h q w = (q', w', r) \<and> r \<noteq> Some (Inl err) \<and> pend q' = [] \<and>
    sent w' = sent w @ raw @ control \<and> carries MESH_READ_LIMIT raw (pend q)"
proof -
  have b: "fst (boxes pend room (sys_relay S) c) = pend q" using assms(4) by (simp add: boxes_def)
  have "\<forall>f\<in>set (pend q). sendable MESH_READ_LIMIT f"
    using queues_inv_reach [OF assms(1,3)] unfolding queues_inv_def all_queued_def good_frame_def b [symmetric] by blast
  moreover have "\<forall>t\<in>set ts. timely t" using assms(5) by (simp add: list_all_iff)
  ultimately show ?thesis using writer_run [OF assms(1,2) _ _ assms(6)] by blast
qed

text \<open>
  C23: Every client gets what waits for it. In every state of the running server, with or without a mesh, on a
  connection that takes its writes in time, the writer of a served session sends the whole queue: the peer
  reads exactly these frames in their order, none of them is refused, and the writer does not fail.
\<close>

theorem served_clients_receive:
  assumes "mpsc_ok C pend room" "sink_ok K' sent" "reach (server_init cfg mkey) (server_step B J H post C K srv) S"
    and "chans (sys_relay S) (SessionChan i) = Some q" "list_all timely ts" "length (pend q) \<le> length ts"
  shows "\<exists>raw control q' w' r. writer C K' ts h q w = (q', w', r) \<and> r \<noteq> Some (Inl err) \<and> pend q' = [] \<and>
    sent w' = sent w @ raw @ control \<and>
    (\<forall>after e. get_n (\<lambda>r. read_frame r MESH_READ_LIMIT) (length (pend q)) (raw @ after, e) =
       Inr (map wire_normal (pend q), (after, e)))"
  using queue_received [OF assms] unfolding carries_def .

theorem served_clients_receive_witness:
  "\<exists>S raw control q' w' r. reach (server_init demo_config None) demo_step S \<and>
     chans (sys_relay S) (SessionChan 1) = Some ([RecvPacket (key_of 5) [42]], 63) \<and>
     writer fifo byte_sink [\<lparr>keepalive_due = False, close_due = False, nonce8 = replicate 8 0, write_late = False\<rparr>]
       (the (heap alone 1)) ([RecvPacket (key_of 5) [42]], 63) [] = (q', raw @ control, r) \<and>
     read_frame (raw, UnexpectedEof) MESH_READ_LIMIT = Inr (RecvPacket (key_of 5) [42], ([], UnexpectedEof))"
proof -
  let ?t = "\<lparr>keepalive_due = False, close_due = False, nonce8 = replicate 8 0, write_late = False\<rparr>"
    and ?q = "([RecvPacket (key_of 5) [42]], 63) :: Frame list \<times> nat"
  from sent_reach obtain tb where r: "reach (server_init demo_config None) demo_step (sent_state tb)" by blast
  have "chans (route fifo 0 1 (key_of 5) (key_of 5) [42] False (note_activity 1 alone)) (SessionChan 1) = Some ?q" by code_simp
  then have q: "chans (sys_relay (sent_state tb)) (SessionChan 1) = Some ?q" by (simp add: sent_state_def)
  have ts: "list_all timely [?t]" "length (fst ?q) \<le> length [?t]" by (simp_all add: timely_def)
  from served_clients_receive [OF fifo_ok byte_sink_ok r q ts, of "the (heap alone 1)" "[]" SeHttp]
  obtain raw control q' w' rr where w: "writer fifo byte_sink [?t] (the (heap alone 1)) ?q [] = (q', raw @ control, rr)"
    and rd: "\<forall>after e. get_n (\<lambda>r. read_frame r MESH_READ_LIMIT) 1 (raw @ after, e) = Inr ([RecvPacket (key_of 5) [42]], (after, e))"
    by auto
  from rd [rule_format, of "[]" UnexpectedEof]
  have "read_frame (raw, UnexpectedEof) MESH_READ_LIMIT = Inr (RecvPacket (key_of 5) [42], ([], UnexpectedEof))"
    by (auto simp: try_res_Inr)
  with r q w show ?thesis by blast
qed

text \<open>The bytes of a packet for a key.\<close>

definition packet_bytes :: "NodeKey \<Rightarrow> bytes \<Rightarrow> bytes" where
  "packet_bytes dst packet = frame_bytes (SendPacket dst packet) (as_bytes dst @ packet)"

lemma read_packet:
  assumes "nodekey_ok dst" "length packet \<le> MAX_PACKET_SIZE"
  shows "read_frame (packet_bytes dst packet @ rest, e) READ_LIMIT = Inr (SendPacket dst packet, (rest, e))"
proof -
  have "decode (kind (SendPacket dst packet)) (as_bytes dst @ packet) = Inr (wire_normal (SendPacket dst packet))"
    by (rule decode_payload) (use assms in \<open>simp_all add: payload_of_packets\<close>)
  then show ?thesis unfolding packet_bytes_def
    by (subst read_frame_bytes) (use assms in \<open>simp_all add: READ_LIMIT_def MAX_PACKET_SIZE_def nodekey_ok_def del: kind.simps\<close>)
qed

text \<open>
  C1: A packet gets from client to client. In every state of the running server, when a client has sent
  a packet for another connected key whose queue has room, the server can take the step that reads it, and
  afterwards the writer of the destination's active session, on a connection that takes its writes in
  time, sends bytes from which the destination reads the frames that were queued before and then the packet,
  unchanged and with the key that the sender proved.
\<close>

theorem packet_end_to_end:
  assumes C: "mpsc_ok C pend room" and K: "sink_ok K' sent"
    and S: "reach (server_init cfg mkey) (server_step B J H post C K srv) S"
    and i: "serving S i = Some ((packet_bytes dst packet @ rest, e), tb)" "heap (sys_relay S) i = Some h" "sh_key h \<noteq> dst"
    and dst: "nodekey_ok dst" "length packet \<le> MAX_PACKET_SIZE" "active dst (sys_relay S) = Some d"
      "boxes pend room (sys_relay S) (SessionChan d) = (old, Suc free)"
    and ts: "list_all timely ts" "length old < length ts"
  shows "\<exists>T tb' q q' raw control w' r. server_step B J H post C K srv S T \<and>
    serving T i = Some ((rest, e), tb') \<and> chans (sys_relay T) (SessionChan d) = Some q \<and>
    writer C K' ts hw q w = (q', w', r) \<and> r \<noteq> Some (Inl err) \<and> pend q' = [] \<and> sent w' = sent w @ raw @ control \<and>
    (\<forall>after e'. get_n (\<lambda>r. read_frame r MESH_READ_LIMIT) (length old + 1) (raw @ after, e') =
       Inr (map wire_normal old @ [RecvPacket (sh_key h) packet], (after, e'))) \<and> sh_key h \<in> proved S"
proof -
  let ?s = "sys_relay S" and ?u = "note_activity i (sys_relay S)"
  have inv: "tasks_inv C S" "people_inv mkey S" using tasks.reach_inv [OF S] people.reach_rel [OF S] .
  note h = served_handle [OF inv(1) i(1,2)]
  obtain tb' t r where tu: "reader_turn C (0, 0, 0) h (SendPacket dst packet) tb ?s = (tb', t, r)"
    by (cases "reader_turn C (0, 0, 0) h (SendPacket dst packet) tb ?s")
  then have t: "t = route C 0 i (sh_key h) dst packet False ?u" "r = Inr ()"
    by (auto simp: reader_turn_def dispatch_def h(2) Let_def)
  let ?T = "S\<lparr>sys_relay := t, serving := (serving S)(i \<mapsto> ((rest, e), tb'))\<rparr>"
  have step: "server_step B J H post C K srv S ?T"
    using server_step.read [OF i(1,2) read_packet [OF dst(1,2)]] tu t(2) by blast
  have u: "relay_inv ?u" "i \<in> live_set ?u" using h by (simp_all add: note_activity_inv live_note_activity)
  then obtain hu where hu: "heap ?u i = Some hu" using live_tx by blast
  have "active_ix ?u dst = active_ix ?s dst"
    using i(2,3) by (auto simp: note_activity_def Let_def split: option.split)
  then have "active dst ?u = Some d" using dst(3) by (simp add: active_def)
  then have "boxes pend room t = put (SessionChan d) (RecvPacket (sh_key h) packet) (boxes pend room ?s)"
    by (simp add: t(1) route_boxes_live [OF C u(1) hu] occ_quiet)
  then have "boxes pend room t (SessionChan d) = (old @ [RecvPacket (sh_key h) packet], free)"
    using dst(4) by (simp add: put_offer)
  then obtain q where q: "chans (sys_relay ?T) (SessionChan d) = Some q" "pend q = old @ [RecvPacket (sh_key h) packet]"
    by (auto simp: boxes_def split: option.splits)
  have "length (pend q) \<le> length ts" using q(2) ts(2) by simp
  from queue_received [OF C K reach.more [OF S step] q(1) ts(1) this, of hw w err] obtain raw control q' w' r where
    w: "writer C K' ts hw q w = (q', w', r)" "r \<noteq> Some (Inl err)" "pend q' = []" "sent w' = sent w @ raw @ control"
      "carries MESH_READ_LIMIT raw (old @ [RecvPacket (sh_key h) packet])" unfolding q(2) by blast
  have "sh_key h \<in> proved S" using inv(2) people_handle(1) [OF _ i(2)] by (auto simp: people_inv_def)
  with step q(1) w show ?thesis
    by (intro exI [of _ ?T] exI [of _ tb'] exI [of _ q] exI [of _ q'] exI [of _ raw] exI [of _ control] exI [of _ w'] exI [of _ r])
      (simp add: carries_def)
qed

theorem packet_end_to_end_witness:
  "\<exists>S T tb' q q' raw control w' r. serving S 1 = Some ((packet_bytes (key_of 6) [42], UnexpectedEof), tb') \<and>
     demo_step S T \<and> chans (sys_relay T) (SessionChan 2) = Some q \<and>
     writer fifo byte_sink [\<lparr>keepalive_due = False, close_due = False, nonce8 = replicate 8 0, write_late = False\<rparr>]
       (the (heap two 2)) q [] = (q', w', r) \<and> w' = raw @ control \<and>
     read_frame (raw, UnexpectedEof) MESH_READ_LIMIT = Inr (RecvPacket (key_of 5) [42], ([], UnexpectedEof))"
proof -
  let ?t = "\<lparr>keepalive_due = False, close_due = False, nonce8 = replicate 8 0, write_late = False\<rparr>"
  from pair_reach [of "packet_bytes (key_of 6) [42]"] obtain S tb where
    S: "reach (server_init demo_config None) demo_step S" "sys_relay S = two"
      "serving S 1 = Some ((packet_bytes (key_of 6) [42] @ [], UnexpectedEof), tb)" by auto
  have "map_option sh_key (heap two 1) = Some (key_of 5)" "active (key_of 6) two = Some 2"
    "boxes fst snd two (SessionChan 2) = ([], 64)" by code_simp+
  then obtain h where h: "heap two 1 = Some h" "sh_key h = key_of 5" "active (key_of 6) two = Some 2"
    "boxes fst snd two (SessionChan 2) = ([], Suc 63)" by auto
  have k: "nodekey_ok (key_of 6)" "key_of 5 \<noteq> key_of 6" by (simp_all add: key_of_def nodekey_ok_def)
  have p: "heap (sys_relay S) 1 = Some h" "sh_key h \<noteq> key_of 6" "length [42 :: byte] \<le> MAX_PACKET_SIZE"
    "active (key_of 6) (sys_relay S) = Some 2" "boxes fst snd (sys_relay S) (SessionChan 2) = ([], Suc 63)"
    "list_all timely [?t]" "length ([] :: Frame list) < length [?t]"
    using S(2) h k(2) by (simp_all add: timely_def)
  from packet_end_to_end [OF fifo_ok byte_sink_ok S(1,3) p(1,2) k(1) p(3-7), of "the (heap two 2)" "[]" SeHttp]
  obtain T q q' raw control w' r where
    "demo_step S T" "chans (sys_relay T) (SessionChan 2) = Some q"
    "writer fifo byte_sink [?t] (the (heap two 2)) q [] = (q', w', r)" "w' = raw @ control"
    and rd: "\<forall>after e'. get_n (\<lambda>r. read_frame r MESH_READ_LIMIT) 1 (raw @ after, e') = Inr ([RecvPacket (key_of 5) [42]], (after, e'))"
    using h(2) by auto
  moreover from rd [rule_format, of "[]" UnexpectedEof]
  have "read_frame (raw, UnexpectedEof) MESH_READ_LIMIT = Inr (RecvPacket (key_of 5) [42], ([], UnexpectedEof))"
    by (auto simp: try_res_Inr)
  moreover have "serving S 1 = Some ((packet_bytes (key_of 6) [42], UnexpectedEof), tb)" using S(3) by simp
  ultimately show ?thesis by blast
qed

end
