(* ===== verification/Derp_Directory_Props.thy ===== *)
theory Derp_Directory_Props
  imports Derp_Directory Derp_System_Props
begin

text \<open>
  The relay and the running server implement the directory: the operations of the relay are the directory's
  updates, and every run of the server is a run of the directory.
\<close>

text \<open>
  C5: The relay is a directory of sessions. Registration appends the new session to its key and makes it the
  receiver; activity of a session makes it the receiver; when a session leaves it is removed from its key
  and the one that connected last of the remaining is the receiver, or the key is gone; routing, preferences,
  watching, closing, replies, mesh routes and the restart announcement change nothing; and the lock-free
  lookup returns the receiver.
\<close>

theorem directory_operations:
  assumes "reachable C s" "i \<in> live_set s" "heap s i = Some h"
  shows "active k s = receiver (directory s) k \<and>
    directory (snd (register C now key ep mesh ack prober nideal s)) = dir_join key (next_id s) (directory s) \<and>
    directory (note_activity i s) = dir_select (sh_key h) i (directory s) \<and>
    directory (unregister C i s) = dir_leave (sh_key h) i (directory s) \<and>
    (\<forall>t\<in>{route C now i src dst packet fwd s, note_preferred i p s, fst (watch C i s), fst (close_peer i k s), fst (send C i f s),
          add_mesh_route m k ch s, remove_mesh_route m k s, remove_mesh m s, broadcast_restart C x y s}. directory t = directory s)"
proof -
  have inv: "relay_inv s" using assms(1) by (rule reachable_relay_inv)
  show ?thesis
    using receiver_active [OF inv] directory_register directory_activity [OF inv assms(2,3)] directory_unregister [OF inv assms(2,3)]
    by (auto simp: directory_quiet directory_same_ctrl [OF same_ctrl_route] directory_same_ctrl [OF same_ctrl_close_peer]
      directory_same_ctrl [OF same_ctrl_send] directory_same_ctrl [OF same_ctrl_restart]
      directory_same_ctrl [OF same_ctrl_add_mesh_route] directory_same_ctrl [OF same_ctrl_remove_mesh_route]
      directory_same_ctrl [OF same_ctrl_remove_mesh])
qed

theorem directory_operations_witness:
  "directory demo (key_of 1) = Some ([1], 1) \<and>
   directory (snd (register fifo 0 (key_of 1) (ep_of 1) False True False False demo)) (key_of 1) = Some ([1, 4], 4) \<and>
   directory (unregister fifo 1 demo) (key_of 1) = None"
proof -
  have d: "map_option sh_key (heap demo 1) = Some (key_of 1)" "1 \<in> live_set demo" "next_id demo = 4" by code_simp+
  have e: "directory demo (key_of 1) = Some ([1], 1)" unfolding directory_def by code_simp
  from d(1) obtain h where h: "heap demo 1 = Some h" "sh_key h = key_of 1" by auto
  from directory_operations [OF demo_reachable d(2) h(1)] h(2) d(3) e show ?thesis
    by (simp add: dir_join_def dir_leave_def members_def)
qed



end
