(* ===== verification/Derp_Rate.thy ===== *)
theory Derp_Rate
  imports Derp_Session_Props
begin

text \<open>
  What the inbound token bucket of \<open>src/src/server.rs\<close> achieves in the reader that uses it: the bytes
  that a client without mesh permission is charged for are bounded by the burst and the rate.
\<close>

subsection \<open>The bucket\<close>

definition bucket_ok :: "TokenBucket \<Rightarrow> bool" where
  "bucket_ok tb \<longleftrightarrow> tb_rate tb \<noteq> 0 \<and> 0 \<le> tb_burst tb \<and> 0 \<le> tb_tokens tb \<and> tb_tokens tb \<le> 2 * tb_burst tb"

lemma u64_as_f64_nonneg [simp]: "0 \<le> u64_as_f64 w"
  unfolding u64_as_f64_def by (intro f64.rnd_nonneg of_nat_0_le_iff)

lemma bucket_ok_new: "rate \<noteq> 0 \<Longrightarrow> bucket_ok (TokenBucket_new rate burst now)"
  by (simp add: bucket_ok_def TokenBucket_new_def)

lemma rate_pos: "rate \<noteq> 0 \<Longrightarrow> 1 \<le> u64_as_f64 rate"
proof -
  assume "rate \<noteq> 0"
  then have "1 \<le> unat rate" by (simp add: Suc_le_eq unat_gt_0)
  then have "f64_round (of_nat 1) \<le> f64_round (of_nat (unat rate))" by (intro f64.rnd_mono of_nat_mono)
  then show ?thesis using f64.rnd_nat [of 1] by (simp add: u64_as_f64_def)
qed

text \<open>What a clock reading allows: \<open>Instant\<close>s do not go back and \<open>sleep\<close> does not return early.\<close>

definition on_time :: "nat \<Rightarrow> nat \<Rightarrow> nat \<Rightarrow> TokenBucket \<Rightarrow> bool" where
  "on_time now wake n tb \<longleftrightarrow> tb_last tb \<le> now \<and>
     (case snd (consume now wake n tb) of None \<Rightarrow> True | Some d \<Rightarrow> now + d \<le> wake)"

definition refilled :: "nat \<Rightarrow> TokenBucket \<Rightarrow> rat" where
  "refilled now tb =
     min (f64_round (tb_tokens tb + f64_round (as_secs_f64 (now - tb_last tb) * u64_as_f64 (tb_rate tb)))) (tb_burst tb)"

lemma consume_eq:
  assumes "tb_rate tb \<noteq> 0" "n \<le> 2 ^ 53"
  shows "consume now wake n tb =
    (if of_nat n \<le> refilled now tb then (tb\<lparr>tb_tokens := f64_round (refilled now tb - of_nat n), tb_last := now\<rparr>, None)
     else (tb\<lparr>tb_tokens := 0, tb_last := wake\<rparr>,
           Some (from_secs_f64 (f64_round (f64_round (of_nat n - refilled now tb) / u64_as_f64 (tb_rate tb))))))"
  unfolding consume_def Let_def refilled_def [symmetric] f64.rnd_nat [OF assms(2)] using assms(1) by simp

lemma refilled_bounds:
  assumes "bucket_ok tb"
  shows "0 \<le> refilled now tb" and "refilled now tb \<le> tb_burst tb"
    and "refilled now tb \<le> tb_tokens tb
           + u64_as_f64 (tb_rate tb) * secs (now - tb_last tb) * (1 + eps) ^ 4 + 2 * tb_burst tb * eps"
proof -
  let ?t = "tb_tokens tb" and ?R = "u64_as_f64 (tb_rate tb)" and ?s = "secs (now - tb_last tb)"
  define c where "c = f64_round (as_secs_f64 (now - tb_last tb) * ?R)"
  have R: "0 \<le> ?R" by simp
  have b: "0 \<le> ?t" "?t \<le> 2 * tb_burst tb" "0 \<le> tb_burst tb" using assms by (simp_all add: bucket_ok_def)
  have c0: "0 \<le> c" using R by (simp add: c_def f64.rnd_nonneg)
  show "0 \<le> refilled now tb" "refilled now tb \<le> tb_burst tb"
    using b c0 by (simp_all add: refilled_def f64.rnd_nonneg flip: c_def)
  have "c \<le> ?s * (1 + eps) ^ 2 * ?R * (1 + eps)"
    unfolding c_def using R as_secs_f64_upper by (intro f64.rnd_upper_le mult_right_mono) simp_all
  then have "c * (1 + eps) \<le> ?s * (1 + eps) ^ 2 * ?R * (1 + eps) * (1 + eps)" by (rule mult_right_mono) simp
  also have "\<dots> = ?R * ?s * (1 + eps) ^ 4" by algebra
  finally have c: "c * (1 + eps) \<le> ?R * ?s * (1 + eps) ^ 4" .
  have "f64_round (?t + c) \<le> (?t + c) * (1 + eps)" using b c0 by (intro f64.rnd_upper) simp
  moreover have "refilled now tb \<le> f64_round (?t + c)" unfolding refilled_def c_def by (rule min.cobounded1)
  ultimately have "refilled now tb \<le> ?t + ?t * eps + c * (1 + eps)" by (simp add: algebra_simps)
  moreover have "?t * eps \<le> 2 * tb_burst tb * eps" using b by (intro mult_right_mono) simp_all
  ultimately show "refilled now tb \<le> ?t + ?R * ?s * (1 + eps) ^ 4 + 2 * tb_burst tb * eps" using c by linarith
qed

text \<open>The sleep makes up for what the bucket lacks, to half a nanosecond.\<close>

definition half_nano :: rat where
  "half_nano = 1 / (2 * of_nat NANOS_PER_SEC)"

lemma half_nano_nonneg [simp]: "0 \<le> half_nano"
  by (simp add: half_nano_def)

lemma from_secs_lower: "0 \<le> x \<Longrightarrow> x \<le> secs (from_secs_f64 x) + half_nano"
proof -
  assume "0 \<le> x"
  define N where "N = (of_nat NANOS_PER_SEC :: rat)"
  have N: "0 < N" by (simp add: N_def NANOS_PER_SEC_def)
  have "0 \<le> rne (x * N)" using rne_mono [of 0 "x * N"] rne_of_int [of 0] \<open>0 \<le> x\<close> N by simp
  then have "of_nat (from_secs_f64 x) = (of_int (rne (x * N)) :: rat)" by (simp add: from_secs_f64_def N_def)
  moreover have "- (of_int (rne (x * N)) - x * N) \<le> 1 / 2"
    using rne_error [of "x * N"] abs_ge_minus_self order_trans by blast
  ultimately have "x * N \<le> of_nat (from_secs_f64 x) + 1 / 2" by linarith
  then have "x \<le> (of_nat (from_secs_f64 x) + 1 / 2) / N" using N by (simp add: pos_le_divide_eq)
  then show ?thesis by (simp add: secs_def half_nano_def N_def add_divide_distrib)
qed

lemma eps_inverse: "1 \<le> (1 - eps) * (1 + eps) ^ 2"
  by (simp add: eps_def power2_eq_square)

lemma sleep_covers:
  assumes "0 \<le> need" "0 < r" "d = from_secs_f64 (f64_round (f64_round need / r))"
  shows "need \<le> r * (secs d + half_nano) * (1 + eps) ^ 4"
proof -
  let ?u = "f64_round need / r"
  have u: "0 \<le> ?u" using assms by (simp add: f64.rnd_nonneg)
  have up: "x \<le> y * (1 + eps) ^ 2" if "x * (1 - eps) \<le> y" "0 \<le> x" for x y
  proof -
    have "x * 1 \<le> x * ((1 - eps) * (1 + eps) ^ 2)" using eps_inverse that(2) by (rule mult_left_mono)
    also have "\<dots> = x * (1 - eps) * (1 + eps) ^ 2" by (simp only: mult.assoc)
    also have "\<dots> \<le> y * (1 + eps) ^ 2" using that(1) by (rule mult_right_mono) simp
    finally show ?thesis by simp
  qed
  have "f64_round ?u \<le> secs d + half_nano"
    unfolding assms(3) using u by (intro from_secs_lower f64.rnd_nonneg)
  with up [OF f64.rnd_lower [OF u] u] have "?u \<le> (secs d + half_nano) * (1 + eps) ^ 2"
    by (meson mult_right_mono order_trans zero_le_power2)
  then have "f64_round need \<le> (secs d + half_nano) * (1 + eps) ^ 2 * r"
    using assms(2) by (simp add: pos_divide_le_eq)
  then have "f64_round need * (1 + eps) ^ 2 \<le> (secs d + half_nano) * (1 + eps) ^ 2 * r * (1 + eps) ^ 2"
    by (rule mult_right_mono) simp
  also have "\<dots> = r * (secs d + half_nano) * (1 + eps) ^ 4" by algebra
  finally show ?thesis using up [OF f64.rnd_lower [OF assms(1)] assms(1)] by linarith
qed

text \<open>What one call may err by.\<close>

definition slack :: "TokenBucket \<Rightarrow> rat" where
  "slack tb = 3 * tb_burst tb * eps + u64_as_f64 (tb_rate tb) * half_nano * (1 + eps) ^ 4"

lemma consume_ok:
  assumes "bucket_ok tb" "n \<le> 2 ^ 53"
  shows "bucket_ok (fst (consume now wake n tb))" "tb_rate (fst (consume now wake n tb)) = tb_rate tb"
    "tb_burst (fst (consume now wake n tb)) = tb_burst tb"
proof -
  have r: "tb_rate tb \<noteq> 0" using assms(1) by (simp add: bucket_ok_def)
  note c = consume_eq [OF r assms(2), of now wake]
  show "tb_rate (fst (consume now wake n tb)) = tb_rate tb" "tb_burst (fst (consume now wake n tb)) = tb_burst tb"
    by (simp_all add: c)
  let ?x = "refilled now tb - of_nat n"
  have "f64_round ?x \<le> 2 * tb_burst tb" if "0 \<le> ?x"
  proof -
    have "f64_round ?x \<le> ?x * (1 + eps)" using that by (rule f64.rnd_upper)
    also have "\<dots> \<le> ?x * 2" using that by (intro mult_left_mono) (simp_all add: eps_def)
    finally show ?thesis using refilled_bounds(2) [OF assms(1), of now] by simp
  qed
  then show "bucket_ok (fst (consume now wake n tb))"
    using assms(1) by (auto simp: c bucket_ok_def f64.rnd_nonneg)
qed

lemma consume_potential:
  assumes "bucket_ok tb" "n \<le> 2 ^ 53" "on_time now wake n tb" "tb' = fst (consume now wake n tb)"
  shows "of_nat n + tb_tokens tb' \<le> tb_tokens tb
      + u64_as_f64 (tb_rate tb) * secs (tb_last tb' - tb_last tb) * (1 + eps) ^ 4 + slack tb"
    and "tb_last tb \<le> tb_last tb'"
proof -
  let ?R = "u64_as_f64 (tb_rate tb)" and ?t = "refilled now tb" and ?e = "(1 + eps) ^ 4"
  have r: "tb_rate tb \<noteq> 0" and B: "0 \<le> tb_burst tb" using assms(1) by (simp_all add: bucket_ok_def)
  have R: "1 \<le> ?R" using r by (rule rate_pos)
  note c = consume_eq [OF r assms(2), of now wake] and t = refilled_bounds [OF assms(1), of now]
  have late: "tb_last tb \<le> now" using assms(3) by (simp add: on_time_def)
  have h: "0 \<le> ?R * half_nano * ?e" using R by simp
  have "(of_nat n + tb_tokens tb' \<le> tb_tokens tb + ?R * secs (tb_last tb' - tb_last tb) * ?e + slack tb)
      \<and> tb_last tb \<le> tb_last tb'"
  proof (cases "of_nat n \<le> ?t")
    case True
    then have tb': "tb_tokens tb' = f64_round (?t - of_nat n)" "tb_last tb' = now" by (simp_all add: assms(4) c)
    have "f64_round (?t - of_nat n) \<le> (?t - of_nat n) + (?t - of_nat n) * eps"
      using True f64.rnd_upper [of "?t - of_nat n"] by (simp add: distrib_left)
    moreover have "(?t - of_nat n) * eps \<le> tb_burst tb * eps" using t(2) by (intro mult_right_mono) simp_all
    ultimately have "of_nat n + tb_tokens tb' \<le> ?t + tb_burst tb * eps" unfolding tb'(1) by linarith
    with t(3) h late show ?thesis unfolding tb'(2) slack_def by linarith
  next
    case False
    define d where "d = from_secs_f64 (f64_round (f64_round (of_nat n - ?t) / ?R))"
    have tb': "tb_tokens tb' = 0" "tb_last tb' = wake" using False by (simp_all add: assms(4) c)
    have d: "now + d \<le> wake" using False assms(3) by (simp add: on_time_def c d_def)
    have "of_nat n - ?t \<le> ?R * (secs d + half_nano) * ?e"
      using False R by (intro sleep_covers [OF _ _ d_def]) simp_all
    moreover have "secs (now - tb_last tb) + secs d \<le> secs (wake - tb_last tb)"
      unfolding secs_add [symmetric] using d late by (intro secs_mono) simp
    then have "?R * (secs (now - tb_last tb) + secs d) * ?e \<le> ?R * secs (wake - tb_last tb) * ?e"
      using R by (intro mult_right_mono mult_left_mono) simp_all
    moreover have "0 \<le> tb_burst tb * eps" using B by simp
    ultimately show ?thesis using t(3) d late unfolding tb' slack_def by (simp add: algebra_simps)
  qed
  then show "of_nat n + tb_tokens tb' \<le> tb_tokens tb + ?R * secs (tb_last tb' - tb_last tb) * ?e + slack tb"
    "tb_last tb \<le> tb_last tb'" by simp_all
qed


subsection \<open>The reader\<close>

lemma decode_cost: "decode k p = Inr f \<Longrightarrow> frame_cost f \<le> length p + 64"
  by (cases "from_u8 k"; cases "the (from_u8 k)")
    (auto simp: decode_def decode_peer_present_def frame_cost_def try_res_Inr Let_def split: if_splits)

lemma read_frame_cost:
  assumes "read_frame input m = Inr (f, rest)"
  shows "frame_cost f \<le> m + 64"
proof -
  obtain k p where "decode k p = Inr f" "length p \<le> m"
    using assms by (fastforce simp: read_frame_def read_exact_def try_res_Inr Let_def split: if_splits)
  with decode_cost show ?thesis by fastforce
qed

text \<open>
  The bucket after the first \<open>n\<close> turns of a reader, and that the clock readings of these turns are those
  of a monotone clock and of sleeps that last.
\<close>

fun spent :: "(nat \<Rightarrow> nat \<times> nat \<times> nat) \<Rightarrow> Frame list \<Rightarrow> TokenBucket \<Rightarrow> TokenBucket" where
  "spent clk [] tb = tb"
| "spent clk (f # fs) tb =
     (let (now, wake, _) = clk 0 in spent (\<lambda>i. clk (Suc i)) fs (fst (consume now wake (frame_cost f) tb)))"

fun punctual :: "(nat \<Rightarrow> nat \<times> nat \<times> nat) \<Rightarrow> Frame list \<Rightarrow> TokenBucket \<Rightarrow> bool" where
  "punctual clk [] tb \<longleftrightarrow> True"
| "punctual clk (f # fs) tb \<longleftrightarrow>
     (let (now, wake, _) = clk 0
      in on_time now wake (frame_cost f) tb
         \<and> punctual (\<lambda>i. clk (Suc i)) fs (fst (consume now wake (frame_cost f) tb)))"

lemma spent_potential:
  assumes "bucket_ok tb" "\<forall>f\<in>set fs. frame_cost f \<le> 2 ^ 53" "punctual clk fs tb"
  shows "bucket_ok (spent clk fs tb) \<and> tb_last tb \<le> tb_last (spent clk fs tb) \<and>
    of_nat (sum_list (map frame_cost fs)) + tb_tokens (spent clk fs tb) \<le> tb_tokens tb
      + u64_as_f64 (tb_rate tb) * secs (tb_last (spent clk fs tb) - tb_last tb) * (1 + eps) ^ 4 + of_nat (length fs) * slack tb"
  using assms
proof (induction fs arbitrary: clk tb)
  case (Cons f fs)
  obtain now wake later where clk: "clk 0 = (now, wake, later)" by (cases "clk 0")
  define tb' where "tb' = fst (consume now wake (frame_cost f) tb)"
  define z where "z = tb_last (spent (\<lambda>i. clk (Suc i)) fs tb')"
  have f: "frame_cost f \<le> 2 ^ 53" and t: "on_time now wake (frame_cost f) tb" "punctual (\<lambda>i. clk (Suc i)) fs tb'"
    using Cons.prems by (simp_all add: clk tb'_def)
  note ok = consume_ok [OF Cons.prems(1) f, of now wake, folded tb'_def]
    and one = consume_potential [OF Cons.prems(1) f t(1) tb'_def]
  have sl: "slack tb' = slack tb" by (simp add: slack_def ok)
  note ih = Cons.IH [OF ok(1) _ t(2), folded z_def, unfolded ok(2) sl]
  have z: "tb_last tb' \<le> z" using ih Cons.prems(2) by simp
  have "u64_as_f64 (tb_rate tb) * secs (z - tb_last tb) * (1 + eps) ^ 4
      = u64_as_f64 (tb_rate tb) * secs (z - tb_last tb') * (1 + eps) ^ 4
        + u64_as_f64 (tb_rate tb) * secs (tb_last tb' - tb_last tb) * (1 + eps) ^ 4"
    using secs_add [of "z - tb_last tb'" "tb_last tb' - tb_last tb"] z one(2) by (simp add: algebra_simps)
  with ih one z Cons.prems(2) show ?case
    by (simp add: clk algebra_simps flip: tb'_def z_def)
qed simp

lemma reader_still_reading:
  assumes "reader C clk h n input tb s = (t, None)" "\<not> can_mesh h"
  shows "\<exists>fs rest. get_n (\<lambda>r. read_frame r READ_LIMIT) n input = Inr (fs, rest) \<and> length fs = n \<and>
    (\<forall>f\<in>set fs. frame_cost f \<le> READ_LIMIT + 64) \<and>
    (\<forall>m. reader C clk h (n + m) input tb s = reader C (\<lambda>i. clk (n + i)) h m rest (spent clk fs tb) t)"
  using assms
proof (induction n arbitrary: clk input tb s)
  case (Suc n)
  obtain f rest where f: "read_frame input READ_LIMIT = Inr (f, rest)"
    using Suc.prems by (auto split: sum.splits)
  obtain now wake later where clk: "clk 0 = (now, wake, later)" by (cases "clk 0")
  define tb' where "tb' = fst (consume now wake (frame_cost f) tb)"
  obtain s' r where tu: "reader_turn C (clk 0) h f tb s = (tb', s', r)"
    using Suc.prems(2)
    by (cases "dispatch C later h f (note_activity (sh_id h) s)") (simp add: reader_turn_def clk tb'_def)
  from Suc.prems(1) have r: "r = Inr ()" by (cases r) (simp_all add: f tu)
  with Suc.prems f tu have "reader C (\<lambda>i. clk (Suc i)) h n rest tb' s' = (t, None)" by simp
  from Suc.IH [OF this Suc.prems(2)] obtain fs rest' where ih:
    "get_n (\<lambda>r. read_frame r READ_LIMIT) n rest = Inr (fs, rest')" "length fs = n" "\<forall>f\<in>set fs. frame_cost f \<le> READ_LIMIT + 64"
    "\<forall>m. reader C (\<lambda>i. clk (Suc i)) h (n + m) rest tb' s'
       = reader C (\<lambda>i. clk (Suc (n + i))) h m rest' (spent (\<lambda>i. clk (Suc i)) fs tb') t" by auto
  with f tu r read_frame_cost [OF f] show ?case
    by (intro exI [of _ "f # fs"] exI [of _ rest']) (simp add: clk tb'_def)
qed simp

lemma spent_last:
  assumes "bucket_ok tb" "\<forall>f\<in>set fs. frame_cost f \<le> 2 ^ 53"
  shows "tb_last (spent clk fs tb) \<in>
    (case length fs of 0 \<Rightarrow> {tb_last tb} | Suc i \<Rightarrow> {fst (clk i), fst (snd (clk i))})"
  using assms
proof (induction fs arbitrary: clk tb)
  case (Cons f fs)
  obtain now wake later where clk: "clk 0 = (now, wake, later)" by (cases "clk 0")
  define tb' where "tb' = fst (consume now wake (frame_cost f) tb)"
  have f: "tb_rate tb \<noteq> 0" "frame_cost f \<le> 2 ^ 53" using Cons.prems by (simp_all add: bucket_ok_def)
  have "tb_last tb' \<in> {now, wake}" by (simp add: tb'_def consume_eq [OF f])
  with Cons.IH [OF consume_ok(1) [OF Cons.prems(1) f(2), of now wake, folded tb'_def], of "\<lambda>i. clk (Suc i)"] Cons.prems(2)
  show ?case by (cases fs) (simp_all add: clk flip: tb'_def)
qed simp

subsection \<open>The bound\<close>

text \<open>
  C18: While the reader of a client without mesh permission goes on, the frames it has taken from the
  stream, each charged with its packet and 64 bytes, amount to no more than the burst and the rate for the
  time elapsed until its last clock reading, up to the rounding of binary64 and half a nanosecond per
  frame. The clock does not go back and a sleep does not end early.
\<close>

theorem inbound_limited:
  assumes "reader C clk h n input (TokenBucket_new rate burst t0) s = (t, None)" "\<not> can_mesh h" "rate \<noteq> 0"
    and "get_n (\<lambda>r. read_frame r READ_LIMIT) n input = Inr (fs, rest)"
    and "punctual clk fs (TokenBucket_new rate burst t0)" and "tb = spent clk fs (TokenBucket_new rate burst t0)"
  shows "(\<forall>m. reader C clk h (n + m) input (TokenBucket_new rate burst t0) s
                = reader C (\<lambda>i. clk (n + i)) h m rest tb t) \<and>
    tb_last tb \<in> (case n of 0 \<Rightarrow> {t0} | Suc i \<Rightarrow> {fst (clk i), fst (snd (clk i))}) \<and>
    of_nat (sum_list (map frame_cost fs)) \<le> u64_as_f64 burst
      + u64_as_f64 rate * secs (tb_last tb - t0) * (1 + eps) ^ 4
      + of_nat n * (3 * u64_as_f64 burst * eps + u64_as_f64 rate * half_nano * (1 + eps) ^ 4)"
proof -
  let ?tb = "TokenBucket_new rate burst t0"
  from reader_still_reading [OF assms(1,2)] assms(4) have fs: "length fs = n" "\<forall>f\<in>set fs. frame_cost f \<le> READ_LIMIT + 64"
    "\<forall>m. reader C clk h (n + m) input ?tb s = reader C (\<lambda>i. clk (n + i)) h m rest tb t" by (auto simp: assms(6))
  have "READ_LIMIT + 64 \<le> 2 ^ 53" by (simp add: READ_LIMIT_def MAX_PACKET_SIZE_def KEY_LEN_def)
  with fs(2) have c: "\<forall>f\<in>set fs. frame_cost f \<le> 2 ^ 53" by (meson order_trans)
  have new: "tb_tokens ?tb = u64_as_f64 burst" "tb_rate ?tb = rate" "tb_last ?tb = t0" "tb_burst ?tb = u64_as_f64 burst"
    by (simp_all add: TokenBucket_new_def)
  note ok = bucket_ok_new [OF assms(3), of burst t0]
  note sp = spent_potential [OF ok c assms(5), folded assms(6), unfolded new slack_def fs(1)]
  then have "0 \<le> tb_tokens tb" by (simp add: bucket_ok_def)
  with sp have "of_nat (sum_list (map frame_cost fs)) \<le> u64_as_f64 burst
      + u64_as_f64 rate * secs (tb_last tb - t0) * (1 + eps) ^ 4
      + of_nat n * (3 * u64_as_f64 burst * eps + u64_as_f64 rate * half_nano * (1 + eps) ^ 4)" by linarith
  with fs(3) spent_last [OF ok c, of clk, folded assms(6), unfolded fs(1) new] show ?thesis by blast
qed

theorem inbound_limited_witness:
  "65 \<le> 50 + 15 * secs (tb_last (spent (\<lambda>_. (0, NANOS_PER_SEC, NANOS_PER_SEC)) [SendPacket (key_of 2) [42]]
      (TokenBucket_new 15 50 0))) * (1 + eps) ^ 4 + (3 * 50 * eps + 15 * half_nano * (1 + eps) ^ 4)"
proof -
  let ?clk = "\<lambda>i :: nat. (0 :: nat, NANOS_PER_SEC, NANOS_PER_SEC)"
  let ?f = "SendPacket (key_of 2) [42]"
  let ?in = "(frame_bytes ?f (as_bytes (key_of 2) @ [42]) @ [], UnexpectedEof)" and ?tb = "TokenBucket_new 15 50 0" and ?h = "the (heap demo 1)"
  have h: "\<not> can_mesh ?h" by code_simp
  have "decode (kind ?f) (as_bytes (key_of 2) @ [42]) = Inr (wire_normal ?f)"
    by (rule decode_payload) (simp_all add: key_of_def nodekey_ok_def payload_of_packets)
  then have f: "read_frame ?in READ_LIMIT = Inr (?f, ([], UnexpectedEof))"
    by (subst read_frame_bytes) (simp_all add: key_of_def READ_LIMIT_def del: kind.simps)
  then have g: "get_n (\<lambda>r. read_frame r READ_LIMIT) 1 ?in = Inr ([?f], ([], UnexpectedEof))" by simp
  have "snd (reader fifo ?clk ?h 1 ?in ?tb demo) = None" using f by (simp add: reader_turn_def dispatch_def)
  then have r: "reader fifo ?clk ?h 1 ?in ?tb demo = (fst (reader fifo ?clk ?h 1 ?in ?tb demo), None)"
    by (metis prod.collapse)
  have n: "f64_round 15 = 15" "f64_round 50 = 50" "f64_round 1 = 1"
    using f64.rnd_nat [of 15] f64.rnd_nat [of 50] f64.rnd_nat [of 1] by simp_all
  have b: "u64_as_f64 50 = 50" "u64_as_f64 15 = 15" by (simp_all add: u64_as_f64_def n)
  have "refilled 0 ?tb = 50" by (simp add: refilled_def TokenBucket_new_def b n)
  moreover have "from_secs_f64 1 = NANOS_PER_SEC"
    using rne_of_int [of "int NANOS_PER_SEC"] by (simp add: from_secs_f64_def)
  ultimately have "on_time 0 NANOS_PER_SEC (frame_cost ?f) ?tb"
    using consume_eq [of ?tb 65 0 NANOS_PER_SEC] by (simp add: on_time_def frame_cost_def TokenBucket_new_def b n)
  then have p: "punctual ?clk [?f] ?tb" by simp
  have fc: "frame_cost ?f = 65" by (simp add: frame_cost_def)
  have "(15 :: u64) \<noteq> 0" by simp
  from conjunct2 [OF conjunct2 [OF inbound_limited [OF r h this g p refl]]] show ?thesis
    by (simp only: b fc list.map sum_list.Cons sum_list.Nil of_nat_numeral of_nat_1 mult_1_left add_0_right diff_zero)
qed

end
