(* ===== verification/Derp_Io.thy ===== *)
theory Derp_Io
  imports Derp_Codec Derp_Text
begin

text \<open>
  Reading from a connection. The bytes of a TCP connection arrive in chunks; \<open>AsyncRead::read\<close> returns
  a part of what has arrived and \<open>read_exact\<close> of tokio loops over it. The rest of the development reads
  from plain byte streams: here the two are related, also through \<open>PrefixedIo\<close> of \<open>src/src/http.rs\<close>,
  which puts the bytes read beyond the HTTP request back in front of the connection.
\<close>

subsection \<open>A connection\<close>

text \<open>The chunks in the order they arrive, and how the connection ends.\<close>

type_synonym network = "bytes list \<times> IoErrorKind"

definition net_read :: "nat \<Rightarrow> network \<Rightarrow> IoErrorKind + (bytes \<times> network)" where
  "net_read k nw =
     (case fst nw of
        [] \<Rightarrow> if snd nw = UnexpectedEof then Inr ([], nw) else Inl (snd nw)
      | c # cs \<Rightarrow> Inr (take k c, (if length c \<le> k then cs else drop k c # cs, snd nw)))"

definition net_ok :: "network \<Rightarrow> bool" where
  "net_ok nw \<longleftrightarrow> [] \<notin> set (fst nw)"

definition net_content :: "network \<Rightarrow> bytes" where
  "net_content nw = concat (fst nw)"

text \<open>\<open>AsyncReadExt::read_exact\<close>: read until the buffer is full; an empty read is the end.\<close>

function read_full :: "(nat \<Rightarrow> 's \<Rightarrow> IoErrorKind + (bytes \<times> 's)) \<Rightarrow> nat \<Rightarrow> 's \<Rightarrow> IoErrorKind + (bytes \<times> 's)" where
  "read_full read n s =
     (if n = 0 then Inr ([], s)
      else case read n s of
             Inl e \<Rightarrow> Inl e
           | Inr (bs, s) \<Rightarrow>
               (if bs = [] then Inl UnexpectedEof
                else try_res (read_full read (n - length bs) s) (\<lambda>(rest, s). Inr (bs @ rest, s))))"
  by pat_completeness auto
termination by (relation "measure (\<lambda>(read, n, s). n)") auto

declare read_full.simps [simp del]

text \<open>\<open>read_frame\<close> on such a connection: the code is generic in the reader.\<close>

definition read_frame_from :: "(nat \<Rightarrow> 's \<Rightarrow> IoErrorKind + (bytes \<times> 's)) \<Rightarrow> 's \<Rightarrow> nat \<Rightarrow> ProtocolError + (Frame \<times> 's)" where
  "read_frame_from read reader max_len =
     (case read_full read FRAME_HEADER_LEN reader of
        Inl e \<Rightarrow> Inl (Io e)
      | Inr (header, reader) \<Rightarrow>
          (let len = unat (u32_from_slice (drop 1 header)) in
           if len > max_len then Inl (FrameTooLarge len)
           else case read_full read len reader of
                  Inl e \<Rightarrow> Inl (Io e)
                | Inr (payload, reader) \<Rightarrow> try_res (decode (header ! 0) payload) (\<lambda>f. Inr (f, reader))))"

subsection \<open>The prefixed connection\<close>

record 's PrefixedIo =
  px_prefix :: bytes
  px_position :: nat
  px_inner :: 's

definition PrefixedIo_new :: "bytes \<Rightarrow> 's \<Rightarrow> 's PrefixedIo" where
  "PrefixedIo_new pre io = \<lparr>px_prefix = pre, px_position = 0, px_inner = io\<rparr>"

definition px_read :: "(nat \<Rightarrow> 's \<Rightarrow> IoErrorKind + (bytes \<times> 's)) \<Rightarrow> nat \<Rightarrow> 's PrefixedIo
    \<Rightarrow> IoErrorKind + (bytes \<times> 's PrefixedIo)" where
  "px_read read remaining p =
     (let pos = px_position p in
      if pos < length (px_prefix p) then
        (let data = drop pos (px_prefix p);
             n = min (length data) remaining
         in Inr (take n data, p\<lparr>px_position := pos + n\<rparr>))
      else
        (case read remaining (px_inner p) of
           Inl e \<Rightarrow> Inl e
         | Inr (bs, io) \<Rightarrow> Inr (bs, p\<lparr>px_inner := io\<rparr>)))"

subsection \<open>Sources of bytes\<close>

text \<open>
  What a reader relies on: a read returns some of the bytes that are left, at least one when there is
  one and there is room, and reports the end as the connection ended.
\<close>

locale byte_source =
  fixes read :: "nat \<Rightarrow> 's \<Rightarrow> IoErrorKind + (bytes \<times> 's)"
    and ok :: "'s \<Rightarrow> bool" and content :: "'s \<Rightarrow> bytes" and ending :: "'s \<Rightarrow> IoErrorKind"
  assumes read_some: "ok s \<Longrightarrow> content s \<noteq> [] \<Longrightarrow> 0 < k \<Longrightarrow>
      \<exists>bs s'. read k s = Inr (bs, s') \<and> bs \<noteq> [] \<and> length bs \<le> k \<and> content s = bs @ content s' \<and>
        ending s' = ending s \<and> ok s'"
    and read_end: "ok s \<Longrightarrow> content s = [] \<Longrightarrow> 0 < k \<Longrightarrow>
      (case read k s of
         Inl e \<Rightarrow> e = ending s
       | Inr (bs, s') \<Rightarrow> bs = [] \<and> ending s = UnexpectedEof)"
begin

lemma read_full_exact:
  "ok s \<Longrightarrow>
   (case read_full read n s of
      Inl e \<Rightarrow> read_exact n (content s, ending s) = Inl (Io e)
    | Inr (bs, s') \<Rightarrow> ok s' \<and> read_exact n (content s, ending s) = Inr (bs, (content s', ending s')))"
proof (induction n arbitrary: s rule: less_induct)
  case (less n)
  show ?case
  proof (cases "n = 0")
    case True
    then show ?thesis using less.prems by (simp add: read_full.simps read_exact_def)
  next
    case False
    show ?thesis
    proof (cases "content s = []")
      case True
      with read_end [OF less.prems True, of n] False show ?thesis
        by (auto simp: read_full.simps [of read n] read_exact_def split: sum.splits)
    next
      case ne: False
      from read_some [OF less.prems ne, of n] False obtain bs s1 where
        r: "read n s = Inr (bs, s1)" "bs \<noteq> []" "length bs \<le> n" "content s = bs @ content s1" "ending s1 = ending s" "ok s1"
        by auto
      from r(2) False have "n - length bs < n" by simp
      from less.IH [OF this r(6)] r False show ?thesis
        by (auto simp: read_full.simps [of read n] read_exact_def split: sum.splits if_splits)
    qed
  qed
qed

lemma read_frame_refines:
  assumes "ok s"
  shows "case read_frame_from read s max_len of
      Inl e \<Rightarrow> read_frame (content s, ending s) max_len = Inl e
    | Inr (f, s') \<Rightarrow> ok s' \<and> read_frame (content s, ending s) max_len = Inr (f, (content s', ending s'))"
proof (cases "read_full read FRAME_HEADER_LEN s")
  case (Inl e)
  with read_full_exact [OF assms, of FRAME_HEADER_LEN] show ?thesis
    by (simp add: read_frame_from_def read_frame_def)
next
  case (Inr hs)
  obtain h s1 where h: "hs = (h, s1)" by (cases hs)
  with read_full_exact [OF assms, of FRAME_HEADER_LEN] Inr have
    s1: "ok s1" "read_exact FRAME_HEADER_LEN (content s, ending s) = Inr (h, (content s1, ending s1))" by auto
  from read_full_exact [OF s1(1), of "unat (u32_from_slice (drop 1 h))"] s1(2) Inr h show ?thesis
    by (auto simp: read_frame_from_def read_frame_def Let_def try_res_Inr try_res_Inl split: sum.splits)
qed

text \<open>A source behind a prefix is a source.\<close>

lemma prefixed_source:
  "byte_source (px_read read) (\<lambda>p. ok (px_inner p))
     (\<lambda>p. drop (px_position p) (px_prefix p) @ content (px_inner p)) (\<lambda>p. ending (px_inner p))"
proof
  fix p :: "'s PrefixedIo" and k :: nat
  assume p: "ok (px_inner p)" "drop (px_position p) (px_prefix p) @ content (px_inner p) \<noteq> []" "0 < k"
  show "\<exists>bs p'. px_read read k p = Inr (bs, p') \<and> bs \<noteq> [] \<and> length bs \<le> k \<and>
      drop (px_position p) (px_prefix p) @ content (px_inner p) =
        bs @ drop (px_position p') (px_prefix p') @ content (px_inner p') \<and>
      ending (px_inner p') = ending (px_inner p) \<and> ok (px_inner p')"
  proof (cases "px_position p < length (px_prefix p)")
    case True
    let ?d = "drop (px_position p) (px_prefix p)"
    have "drop (px_position p + min (length ?d) k) (px_prefix p) = drop (min (length ?d) k) ?d"
      by (simp add: add.commute)
    then have "?d = take (min (length ?d) k) ?d @ drop (px_position p + min (length ?d) k) (px_prefix p)"
      by (simp only: append_take_drop_id)
    with True p show ?thesis by (auto simp: px_read_def Let_def)
  next
    case False
    with p have "content (px_inner p) \<noteq> []" by simp
    from read_some [OF p(1) this p(3)] False show ?thesis by (auto simp: px_read_def)
  qed
next
  fix p :: "'s PrefixedIo" and k :: nat
  assume p: "ok (px_inner p)" "drop (px_position p) (px_prefix p) @ content (px_inner p) = []" "0 < k"
  then have "\<not> px_position p < length (px_prefix p)" "content (px_inner p) = []" by auto
  with read_end [OF p(1) _ p(3)] show "case px_read read k p of
       Inl e \<Rightarrow> e = ending (px_inner p)
     | Inr (bs, p') \<Rightarrow> bs = [] \<and> ending (px_inner p) = UnexpectedEof"
    by (auto simp: px_read_def split: sum.splits)
qed

end

interpretation net: byte_source net_read net_ok net_content snd
proof
  fix nw :: network and k :: nat
  assume nw: "net_ok nw" "net_content nw \<noteq> []" "0 < k"
  then obtain c cs where c: "fst nw = c # cs" "c \<noteq> []" by (cases "fst nw") (auto simp: net_ok_def net_content_def)
  have "net_ok (if length c \<le> k then cs else drop k c # cs, snd nw)" using nw(1) c by (auto simp: net_ok_def)
  moreover have "net_content nw = take k c @ net_content (if length c \<le> k then cs else drop k c # cs, snd nw)"
    by (simp add: net_content_def c(1))
  ultimately show "\<exists>bs nw'. net_read k nw = Inr (bs, nw') \<and> bs \<noteq> [] \<and> length bs \<le> k \<and>
      net_content nw = bs @ net_content nw' \<and> snd nw' = snd nw \<and> net_ok nw'"
    using nw(3) c by (intro exI [of _ "take k c"] exI [of _ "(if length c \<le> k then cs else drop k c # cs, snd nw)"])
      (simp add: net_read_def)
next
  fix nw :: network and k :: nat
  assume "net_ok nw" "net_content nw = []"
  then have "fst nw = []" by (cases "fst nw") (auto simp: net_ok_def net_content_def)
  then show "case net_read k nw of Inl e \<Rightarrow> e = snd nw | Inr (bs, nw') \<Rightarrow> bs = [] \<and> snd nw = UnexpectedEof"
    by (simp add: net_read_def)
qed

text \<open>The stream a session reads: what is left of the prefix, then the connection.\<close>

definition px_stream :: "network PrefixedIo \<Rightarrow> stream" where
  "px_stream p = (drop (px_position p) (px_prefix p) @ net_content (px_inner p), snd (px_inner p))"

interpretation prefixed: byte_source "px_read net_read" "\<lambda>p. net_ok (px_inner p)" "\<lambda>p. fst (px_stream p)"
    "\<lambda>p. snd (px_stream p)"
  using net.prefixed_source by (simp add: px_stream_def)

end
