(* ===== verification/Derp_Http.thy ===== *)
theory Derp_Http
  imports Derp_Session Derp_Io
begin

text \<open>
  The HTTP front end (\<open>src/src/http.rs\<close>): reading a request, the upgrade of a connection to DERP, plain
  or over a WebSocket, and the other endpoints. Parameters are the crates: \<open>httparse\<close> on the request
  head (\<open>http_lib\<close>), \<open>sha1\<close> and \<open>base64\<close> for the WebSocket key (record \<open>ws_lib\<close>); the messages of a
  WebSocket come from \<open>tungstenite\<close>.
\<close>

subsection \<open>Requests\<close>

definition MAX_HTTP_HEADER :: nat where
  "MAX_HTTP_HEADER = 32768"

record Request =
  rq_method :: string
  rq_path :: string
  rq_headers :: "string \<rightharpoonup> string"

text \<open>The result of \<open>httparse::Request::parse\<close>.\<close>

record http_parsed =
  hp_complete :: bool
  hp_method :: "string option"
  hp_path :: "string option"
  hp_headers :: "(string \<times> bytes) list"

type_synonym http_lib = "bytes \<Rightarrow> unit + http_parsed"

definition head_end :: bytes where
  "head_end = str_bytes (crlf @ crlf)"

text \<open>\<open>windows(n).position(..)\<close>\<close>

fun window_pos :: "'a list \<Rightarrow> 'a list \<Rightarrow> nat option" where
  "window_pos pat [] = None"
| "window_pos pat (x # xs) =
     (if starts_with pat (x # xs) then Some 0 else map_option Suc (window_pos pat xs))"

function read_head :: "(nat \<Rightarrow> 's \<Rightarrow> IoErrorKind + (bytes \<times> 's)) \<Rightarrow> bytes \<Rightarrow> 's \<Rightarrow> ServerError + (bytes \<times> nat \<times> 's)" where
  "read_head read buffer io =
     (case window_pos head_end buffer of
        Some pos \<Rightarrow> Inr (buffer, pos + 4, io)
      | None \<Rightarrow>
          (if length buffer \<ge> MAX_HTTP_HEADER then Inl (SeBail ''HTTP header too large'')
           else case read 4096 io of
                  Inl e \<Rightarrow> Inl (SeIo e)
                | Inr (chunk, io) \<Rightarrow>
                    (if chunk = [] then Inl (SeBail ''EOF before HTTP request'')
                     else read_head read (buffer @ chunk) io)))"
  by pat_completeness auto
termination
  by (relation "measure (\<lambda>(read, buffer, io). MAX_HTTP_HEADER - length buffer)")
    (auto simp flip: length_greater_0_conv)

declare read_head.simps [simp del]

text \<open>The headers as a map; a later header of the same name replaces an earlier one.\<close>

definition header_map :: "(string \<times> bytes) list \<Rightarrow> string \<rightharpoonup> string" where
  "header_map hs = map_of (rev (map (\<lambda>(name, value). (to_ascii_lowercase name, trim (bytes_str (utf8_lossy value)))) hs))"

definition read_request :: "http_lib \<Rightarrow> (nat \<Rightarrow> 's \<Rightarrow> IoErrorKind + (bytes \<times> 's)) \<Rightarrow> 's
    \<Rightarrow> ServerError + (Request \<times> bytes \<times> 's)" where
  "read_request P read io =
     try_res (read_head read [] io) (\<lambda>(buffer, header_end, io).
       case P (take header_end buffer) of
         Inl _ \<Rightarrow> Inl SeHttp
       | Inr p \<Rightarrow>
           (if \<not> hp_complete p then Inl (SeBail ''incomplete HTTP request'')
            else case hp_method p of
                   None \<Rightarrow> Inl (SeBail ''missing method'')
                 | Some m \<Rightarrow>
                     (case hp_path p of
                        None \<Rightarrow> Inl (SeBail ''missing path'')
                      | Some path \<Rightarrow>
                          Inr (\<lparr>rq_method = m, rq_path = path, rq_headers = header_map (hp_headers p)\<rparr>,
                               drop header_end buffer, io))))"

subsection \<open>Responses\<close>

fun header_lines :: "(string \<times> string) list \<Rightarrow> string" where
  "header_lines [] = []"
| "header_lines ((k, v) # hs) = k @ '': '' @ v @ crlf @ header_lines hs"

definition response_head :: "nat \<Rightarrow> string \<Rightarrow> (string \<times> string) list \<Rightarrow> bytes \<Rightarrow> string" where
  "response_head status reason headers body =
     ''HTTP/1.1 '' @ show_nat status @ '' '' @ reason @ crlf @ ''Content-Length: '' @ show_nat (length body) @ crlf @
     ''Connection: close'' @ crlf @ header_lines headers @ crlf"

record response =
  rs_status :: nat
  rs_reason :: string
  rs_headers :: "(string \<times> string) list"
  rs_body :: bytes

definition write_response :: "'w sink \<Rightarrow> 'w \<Rightarrow> response \<Rightarrow> IoErrorKind + 'w" where
  "write_response K w r =
     (case write_all K w (str_bytes (response_head (rs_status r) (rs_reason r) (rs_headers r) (rs_body r))) of
        Inl e \<Rightarrow> Inl e
      | Inr w \<Rightarrow>
          (case (if rs_body r \<noteq> [] then write_all K w (rs_body r) else Inr w) of
             Inl e \<Rightarrow> Inl e
           | Inr w \<Rightarrow> flush K w))"

definition is_ascii_alphanumeric :: "char \<Rightarrow> bool" where
  "is_ascii_alphanumeric c \<longleftrightarrow>
     (let n = of_char c :: nat in 48 \<le> n \<and> n \<le> 57 \<or> 65 \<le> n \<and> n \<le> 90 \<or> 97 \<le> n \<and> n \<le> 122)"

definition valid_challenge :: "char \<Rightarrow> bool" where
  "valid_challenge c \<longleftrightarrow> is_ascii_alphanumeric c \<or> c \<in> {CHR ''.'', CHR ''-'', CHR ''_'', CHR '':''}"

definition upgrade_required :: response where
  "upgrade_required = \<lparr>rs_status = 426, rs_reason = ''Upgrade Required'', rs_headers = [(''Content-Type'', ''text/plain'')],
     rs_body = str_bytes (''DERP requires connection upgrade'' @ newline)\<rparr>"

definition generate_204 :: "Request \<Rightarrow> response" where
  "generate_204 request =
     (let headers = [(''Cache-Control'', ''no-cache, no-store, must-revalidate, no-transform, max-age=0'')];
          headers = (case rq_headers request ''x-tailscale-challenge'' of
                       Some challenge \<Rightarrow>
                         (if length challenge \<le> 64 \<and> list_all valid_challenge challenge
                          then headers @ [(''X-Tailscale-Response'', ''response '' @ challenge)] else headers)
                     | None \<Rightarrow> headers)
      in \<lparr>rs_status = 204, rs_reason = ''No Content'', rs_headers = headers, rs_body = []\<rparr>)"

definition bootstrap_dns :: "Config \<Rightarrow> (string \<Rightarrow> bytes option) \<Rightarrow> response" where
  "bootstrap_dns cfg read_file =
     (let body = (case bootstrap_dns_file cfg of
                    Some path \<Rightarrow> (case read_file path of Some b \<Rightarrow> b | None \<Rightarrow> str_bytes (''{}'' @ newline))
                  | None \<Rightarrow> str_bytes (''{}'' @ newline))
      in \<lparr>rs_status = 200, rs_reason = ''OK'',
          rs_headers = [(''Content-Type'', ''application/json''), (''Access-Control-Allow-Origin'', ''*'')], rs_body = body\<rparr>)"

definition debug_check :: "'ch Relay \<Rightarrow> response" where
  "debug_check s =
     \<lparr>rs_status = 200, rs_reason = ''OK'', rs_headers = [(''Content-Type'', ''text/plain'')],
      rs_body = str_bytes (''derp-rs consistency check okay; '' @ show_nat (client_count s) @ '' sessions, '' @
                  show_nat (public_peer_count s) @ '' peers'' @ newline)\<rparr>"

definition index_page :: string where
  "index_page = ''<!doctype html><html><body><h1>DERP</h1><p>High-performance Tailscale DERP relay implemented in Rust.</p></body></html>''"

text \<open>The match on the path of a request that is not an upgrade.\<close>

definition plain_response :: "Config \<Rightarrow> (string \<Rightarrow> bytes option) \<Rightarrow> Request \<Rightarrow> 'ch Relay \<Rightarrow> response" where
  "plain_response cfg read_file request s =
     (let clean_path = hd (split_on (CHR ''?'') (rq_path request)) in
      if clean_path = ''/derp/probe'' \<or> clean_path = ''/derp/latency-check'' then
        (if rq_method request = ''GET'' \<or> rq_method request = ''HEAD''
         then \<lparr>rs_status = 200, rs_reason = ''OK'', rs_headers = [(''Access-Control-Allow-Origin'', ''*'')], rs_body = []\<rparr>
         else \<lparr>rs_status = 405, rs_reason = ''Method Not Allowed'', rs_headers = [],
               rs_body = str_bytes (''bogus probe method'' @ newline)\<rparr>)
      else if starts_with ''/derp/'' clean_path then upgrade_required
      else if clean_path = ''/generate_204'' then generate_204 request
      else if clean_path = ''/bootstrap-dns'' then bootstrap_dns cfg read_file
      else if clean_path = ''/metrics'' \<or> clean_path = ''/debug/vars'' then
        \<lparr>rs_status = 200, rs_reason = ''OK'', rs_headers = [(''Content-Type'', ''text/plain; version=0.0.4'')],
         rs_body = str_bytes (prometheus (metrics s))\<rparr>
      else if clean_path = ''/debug/check'' then debug_check s
      else if clean_path = ''/robots.txt'' then
        \<lparr>rs_status = 200, rs_reason = ''OK'', rs_headers = [(''Content-Type'', ''text/plain'')],
         rs_body = str_bytes (''User-agent: *'' @ newline @ ''Disallow: /'' @ newline)\<rparr>
      else if clean_path = ''/'' then
        \<lparr>rs_status = 200, rs_reason = ''OK'', rs_headers = [(''Content-Type'', ''text/html; charset=utf-8'')],
         rs_body = str_bytes (index_page @ newline)\<rparr>
      else
        \<lparr>rs_status = 404, rs_reason = ''Not Found'', rs_headers = [(''Content-Type'', ''text/plain'')],
         rs_body = str_bytes (''not found'' @ newline)\<rparr>)"

subsection \<open>WebSockets\<close>

record ws_lib =
  sha1 :: "bytes \<Rightarrow> bytes"
  b64 :: "bytes \<Rightarrow> string"

definition WS_GUID :: string where
  "WS_GUID = ''258EAFA5-E914-47DA-95CA-C5AB0DC85B11''"

definition ws_response :: "ws_lib \<Rightarrow> string \<Rightarrow> string" where
  "ws_response L key =
     ''HTTP/1.1 101 Switching Protocols'' @ crlf @ ''Upgrade: websocket'' @ crlf @ ''Connection: Upgrade'' @ crlf @
     ''Sec-WebSocket-Accept: '' @ b64 L (sha1 L (str_bytes key @ str_bytes WS_GUID)) @ crlf @
     ''Sec-WebSocket-Protocol: derp'' @ crlf @ crlf"

datatype WsMessage = Binary bytes | WsText bytes | WsPing bytes | WsPong bytes | WsClose

text \<open>
  What the loop of \<open>bridge_websocket\<close> waits for: the next message (\<open>None\<close> at the end of the stream), or
  bytes from the session (none at its end). \<open>sent\<close> says whether writing on succeeds.
\<close>

datatype bridge_event =
    FromWs "(unit + WsMessage) option" bool
  | FromSession bytes bool

text \<open>The bytes for the session, the messages for the client, and the result once the loop ends.\<close>

fun bridge_websocket :: "bridge_event list \<Rightarrow> bytes \<times> WsMessage list \<times> (ServerError + unit) option" where
  "bridge_websocket [] = ([], [], None)"
| "bridge_websocket (FromWs (Some (Inr (Binary data))) sent # es) =
     (if sent then (case bridge_websocket es of (i, out, r) \<Rightarrow> (data @ i, out, r))
      else ([], [], Some (Inl (SeIo BrokenPipe))))"
| "bridge_websocket (FromWs (Some (Inr (WsPing data))) sent # es) =
     (if sent then (case bridge_websocket es of (i, out, r) \<Rightarrow> (i, WsPong data # out, r))
      else ([], [], Some (Inl SeHttp)))"
| "bridge_websocket (FromWs (Some (Inr WsClose)) sent # es) = ([], [], Some (Inr ()))"
| "bridge_websocket (FromWs None sent # es) = ([], [], Some (Inr ()))"
| "bridge_websocket (FromWs (Some (Inr (WsText data))) sent # es) = bridge_websocket es"
| "bridge_websocket (FromWs (Some (Inr (WsPong data))) sent # es) = bridge_websocket es"
| "bridge_websocket (FromWs (Some (Inl e)) sent # es) = ([], [], Some (Inl SeHttp))"
| "bridge_websocket (FromSession bs sent # es) =
     (if bs = [] then ([], [], Some (Inr ()))
      else if sent then (case bridge_websocket es of (i, out, r) \<Rightarrow> (i, Binary bs # out, r))
      else ([], [], Some (Inl SeHttp)))"

text \<open>
  \<open>serve_stream\<close> dropped at one of its suspension points, as \<open>select!\<close> does with the branch that has not
  finished: in the handshake (\<open>progress = None\<close>) or after some turns of its halves. What it had
  registered stays; its receiver is dropped. A session that had ended by then has nothing left to drop.
\<close>

definition drop_session ::
    "box_lib \<Rightarrow> json_lib \<Rightarrow> unit hex_lib \<Rightarrow> admission \<Rightarrow> 'ch mpsc \<Rightarrow> 'w sink \<Rightarrow> (string \<Rightarrow> bool)
       \<Rightarrow> bytes \<Rightarrow> session_act list option \<Rightarrow> nat
       \<Rightarrow> DerpServer \<Rightarrow> SocketAddr \<Rightarrow> bool \<Rightarrow> stream \<Rightarrow> 'w \<Rightarrow> 'ch Relay \<Rightarrow> 'ch Relay" where
  "drop_session B J H post C K late nonce progress now srv remote nideal input w s =
     (case progress of
        None \<Rightarrow> s
      | Some acts \<Rightarrow>
          (case serve_stream B J H post C K late nonce acts now srv remote nideal input w s of
             (s, StillRunning sid) \<Rightarrow> hang_up C (SessionChan sid) s
           | (s, SessionEnded _) \<Rightarrow> s))"

text \<open>
  \<open>websocket_derp\<close>. The session reads from and writes to an in-memory pipe (sink \<open>Kd\<close>) that the bridge
  serves; when the bridge ends first the session is dropped at \<open>progress\<close>.
\<close>

definition websocket_derp ::
    "box_lib \<Rightarrow> json_lib \<Rightarrow> unit hex_lib \<Rightarrow> ws_lib \<Rightarrow> admission \<Rightarrow> 'ch mpsc \<Rightarrow> 'v sink \<Rightarrow> 'w sink \<Rightarrow> (string \<Rightarrow> bool)
       \<Rightarrow> bytes \<Rightarrow> session_act list \<Rightarrow> nat \<Rightarrow> bridge_event list \<Rightarrow> session_act list option
       \<Rightarrow> DerpServer \<Rightarrow> SocketAddr \<Rightarrow> Request \<Rightarrow> 'v \<Rightarrow> 'w \<Rightarrow> 'ch Relay \<Rightarrow> 'ch Relay \<times> session_status" where
  "websocket_derp B J H L post C K Kd late nonce acts now events progress srv remote request w pipe s =
     (case rq_headers request ''sec-websocket-key'' of
        None \<Rightarrow> (s, SessionEnded (Inl (SeBail ''missing WebSocket key'')))
      | Some key \<Rightarrow>
      case write_all K w (str_bytes (ws_response L key)) of
        Inl e \<Rightarrow> (s, SessionEnded (Inl (SeIo e)))
      | Inr w \<Rightarrow>
      case flush K w of
        Inl e \<Rightarrow> (s, SessionEnded (Inl (SeIo e)))
      | Inr w \<Rightarrow>
          (let s = upd_metrics (\<lambda>m. m\<lparr>websocket_accepts := inc (websocket_accepts m) 1\<rparr>) s;
               nideal = (rq_headers request ''ideal-node'' \<noteq> None);
               (input, out, ended) = bridge_websocket events
           in case ended of
                Some r \<Rightarrow> (drop_session B J H post C Kd late nonce progress now srv remote nideal (input, UnexpectedEof) pipe s, SessionEnded r)
              | None \<Rightarrow> serve_stream B J H post C Kd late nonce acts now srv remote nideal (input, UnexpectedEof) pipe s))"

subsection \<open>A connection\<close>

definition upgrade_head :: "unit hex_lib \<Rightarrow> NodeKey \<Rightarrow> string" where
  "upgrade_head H key =
     ''HTTP/1.1 101 Switching Protocols'' @ crlf @ ''Upgrade: DERP'' @ crlf @ ''Connection: Upgrade'' @ crlf @
     ''Derp-Version: 2'' @ crlf @ ''Derp-Public-Key: '' @ to_hex H key @ crlf @ crlf"

definition upgrade_of :: "Request \<Rightarrow> string" where
  "upgrade_of request =
     (case rq_headers request ''upgrade'' of Some v \<Rightarrow> to_ascii_lowercase v | None \<Rightarrow> [])"

definition is_websocket :: "Request \<Rightarrow> bool" where
  "is_websocket request \<longleftrightarrow>
     upgrade_of request = ''websocket'' \<and>
     (case rq_headers request ''sec-websocket-protocol'' of
        Some v \<Rightarrow> list_ex (\<lambda>p. trim p = ''derp'') (split_on (CHR '','') v)
      | None \<Rightarrow> False)"

text \<open>The native upgrade: the response unless the client asked for a fast start, then the session.\<close>

definition native_derp ::
    "box_lib \<Rightarrow> json_lib \<Rightarrow> unit hex_lib \<Rightarrow> admission \<Rightarrow> 'ch mpsc \<Rightarrow> 'w sink \<Rightarrow> (string \<Rightarrow> bool)
       \<Rightarrow> bytes \<Rightarrow> session_act list \<Rightarrow> nat
       \<Rightarrow> DerpServer \<Rightarrow> SocketAddr \<Rightarrow> Request \<Rightarrow> bytes \<Rightarrow> network \<Rightarrow> 'w \<Rightarrow> 'ch Relay \<Rightarrow> 'ch Relay \<times> session_status" where
  "native_derp B J H post C K late nonce acts now srv remote request leftover io w s =
     (let fast = (rq_headers request ''derp-fast-start'' = Some ''1'');
          greeted = (if fast then Inr w
                     else case public B (srv_key srv) of
                            None \<Rightarrow> Inl SePanic
                          | Some pk \<Rightarrow>
                              (case write_all K w (str_bytes (upgrade_head H pk)) of
                                 Inl e \<Rightarrow> Inl (SeIo e)
                               | Inr w \<Rightarrow> (case flush K w of Inl e \<Rightarrow> Inl (SeIo e) | Inr w \<Rightarrow> Inr w)))
      in case greeted of
           Inl e \<Rightarrow> (s, SessionEnded (Inl e))
         | Inr w \<Rightarrow>
             serve_stream B J H post C K late nonce acts now srv remote
               (rq_headers request ''ideal-node'' \<noteq> None) (px_stream (PrefixedIo_new leftover io)) w s)"

definition serve_connection ::
    "http_lib \<Rightarrow> (string \<Rightarrow> bytes option) \<Rightarrow> box_lib \<Rightarrow> json_lib \<Rightarrow> unit hex_lib \<Rightarrow> ws_lib \<Rightarrow> admission \<Rightarrow> 'ch mpsc \<Rightarrow> 'v sink
       \<Rightarrow> (string \<Rightarrow> bool) \<Rightarrow> bytes \<Rightarrow> session_act list \<Rightarrow> nat
       \<Rightarrow> (bridge_event list \<times> session_act list option \<times> 'v) \<Rightarrow> DerpServer \<Rightarrow> SocketAddr \<Rightarrow> network \<Rightarrow> 'v \<Rightarrow> 'ch Relay
       \<Rightarrow> 'ch Relay \<times> session_status" where
  "serve_connection P read_file B J H L post C K late nonce acts now ws srv remote io w s =
     (case read_request P net_read io of
        Inl e \<Rightarrow> (s, SessionEnded (Inl e))
      | Inr (request, leftover, io) \<Rightarrow>
          if rq_path request = ''/derp'' then
            (if is_websocket request then
               (case ws of (events, progress, pipe) \<Rightarrow>
                  websocket_derp B J H L post C K K late nonce acts now events progress srv remote request w pipe s)
             else if upgrade_of request \<noteq> ''derp'' \<and> upgrade_of request \<noteq> ''websocket'' then
               (s, SessionEnded (case write_response K w upgrade_required of Inl e \<Rightarrow> Inl (SeIo e) | Inr w \<Rightarrow> Inr ()))
             else native_derp B J H post C K late nonce acts now srv remote request leftover io w s)
          else
            (s, SessionEnded (case write_response K w (plain_response (config srv) read_file request s) of
                   Inl e \<Rightarrow> Inl (SeIo e)
                 | Inr w \<Rightarrow> Inr ())))"

end
