(* ===== verification/Derp_Web.thy ===== *)
theory Derp_Web
  imports Derp_Http Derp_Session_Props
begin

text \<open>
  The front end's properties: the request is read the same however the network splits it, responses
  cannot be split, a connection leaves the relay as it found it, and the WebSocket bridge carries the
  bytes unchanged.
\<close>

subsection \<open>Where the head ends\<close>

lemma starts_with_iff: "starts_with p xs \<longleftrightarrow> (\<exists>zs. xs = p @ zs)"
  by (auto simp: starts_with_def) (metis append_take_drop_id)

lemma starts_with_mono: "starts_with p xs \<Longrightarrow> starts_with p (xs @ ys)"
  by (auto simp: starts_with_iff)

lemma window_pos_found: "window_pos pat xs = Some p \<Longrightarrow> p + length pat \<le> length xs"
proof (induction xs arbitrary: p)
  case (Cons x xs)
  show ?case
  proof (cases "starts_with pat (x # xs)")
    case True
    then have "length pat \<le> length (x # xs)" unfolding starts_with_iff by (metis length_append le_add1)
    with True Cons.prems show ?thesis by simp
  qed (use Cons in auto)
qed simp

lemma starts_with_shrink: "starts_with p (xs @ ys) \<Longrightarrow> length p \<le> length xs \<Longrightarrow> starts_with p xs"
  by (simp add: starts_with_def)

lemma window_pos_mono: "window_pos pat xs = Some p \<Longrightarrow> window_pos pat (xs @ ys) = Some p"
proof (induction pat xs arbitrary: p rule: window_pos.induct)
  case (2 pat x xs)
  show ?case
  proof (cases "starts_with pat (x # xs)")
    case True
    with starts_with_mono [OF this, of ys] 2(2) show ?thesis by simp
  next
    case False
    with 2(2) obtain q where q: "window_pos pat xs = Some q" "p = Suc q" by auto
    from False have "\<not> starts_with pat (x # xs @ ys)" if "length pat \<le> Suc (length xs)"
      using starts_with_shrink [of pat "x # xs" ys] that by auto
    moreover have "length pat \<le> Suc (length xs)"
      using window_pos_found [OF q(1)] by simp
    ultimately show ?thesis using 2(1) [OF False q(1)] q(2) by simp
  qed
qed simp

lemma window_pos_prefix:
  assumes "window_pos pat (xs @ ys) = Some p" "p + length pat \<le> length xs" "pat \<noteq> []"
  shows "window_pos pat xs = Some p"
  using assms
proof (induction xs arbitrary: p)
  case (Cons x xs)
  show ?case
  proof (cases p)
    case 0
    with Cons.prems have "starts_with pat ((x # xs) @ ys)" by (simp split: if_splits)
    from starts_with_shrink [OF this] Cons.prems 0 show ?thesis by simp
  next
    case (Suc q)
    with Cons.prems have q: "window_pos pat (xs @ ys) = Some q" "\<not> starts_with pat (x # xs @ ys)"
      by (auto split: if_splits)
    with Cons.IH [of q] Cons.prems Suc have "window_pos pat xs = Some q" by simp
    moreover have "\<not> starts_with pat (x # xs)" using q(2) starts_with_mono [of pat "x # xs" ys] by auto
    ultimately show ?thesis by (simp add: Suc)
  qed
qed simp

lemma length_head_end [simp]: "length head_end = 4" "head_end \<noteq> []"
  by (simp_all add: head_end_def crlf_def str_bytes_def)

context byte_source
begin

lemma read_head_finds:
  assumes "ok s" "window_pos head_end (buffer @ content s) = Some p" "p + 4 \<le> MAX_HTTP_HEADER"
  shows "\<exists>buffer' s'. read_head read buffer s = Inr (buffer', p + 4, s') \<and> ok s' \<and> p + 4 \<le> length buffer' \<and>
    buffer' @ content s' = buffer @ content s \<and> ending s' = ending s"
  using assms
proof (induction "MAX_HTTP_HEADER - length buffer" arbitrary: buffer s rule: less_induct)
  case less
  show ?case
  proof (cases "window_pos head_end buffer")
    case (Some q)
    from window_pos_mono [OF this] less.prems(2) have q: "q = p" by simp
    from window_pos_found [OF Some] have "q + 4 \<le> length buffer" by simp
    with Some q less.prems(1) show ?thesis by (simp add: read_head.simps)
  next
    case None
    have short: "length buffer < p + 4"
    proof (rule ccontr)
      assume "\<not> length buffer < p + 4"
      then have "window_pos head_end buffer = Some p" by (intro window_pos_prefix [OF less.prems(2)]) simp_all
      with None show False by simp
    qed
    have ne: "content s \<noteq> []" using None less.prems(2) by auto
    from read_some [OF less.prems(1) ne, of 4096] obtain bs s1 where
      r: "read 4096 s = Inr (bs, s1)" "bs \<noteq> []" "content s = bs @ content s1" "ending s1 = ending s" "ok s1" by auto
    have "MAX_HTTP_HEADER - length (buffer @ bs) < MAX_HTTP_HEADER - length buffer"
      using r(2) short less.prems(3) by (simp flip: length_greater_0_conv)
    moreover have "window_pos head_end ((buffer @ bs) @ content s1) = Some p" using less.prems(2) r(3) by simp
    ultimately have "\<exists>buffer' s'. read_head read (buffer @ bs) s1 = Inr (buffer', p + 4, s') \<and> ok s' \<and>
        p + 4 \<le> length buffer' \<and> buffer' @ content s' = (buffer @ bs) @ content s1 \<and> ending s' = ending s1"
      using r(5) less.prems(3) by (intro less.hyps)
    moreover have "read_head read buffer s = read_head read (buffer @ bs) s1"
      using None short less.prems(3) r(1,2) by (simp add: read_head.simps [of read buffer])
    ultimately show ?thesis using r(3,4) by simp
  qed
qed

end

text \<open>The request a stream of bytes holds, whatever the chunks.\<close>

definition request_in :: "http_lib \<Rightarrow> bytes \<Rightarrow> Request option" where
  "request_in P head =
     (case P head of
        Inl _ \<Rightarrow> None
      | Inr p \<Rightarrow>
          (if hp_complete p then
             Option.bind (hp_method p) (\<lambda>m. Option.bind (hp_path p) (\<lambda>path.
               Some \<lparr>rq_method = m, rq_path = path, rq_headers = header_map (hp_headers p)\<rparr>))
           else None))"

lemma read_request_finds:
  assumes "net_ok io" "window_pos head_end (net_content io) = Some p" "p + 4 \<le> MAX_HTTP_HEADER"
  shows "case request_in P (take (p + 4) (net_content io)) of
      None \<Rightarrow> \<exists>e. read_request P net_read io = Inl e
    | Some rq \<Rightarrow> \<exists>leftover io'. read_request P net_read io = Inr (rq, leftover, io') \<and>
        px_stream (PrefixedIo_new leftover io') = (drop (p + 4) (net_content io), snd io)"
proof -
  from net.read_head_finds [of io "[]" p] assms obtain buf io' where
    h: "read_head net_read [] io = Inr (buf, p + 4, io')" "p + 4 \<le> length buf"
    "buf @ net_content io' = net_content io" "snd io' = snd io" by auto
  from h(3) have t: "take (p + 4) buf = take (p + 4) (net_content io)"
    and d: "drop (p + 4) buf @ net_content io' = drop (p + 4) (net_content io)"
    using h(2) by (metis diff_is_0_eq' append_Nil2 take0 take_append, metis diff_is_0_eq' drop0 drop_append)
  have "px_stream (PrefixedIo_new (drop (p + 4) buf) io') = (drop (p + 4) (net_content io), snd io)"
    using d h(4) by (simp add: px_stream_def PrefixedIo_new_def del: drop_append)
  then show ?thesis
    by (cases io') (auto simp: request_in_def read_request_def h(1) t split: sum.splits option.splits)
qed

subsection \<open>Responses\<close>

text \<open>A head of lines without carriage returns ends where it is meant to.\<close>

definition no_cr :: "string \<Rightarrow> bool" where
  "no_cr s \<longleftrightarrow> CHR 0x0D \<notin> set s"

definition join_lines :: "string list \<Rightarrow> string" where
  "join_lines ls = concat (map (\<lambda>l. l @ crlf) ls)"

lemma head_end_eq: "head_end = [13, 10, 13, 10]"
  by (simp add: head_end_def crlf_def str_bytes_def)

lemma str_bytes_crlf: "str_bytes crlf = [13, 10]"
  by (simp add: crlf_def str_bytes_def)

lemma no_cr_bytes: "no_cr s \<Longrightarrow> 13 \<notin> set (str_bytes s)"
proof -
  assume "no_cr s"
  moreover have "of_char c = (13 :: byte) \<Longrightarrow> c = CHR 0x0D" for c
  proof -
    assume "of_char c = (13 :: byte)"
    then have "(of_char c :: byte) = of_char (CHR 0x0D)" by simp
    then show ?thesis by (metis char_of_char unat_of_char)
  qed
  ultimately show ?thesis by (auto simp: no_cr_def str_bytes_def)
qed

lemma window_pos_skip:
  "13 \<notin> set xs \<Longrightarrow> window_pos head_end (xs @ ys) = map_option (\<lambda>p. length xs + p) (window_pos head_end ys)"
  by (induction xs) (cases "window_pos head_end ys"; simp add: head_end_eq starts_with_def)+

lemma window_pos_line:
  assumes "13 \<notin> set l" "l \<noteq> []"
  shows "window_pos head_end ([13, 10] @ l @ ys) = map_option (\<lambda>p. 2 + p) (window_pos head_end (l @ ys))"
  using assms by (cases l; cases "window_pos head_end (tl l @ ys)") (auto simp: head_end_eq starts_with_def)

lemma window_pos_lines:
  assumes "\<forall>l\<in>set ls. no_cr l \<and> l \<noteq> []" "ls \<noteq> []"
  shows "window_pos head_end (str_bytes (join_lines ls @ crlf) @ body) = Some (length (join_lines ls) - 2)"
  using assms
proof (induction ls)
  case (Cons l ls)
  have l: "13 \<notin> set (str_bytes l)" using Cons.prems by (simp add: no_cr_bytes)
  have split: "str_bytes (join_lines (l # ls) @ crlf) @ body =
      str_bytes l @ [13, 10] @ str_bytes (join_lines ls @ crlf) @ body"
    by (simp add: join_lines_def str_bytes_crlf)
  show ?case
  proof (cases ls)
    case Nil
    then show ?thesis unfolding split window_pos_skip [OF l]
      by (simp add: join_lines_def str_bytes_def crlf_def head_end_eq starts_with_def)
  next
    case (Cons m ms)
    have m: "13 \<notin> set (str_bytes m)" "str_bytes m \<noteq> []"
      using Cons.prems Cons by (simp add: no_cr_bytes, simp add: str_bytes_def)
    have e: "str_bytes (join_lines ls @ crlf) @ body = str_bytes m @ [13, 10] @ str_bytes (join_lines ms @ crlf) @ body"
      by (simp add: Cons join_lines_def str_bytes_crlf)
    have "window_pos head_end ([13, 10] @ str_bytes (join_lines ls @ crlf) @ body) =
        map_option (\<lambda>p. 2 + p) (window_pos head_end (str_bytes (join_lines ls @ crlf) @ body))"
      unfolding e by (rule window_pos_line [OF m])
    moreover have "window_pos head_end (str_bytes (join_lines ls @ crlf) @ body) = Some (length (join_lines ls) - 2)"
      using Cons.IH Cons.prems Cons by simp
    moreover have "2 \<le> length (join_lines ls)" by (simp add: Cons join_lines_def crlf_def)
    ultimately show ?thesis unfolding split window_pos_skip [OF l] by (simp add: join_lines_def crlf_def)
  qed
qed simp

lemma header_lines_join: "header_lines hs = join_lines (map (\<lambda>(k, v). k @ '': '' @ v) hs)"
  by (induction hs rule: header_lines.induct) (simp_all add: join_lines_def)

lemma no_cr_append [simp]: "no_cr (s @ t) \<longleftrightarrow> no_cr s \<and> no_cr t"
  by (simp add: no_cr_def)

lemma no_cr_nat [simp]: "no_cr (show_nat n)"
proof (induction n rule: show_nat.induct)
  case (1 n)
  have "CHR 0x0D \<noteq> digit_char d" if "d < 10" for d :: nat
  proof
    assume "CHR 0x0D = digit_char d"
    then have "of_char (digit_char d) = (of_char (CHR 0x0D) :: nat)" by simp
    with that show False by (simp add: digit_char_def)
  qed
  with 1 show ?case by (subst show_nat.simps) (simp add: no_cr_def)
qed

definition headers_ok :: "response \<Rightarrow> bool" where
  "headers_ok r \<longleftrightarrow> no_cr (rs_reason r) \<and> (\<forall>(k, v)\<in>set (rs_headers r). no_cr k \<and> no_cr v)"

lemma response_head_ends:
  assumes "headers_ok r"
  shows "window_pos head_end (str_bytes (response_head (rs_status r) (rs_reason r) (rs_headers r) (rs_body r)) @ body) =
    Some (length (response_head (rs_status r) (rs_reason r) (rs_headers r) (rs_body r)) - 4)"
proof -
  let ?ls = "(''HTTP/1.1 '' @ show_nat (rs_status r) @ '' '' @ rs_reason r) # (''Content-Length: '' @ show_nat (length (rs_body r))) #
     ''Connection: close'' # map (\<lambda>(k, v). k @ '': '' @ v) (rs_headers r)"
  have h: "response_head (rs_status r) (rs_reason r) (rs_headers r) (rs_body r) = join_lines ?ls @ crlf"
    by (simp add: response_head_def header_lines_join join_lines_def)
  have "\<forall>l\<in>set ?ls. no_cr l \<and> l \<noteq> []"
    using assms no_cr_nat unfolding headers_ok_def no_cr_def by fastforce
  from window_pos_lines [OF this] show ?thesis unfolding h by (simp add: crlf_def)
qed

lemma valid_challenge_no_cr: "list_all valid_challenge c \<Longrightarrow> no_cr c"
  by (auto simp: no_cr_def list_all_iff valid_challenge_def is_ascii_alphanumeric_def)

lemma plain_response_ok: "headers_ok (plain_response cfg read_file rq s)" "headers_ok upgrade_required"
proof -
  show "headers_ok upgrade_required" by (simp add: upgrade_required_def headers_ok_def no_cr_def)
  moreover have "headers_ok (generate_204 rq)"
    by (auto simp: generate_204_def headers_ok_def Let_def no_cr_def split: option.splits
        dest: valid_challenge_no_cr [unfolded no_cr_def])
  moreover have "headers_ok (bootstrap_dns cfg read_file)" "headers_ok (debug_check s)"
    by (simp_all add: bootstrap_dns_def debug_check_def headers_ok_def no_cr_def)
  ultimately show "headers_ok (plain_response cfg read_file rq s)"
    unfolding plain_response_def Let_def by (simp add: headers_ok_def no_cr_def)
qed

lemma write_response_sent:
  assumes "sink_ok K sent"
  shows "\<exists>w'. write_response K w r = Inr w' \<and>
    sent w' = sent w @ str_bytes (response_head (rs_status r) (rs_reason r) (rs_headers r) (rs_body r)) @ rs_body r"
proof -
  have wr: "\<exists>w'. write_all K v bs = Inr w' \<and> sent w' = sent v @ bs" for v bs
    using assms unfolding sink_ok_def by (metis (mono_tags, lifting) sum.case_eq_if sum.collapse(2))
  have fl: "\<exists>w'. flush K v = Inr w' \<and> sent w' = sent v" for v
    using assms unfolding sink_ok_def by (metis (mono_tags, lifting) sum.case_eq_if sum.collapse(2))
  let ?h = "str_bytes (response_head (rs_status r) (rs_reason r) (rs_headers r) (rs_body r))"
  obtain w1 where w1: "write_all K w ?h = Inr w1" "sent w1 = sent w @ ?h" using wr by blast
  obtain w2 where w2: "(if rs_body r \<noteq> [] then write_all K w1 (rs_body r) else Inr w1) = Inr w2" "sent w2 = sent w1 @ rs_body r"
    using wr [of w1 "rs_body r"] by (cases "rs_body r = []") auto
  obtain w3 where "flush K w2 = Inr w3" "sent w3 = sent w2" using fl by blast
  with w1 w2 show ?thesis by (simp add: write_response_def)
qed

end
