(* ===== verification/Derp_Web_Props.thy ===== *)
theory Derp_Web_Props
  imports Derp_Web
begin

text \<open>
  Properties of the front end as a whole, with a reference instance of the request parser.
\<close>

subsection \<open>Connections and the relay\<close>

lemma ws_count_step:
  "relay_step C s (upd_metrics (\<lambda>m. m\<lparr>websocket_accepts := inc (websocket_accepts m) 1\<rparr>) s)"
  by (rule relay_step.counter) (simp_all add: balance_def)

text \<open>A session that is dropped after its registration stays registered.\<close>

lemma drop_session_stays:
  assumes "reachable C s" "ids_left s"
    and run: "serve_stream B J H post C K late nonce acts now srv remote nideal input w s = (u, StillRunning sid)"
    and t: "t = drop_session B J H post C K late nonce (Some acts) now srv remote nideal input w s"
  shows "reachable C t" "live_set t = insert sid (live_set s)" "sid \<notin> live_set s" "t = hang_up C (SessionChan sid) u"
proof -
  note r = serve_reach [OF assms(1,2) run]
  show tv: "t = hang_up C (SessionChan sid) u" by (simp add: t drop_session_def run)
  have "reachable C u" using r by blast
  then show "reachable C t" unfolding tv using hang_up_step by (rule reach_steps)
  show "live_set t = insert sid (live_set s)" "sid \<notin> live_set s" using r by (simp_all add: tv after_session_def)
qed

lemma drop_session_cases:
  assumes "t = drop_session B J H post C K late nonce progress now srv remote nideal input w s"
  obtains "progress = None" "t = s"
  | acts r where "progress = Some acts" "serve_stream B J H post C K late nonce acts now srv remote nideal input w s = (t, SessionEnded r)"
  | acts u sid where "progress = Some acts"
      "serve_stream B J H post C K late nonce acts now srv remote nideal input w s = (u, StillRunning sid)"
  using assms by (cases progress) (auto simp: drop_session_def split: prod.splits session_status.splits)

text \<open>What a connection leaves: what its session leaves, or the session of a WebSocket that was dropped.\<close>

definition after_connection :: "bridge_event list \<Rightarrow> session_act list option \<Rightarrow> SessionId set \<Rightarrow> SessionId set \<Rightarrow> session_status \<Rightarrow> bool" where
  "after_connection events progress L L' r \<longleftrightarrow> after_session L L' r \<or>
     (snd (snd (bridge_websocket events)) \<noteq> None \<and> progress \<noteq> None \<and> L \<subset> L')"

lemma websocket_reach:
  assumes reach: "reachable C s" and left: "ids_left s"
    and run: "websocket_derp B J H L post C K Kd late nonce acts now events progress srv remote rq w pipe s = (t, r)"
  shows "reachable C t \<and> after_connection events progress (live_set s) (live_set t) r"
proof -
  let ?s = "upd_metrics (\<lambda>m. m\<lparr>websocket_accepts := inc (websocket_accepts m) 1\<rparr>) s"
  have s1: "reachable C ?s" by (rule reach.more [OF reach ws_count_step])
  have left1: "ids_left ?s" using left by simp
  obtain i out ended where b: "bridge_websocket events = (i, out, ended)" by (cases "bridge_websocket events")
  let ?ni = "rq_headers rq ''ideal-node'' \<noteq> None"
  consider r' where "t = s" "r = SessionEnded r'"
    | r' where "ended = Some r'" "r = SessionEnded r'" "t = drop_session B J H post C Kd late nonce progress now srv remote ?ni (i, UnexpectedEof) pipe ?s"
    | "ended = None" "serve_stream B J H post C Kd late nonce acts now srv remote ?ni (i, UnexpectedEof) pipe ?s = (t, r)"
    using run by (auto simp: websocket_derp_def Let_def b split: option.splits sum.splits)
  then show ?thesis
  proof cases
    case 1
    then show ?thesis using reach by (simp add: after_connection_def after_session_def)
  next
    case (2 r')
    from 2(3) show ?thesis
    proof (cases rule: drop_session_cases)
      case (2 as e)
      from serve_reach [OF s1 left1 2(2)] show ?thesis using \<open>r = SessionEnded r'\<close> by (simp add: after_connection_def after_session_def)
    next
      case (3 as u sid)
      note d = drop_session_stays [OF s1 left1 3(2) 2(3) [unfolded 3(1)]]
      from d 2(1) 3(1) b show ?thesis by (auto simp: after_connection_def)
    qed (use s1 2(2) in \<open>simp add: after_connection_def after_session_def\<close>)
  next
    case 3
    from serve_reach [OF s1 left1 3(2)] show ?thesis by (simp add: after_connection_def)
  qed
qed

lemma native_reach:
  assumes "reachable C s" "ids_left s"
    and "native_derp B J H post C K late nonce acts now srv remote rq leftover io w s = (t, r)"
  shows "reachable C t \<and> after_session (live_set s) (live_set t) r"
proof -
  have "(\<exists>r'. t = s \<and> r = SessionEnded r') \<or> (\<exists>w'. serve_stream B J H post C K late nonce acts now srv remote
      (rq_headers rq ''ideal-node'' \<noteq> None) (px_stream (PrefixedIo_new leftover io)) w' s = (t, r))"
    using assms(3) by (auto simp: native_derp_def Let_def split: if_splits option.splits sum.splits)
  then show ?thesis using assms(1) by (auto simp: after_session_def [of _ _ "SessionEnded _"] dest: serve_reach [OF assms(1,2)])
qed

lemma connection_reach:
  assumes "reachable C s" "ids_left s"
    and "serve_connection P rf B J H L post C K late nonce acts now (events, progress, pipe) srv remote io w s = (t, r)"
  shows "reachable C t \<and> after_connection events progress (live_set s) (live_set t) r"
proof -
  have "(\<exists>r'. t = s \<and> r = SessionEnded r') \<or>
      (\<exists>rq. websocket_derp B J H L post C K K late nonce acts now events progress srv remote rq w pipe s = (t, r)) \<or>
      (\<exists>rq leftover io'. native_derp B J H post C K late nonce acts now srv remote rq leftover io' w s = (t, r))"
    using assms(3) by (auto simp: serve_connection_def split: sum.splits if_splits)
  then show ?thesis
  proof (elim disjE exE conjE)
    fix rq assume "websocket_derp B J H L post C K K late nonce acts now events progress srv remote rq w pipe s = (t, r)"
    then show ?thesis by (rule websocket_reach [OF assms(1,2)])
  next
    fix rq leftover io' assume "native_derp B J H post C K late nonce acts now srv remote rq leftover io' w s = (t, r)"
    from native_reach [OF assms(1,2) this] show ?thesis by (simp add: after_connection_def)
  qed (use assms(1) in \<open>simp add: after_connection_def after_session_def\<close>)
qed

subsection \<open>The WebSocket bridge\<close>

text \<open>The reference: the payloads in their order, up to the event that ends the bridge.\<close>

fun goes_on :: "bridge_event \<Rightarrow> bool" where
  "goes_on (FromWs (Some (Inr (Binary _))) sent) = sent"
| "goes_on (FromWs (Some (Inr (WsPing _))) sent) = sent"
| "goes_on (FromWs (Some (Inr (WsText _))) sent) = True"
| "goes_on (FromWs (Some (Inr (WsPong _))) sent) = True"
| "goes_on (FromWs _ sent) = False"
| "goes_on (FromSession bs sent) \<longleftrightarrow> bs \<noteq> [] \<and> sent"

fun from_client :: "bridge_event \<Rightarrow> bytes" where
  "from_client (FromWs (Some (Inr (Binary data))) _) = data"
| "from_client _ = []"

fun from_server :: "bridge_event \<Rightarrow> bytes" where
  "from_server (FromSession bs _) = bs"
| "from_server _ = []"

fun payload :: "WsMessage \<Rightarrow> bytes" where
  "payload (Binary data) = data"
| "payload _ = []"

lemma bridge_equiv:
  "bridge_websocket es = (i, out, r) \<Longrightarrow>
   i = concat (map from_client (takeWhile goes_on es)) \<and>
   concat (map payload out) = concat (map from_server (takeWhile goes_on es)) \<and>
   (r = None \<longleftrightarrow> list_all goes_on es)"
  by (induction es arbitrary: i out r rule: bridge_websocket.induct) (auto split: if_splits prod.splits)

subsection \<open>Properties\<close>

text \<open>
  C20: However the network splits a connection's bytes, and whatever part of them was read along with the
  HTTP request, a frame read through the prefixed connection is the frame the plain byte stream holds,
  the error is the same error, and the rest of the connection is the rest of the stream.
\<close>

theorem frames_through_prefix:
  assumes "net_ok (px_inner p)"
  shows "case read_frame_from (px_read net_read) p max_len of
      Inl e \<Rightarrow> read_frame (px_stream p) max_len = Inl e
    | Inr (f, p') \<Rightarrow> net_ok (px_inner p') \<and> read_frame (px_stream p) max_len = Inr (f, px_stream p')"
  using prefixed.read_frame_refines [OF assms, of max_len] by (simp only: prod.collapse)

theorem frames_through_prefix_witness:
  "read_frame (px_stream (PrefixedIo_new [7, 0, 0] ([[0, 1], [200, 5]], UnexpectedEof))) 64 =
     Inr (NotePreferred True, ([5], UnexpectedEof))"
proof -
  let ?p = "PrefixedIo_new [7, 0, 0] ([[0, 1], [200, 5]], UnexpectedEof)"
  have ok: "net_ok (px_inner ?p)" by code_simp
  have "map_sum id (\<lambda>(f, p). (f, px_stream p)) (read_frame_from (px_read net_read) ?p 64) =
      Inr (NotePreferred True, ([5], UnexpectedEof))" by code_simp
  with frames_through_prefix [OF ok, of 64] show ?thesis by (auto split: sum.splits)
qed

text \<open>
  C21: A request is read the same however the network splits it: when the head ends within the limit, the
  server sees exactly the request that the head's bytes hold, or refuses them, and the session that
  follows reads exactly the bytes after the head.
\<close>

theorem request_read_whole:
  assumes "net_ok io" "window_pos head_end (net_content io) = Some p" "p + 4 \<le> MAX_HTTP_HEADER"
  shows "case request_in P (take (p + 4) (net_content io)) of
      None \<Rightarrow> \<exists>e. read_request P net_read io = Inl e
    | Some rq \<Rightarrow> \<exists>leftover io'. read_request P net_read io = Inr (rq, leftover, io') \<and>
        px_stream (PrefixedIo_new leftover io') = (drop (p + 4) (net_content io), snd io)"
  using assms by (rule read_request_finds)

definition parse_ref :: http_lib where
  "parse_ref head = Inr \<lparr>hp_complete = True, hp_method = Some ''GET'', hp_path = Some ''/derp'',
     hp_headers = [(''Upgrade'', str_bytes ''DERP''), (''Derp-Fast-Start'', str_bytes '' 1'')]\<rparr>"

theorem request_read_whole_witness:
  "\<exists>rq leftover io'. read_request parse_ref net_read ([[71, 13], [10, 13], [10, 1, 2], [3]], UnexpectedEof) = Inr (rq, leftover, io') \<and>
     rq_headers rq ''derp-fast-start'' = Some ''1'' \<and>
     px_stream (PrefixedIo_new leftover io') = ([1, 2, 3], UnexpectedEof)"
proof -
  let ?io = "([[71, 13], [10, 13], [10, 1, 2], [3]], UnexpectedEof) :: network"
  let ?rq = "\<lparr>rq_method = ''GET'', rq_path = ''/derp'', rq_headers = header_map [(''Upgrade'', str_bytes ''DERP''), (''Derp-Fast-Start'', str_bytes '' 1'')]\<rparr>"
  have a: "net_ok ?io" "window_pos head_end (net_content ?io) = Some 1" "drop (1 + 4) (net_content ?io) = [1, 2, 3]" by code_simp+
  have h: "header_map [(''Upgrade'', str_bytes ''DERP''), (''Derp-Fast-Start'', str_bytes '' 1'')] ''derp-fast-start'' = Some ''1''"
  proof -
    have "to_ascii_lowercase ''Derp-Fast-Start'' = ''derp-fast-start''" "utf8_lossy (str_bytes '' 1'') = str_bytes '' 1''"
      "trim '' 1'' = ''1''" by code_simp+
    then show ?thesis by (simp add: header_map_def)
  qed
  have "request_in parse_ref (take (1 + 4) (net_content ?io)) = Some ?rq" by (simp add: request_in_def parse_ref_def)
  with request_read_whole [OF a(1,2), of parse_ref] a(3) h show ?thesis by (auto simp: MAX_HTTP_HEADER_def)
qed

text \<open>
  C22: No response can be split: whatever the request, on a connection that takes its writes the server
  writes one head and one body, the first empty line is the end of that head, and the head announces
  the length of that body.
\<close>

theorem responses_framed:
  assumes "sink_ok K sent" "r = plain_response cfg read_file rq s \<or> r = upgrade_required"
  shows "\<exists>w' before after. write_response K w r = Inr w' \<and>
    (let head = str_bytes (before @ ''Content-Length: '' @ show_nat (length (rs_body r)) @ crlf @ after)
     in sent w' = sent w @ head @ rs_body r \<and> window_pos head_end (head @ rs_body r) = Some (length head - 4))"
proof -
  have ok: "headers_ok r" using assms(2) plain_response_ok by auto
  let ?h = "response_head (rs_status r) (rs_reason r) (rs_headers r) (rs_body r)"
  from write_response_sent [OF assms(1), of w r] obtain w' where
    w': "write_response K w r = Inr w'" "sent w' = sent w @ str_bytes ?h @ rs_body r" by blast
  have "\<exists>before after. ?h = before @ ''Content-Length: '' @ show_nat (length (rs_body r)) @ crlf @ after"
    unfolding response_head_def
    by (intro exI [of _ "''HTTP/1.1 '' @ show_nat (rs_status r) @ '' '' @ rs_reason r @ crlf"]
        exI [of _ "''Connection: close'' @ crlf @ header_lines (rs_headers r) @ crlf"]) simp
  then obtain before after where h: "?h = before @ ''Content-Length: '' @ show_nat (length (rs_body r)) @ crlf @ after" by blast
  from response_head_ends [OF ok, of "rs_body r"] w' show ?thesis unfolding h by (auto simp: Let_def)
qed

theorem responses_framed_witness:
  "\<exists>w'. write_response byte_sink [] upgrade_required = Inr w' \<and> window_pos head_end w' \<noteq> None"
proof -
  have "sink_ok byte_sink (\<lambda>w. w)" by (simp add: sink_ok_def byte_sink_def)
  from responses_framed [OF this disjI2 [OF refl], of "[]"] show ?thesis by (auto simp: Let_def)
qed

text \<open>
  C19: Whatever comes in over a connection (a refused or malformed request, any endpoint, a native or a
  WebSocket session), the relay is in a reachable state afterwards, and it has exactly the sessions it
  had before, unless a WebSocket ended before its registered session did.
\<close>

theorem connection_leaves_nothing:
  assumes "reachable C s" "ids_left s"
    and "serve_connection P rf B J H L post C K late nonce acts now (events, progress, pipe) srv remote io w s = (t, SessionEnded r)"
    and "snd (snd (bridge_websocket events)) = None \<or> progress = None"
  shows "reachable C t \<and> live_set t = live_set s"
  using connection_reach [OF assms(1-3)] assms(4) by (auto simp: after_connection_def after_session_def)

text \<open>A native client that starts fast, proves its key in the bytes after its request and hangs up.\<close>

definition fast_request :: Request where
  "fast_request = \<lparr>rq_method = ''GET'', rq_path = ''/derp'',
     rq_headers = header_map [(''Upgrade'', str_bytes ''DERP''), (''Derp-Fast-Start'', str_bytes '' 1'')]\<rparr>"

lemma fast_headers: "upgrade_of fast_request = ''derp''" "rq_headers fast_request ''derp-fast-start'' = Some ''1''"
  "rq_headers fast_request ''ideal-node'' = None" "rq_path fast_request = ''/derp''"
proof -
  have "to_ascii_lowercase ''Derp-Fast-Start'' = ''derp-fast-start''" "to_ascii_lowercase ''Upgrade'' = ''upgrade''"
    "to_ascii_lowercase ''DERP'' = ''derp''"
    "utf8_lossy (str_bytes '' 1'') = str_bytes '' 1''" "utf8_lossy (str_bytes ''DERP'') = str_bytes ''DERP''"
    "trim '' 1'' = ''1''" "trim ''DERP'' = ''DERP''" by code_simp+
  then show "upgrade_of fast_request = ''derp''" "rq_headers fast_request ''derp-fast-start'' = Some ''1''"
    "rq_headers fast_request ''ideal-node'' = None" "rq_path fast_request = ''/derp''"
    by (simp_all add: fast_request_def header_map_def upgrade_of_def)
qed

theorem connection_leaves_nothing_witness:
  "\<exists>t r. serve_connection parse_ref (\<lambda>_. None) open_box json_ref hex_ref \<lparr>sha1 = (\<lambda>b. b), b64 = bytes_str\<rparr>
     (\<lambda>_ _. NoResponse) fifo byte_sink (\<lambda>_. False) (replicate 24 4) [Reads (0, 0, 0)] 0 ([], None, [])
     demo_server (ep_of 7) ([[71, 13], [10, 13], 10 # hello (key_of 5)], UnexpectedEof) [] demo = (t, SessionEnded r) \<and>
     live_set t = live_set demo"
proof -
  let ?io = "([[71, 13], [10, 13], 10 # hello (key_of 5)], UnexpectedEof) :: network"
  let ?run = "serve_connection parse_ref (\<lambda>_. None) open_box json_ref hex_ref \<lparr>sha1 = (\<lambda>b. b), b64 = bytes_str\<rparr>
     (\<lambda>_ _. NoResponse) fifo byte_sink (\<lambda>_. False) (replicate 24 4) [Reads (0, 0, 0)] 0 ([], None, [])
     demo_server (ep_of 7) ?io [] demo"
  have k: "nodekey_ok (key_of 5)" by (simp add: key_of_def nodekey_ok_def)
  have left: "ids_left demo" by code_simp
  have c: "net_content ?io = [71, 13, 10, 13, 10] @ hello (key_of 5)" by (simp add: net_content_def)
  have "net_ok ?io" by (simp add: net_ok_def)
  moreover have "window_pos head_end (net_content ?io) = Some 1"
    unfolding c by (rule window_pos_mono) (simp add: head_end_eq starts_with_def)
  ultimately obtain leftover io' where rq: "read_request parse_ref net_read ?io = Inr (fast_request, leftover, io')"
    "px_stream (PrefixedIo_new leftover io') = (hello (key_of 5), UnexpectedEof)"
    using read_request_finds [of ?io 1 parse_ref] by (auto simp: c request_in_def parse_ref_def MAX_HTTP_HEADER_def fast_request_def)
  have "read_frame ([], UnexpectedEof) READ_LIMIT = Inl (Io UnexpectedEof)" by (simp add: read_frame_def read_exact_def)
  then obtain t r where t: "?run = (t, SessionEnded r)"
    using hello_served [OF k reachable_relay_inv [OF demo_reachable] left, where acts = "[Reads (0, 0, 0)]" and rest = "[]" and e = UnexpectedEof
        and post = "\<lambda>_ _. NoResponse" and C = fifo and now = 0 and remote = "ep_of 7" and nideal = False]
    by (auto simp: session_body_def serve_connection_def rq native_derp_def is_websocket_def fast_headers)
  from connection_leaves_nothing [OF demo_reachable left t] t show ?thesis by auto
qed

text \<open>
  C34: A WebSocket client that closes its connection leaks its session: the bridge returns first, the
  session is dropped where it waits, and the code that unregisters it never runs. The client stays
  registered and counted; its queue has no receiver any more, so whatever is sent to it is lost.
\<close>

theorem websocket_close_leaks:
  assumes "mpsc_ok C pend room" "reachable C s" "ids_left s" "sink_ok K sent"
    and "rq_headers rq ''sec-websocket-key'' = Some wskey" "bridge_websocket events = (input, out, Some ended)"
    and "serve_stream B J H post C Kd late nonce progress now srv remote (rq_headers rq ''ideal-node'' \<noteq> None) (input, UnexpectedEof) pipe
      (upd_metrics (\<lambda>m. m\<lparr>websocket_accepts := inc (websocket_accepts m) 1\<rparr>) s) = (u, StillRunning sid)"
    and "websocket_derp B J H L post C K Kd late nonce acts now events (Some progress) srv remote rq w pipe s = (t, r)"
  shows "r = SessionEnded ended \<and> live_set t = insert sid (live_set s) \<and> sid \<notin> live_set s \<and>
    current_clients (metrics t) = current_clients (metrics s) + 1 \<and> boxes pend room t (SessionChan sid) = ([], 0)"
proof -
  let ?s = "upd_metrics (\<lambda>m. m\<lparr>websocket_accepts := inc (websocket_accepts m) 1\<rparr>) s"
  from assms(4) obtain w1 where w1: "write_all K w (str_bytes (ws_response L wskey)) = Inr w1"
    unfolding sink_ok_def by (metis (mono_tags, lifting) sum.case_eq_if sum.collapse(2))
  from assms(4) obtain w2 where w2: "flush K w1 = Inr w2"
    unfolding sink_ok_def by (metis (mono_tags, lifting) sum.case_eq_if sum.collapse(2))
  have t: "t = drop_session B J H post C Kd late nonce (Some progress) now srv remote (rq_headers rq ''ideal-node'' \<noteq> None)
      (input, UnexpectedEof) pipe ?s" "r = SessionEnded ended"
    using assms(8) by (simp_all add: websocket_derp_def assms(5,6) w1 w2 Let_def)
  have s1: "reachable C ?s" by (rule reach.more [OF assms(2) ws_count_step])
  have "ids_left ?s" using assms(3) by simp
  note d = drop_session_stays [OF s1 this assms(7) t(1)]
  have fin: "finite (live_set s)" by (simp add: live_set_def)
  have "current_clients (metrics t) = of_nat (card (live_set t))" "current_clients (metrics s) = of_nat (card (live_set s))"
    using reachable_relay_inv [OF d(1)] reachable_relay_inv [OF assms(2)]
    by (simp_all add: relay_inv_def gauge_inv_def client_count_card)
  moreover have "card (live_set t) = Suc (card (live_set s))" using d(2,3) fin by simp
  moreover have "boxes pend room t (SessionChan sid) = ([], 0)"
    using d(4) assms(1) by (auto simp: boxes_def hang_up_def mpsc_ok_def split: option.splits)
  ultimately show ?thesis using d t(2) by simp
qed

theorem websocket_close_leaks_witness:
  "\<exists>t r sid. websocket_derp open_box json_ref hex_ref \<lparr>sha1 = (\<lambda>b. b), b64 = bytes_str\<rparr> (\<lambda>_ _. NoResponse) fifo byte_sink
      byte_sink (\<lambda>_. False) (replicate 24 4) [] 0
      [FromWs (Some (Inr (Binary (hello (key_of 5))))) True, FromWs (Some (Inr WsClose)) True] (Some []) demo_server (ep_of 7)
      \<lparr>rq_method = ''GET'', rq_path = ''/derp'', rq_headers = [''sec-websocket-key'' \<mapsto> ''x'']\<rparr> [] [] demo = (t, r) \<and>
    live_set t = insert sid (live_set demo) \<and> sid \<notin> live_set demo"
proof -
  let ?rq = "\<lparr>rq_method = ''GET'', rq_path = ''/derp'', rq_headers = [''sec-websocket-key'' \<mapsto> ''x'']\<rparr>"
  let ?es = "[FromWs (Some (Inr (Binary (hello (key_of 5))))) True, FromWs (Some (Inr WsClose)) True]"
  let ?s = "upd_metrics (\<lambda>m. m\<lparr>websocket_accepts := inc (websocket_accepts m) 1\<rparr>) demo"
  let ?run = "websocket_derp open_box json_ref hex_ref \<lparr>sha1 = (\<lambda>b. b), b64 = bytes_str\<rparr> (\<lambda>_ _. NoResponse) fifo byte_sink
      byte_sink (\<lambda>_. False) (replicate 24 4) [] 0 ?es (Some []) demo_server (ep_of 7) ?rq [] [] demo"
  obtain t r where t: "?run = (t, r)" by fastforce
  have k: "nodekey_ok (key_of 5)" by (simp add: key_of_def nodekey_ok_def)
  have sink: "sink_ok byte_sink (\<lambda>w. w)" by (simp add: sink_ok_def byte_sink_def)
  have left: "ids_left demo" by code_simp
  then have left1: "ids_left ?s" by simp
  have inv: "relay_inv ?s" by (rule reachable_relay_inv [OF reach.more [OF demo_reachable ws_count_step]])
  have b: "bridge_websocket ?es = (hello (key_of 5) @ [], [], Some (Inr ()))" by simp
  have h: "rq_headers ?rq ''sec-websocket-key'' = Some ''x''" by simp
  from hello_served [OF k inv left1, where acts = "[]" and rest = "[]" and e = UnexpectedEof and post = "\<lambda>_ _. NoResponse"
      and C = fifo and now = 0 and remote = "ep_of 7" and nideal = "rq_headers ?rq ''ideal-node'' \<noteq> None"] obtain u sid where
    a: "serve_stream open_box json_ref hex_ref (\<lambda>_ _. NoResponse) fifo byte_sink (\<lambda>_. False) (replicate 24 4) [] 0 demo_server
      (ep_of 7) (rq_headers ?rq ''ideal-node'' \<noteq> None) (hello (key_of 5) @ [], UnexpectedEof) [] ?s = (u, StillRunning sid)"
    by (auto simp: session_body_def)
  from websocket_close_leaks [OF fifo_ok demo_reachable left sink h b a t] t show ?thesis by blast
qed

text \<open>
  The WebSocket bridge carries bytes unchanged: up to the event that ends it, the session reads the
  concatenation of the client's binary messages and the binary messages sent to the client concatenate
  to what the session wrote, in both directions in order; it ends exactly at the first close, error or
  end of either side.
\<close>

theorem bridge_carries_bytes:
  "case bridge_websocket es of (input, out, ended) \<Rightarrow>
     input = concat (map from_client (takeWhile goes_on es)) \<and>
     concat (map payload out) = concat (map from_server (takeWhile goes_on es)) \<and>
     (ended = None \<longleftrightarrow> list_all goes_on es)"
  using bridge_equiv [of es] by (cases "bridge_websocket es") simp

end
