(* ===== verification/Derp_Address.thy ===== *)
theory Derp_Address
  imports Derp_Config
begin

text \<open>
  The text of a socket address, as \<open>SocketAddr::from_str\<close> of the standard library reads it for
  \<open>--stun-addr\<close> (\<open>src/src/main.rs\<close>): a parser by recursive descent that takes back what it read when it fails.
  Flow label and scope of an IPv6 address are not part of the model's addresses.
\<close>

type_synonym 'a reader_of = "string \<Rightarrow> ('a \<times> string) option"

subsection \<open>Numbers\<close>

text \<open>\<open>char::to_digit\<close>\<close>

definition to_digit :: "nat \<Rightarrow> char \<Rightarrow> nat option" where
  "to_digit radix c =
     (let n = of_char c :: nat;
          d = (if 48 \<le> n \<and> n \<le> 57 then n - 48
               else if 97 \<le> n \<and> n \<le> 122 then n - 87
               else if 65 \<le> n \<and> n \<le> 90 then n - 55 else radix)
      in if d < radix then Some d else None)"

fun span_digits :: "nat \<Rightarrow> string \<Rightarrow> nat list \<times> string" where
  "span_digits radix [] = ([], [])"
| "span_digits radix (c # cs) =
     (case to_digit radix c of
        None \<Rightarrow> ([], c # cs)
      | Some d \<Rightarrow> (let (ds, rest) = span_digits radix cs in (d # ds, rest)))"

definition digits_value :: "nat \<Rightarrow> nat list \<Rightarrow> nat" where
  "digits_value radix ds = foldl (\<lambda>n d. n * radix + d) 0 ds"

text \<open>A number below \<open>limit\<close> with at most the given digits; a leading zero only where it is allowed.\<close>

definition read_number :: "nat \<Rightarrow> nat option \<Rightarrow> bool \<Rightarrow> nat \<Rightarrow> nat reader_of" where
  "read_number radix max_digits allow_zero_prefix limit s =
     (let (ds, rest) = span_digits radix s in
      if ds = [] then None
      else if (case max_digits of None \<Rightarrow> False | Some m \<Rightarrow> m < length ds) then None
      else if \<not> allow_zero_prefix \<and> hd ds = 0 \<and> 1 < length ds then None
      else if digits_value radix ds < limit then Some (digits_value radix ds, rest) else None)"

definition read_given_char :: "char \<Rightarrow> unit reader_of" where
  "read_given_char c s = (case s of [] \<Rightarrow> None | d # rest \<Rightarrow> if d = c then Some ((), rest) else None)"

text \<open>A separator in front of every item but the first.\<close>

definition read_separator :: "char \<Rightarrow> nat \<Rightarrow> 'a reader_of \<Rightarrow> 'a reader_of" where
  "read_separator sep i inner s =
     (if i = 0 then inner s
      else case read_given_char sep s of None \<Rightarrow> None | Some (_, s) \<Rightarrow> inner s)"

subsection \<open>Addresses\<close>

fun read_octets :: "nat \<Rightarrow> nat \<Rightarrow> bytes reader_of" where
  "read_octets i 0 s = Some ([], s)"
| "read_octets i (Suc n) s =
     (case read_separator (CHR ''.'') i (read_number 10 (Some 3) False 256) s of
        None \<Rightarrow> None
      | Some (b, s) \<Rightarrow>
          (case read_octets (Suc i) n s of
             None \<Rightarrow> None
           | Some (bs, s) \<Rightarrow> Some (of_nat b # bs, s)))"

definition read_ipv4_addr :: "bytes reader_of" where
  "read_ipv4_addr = read_octets 0 4"

text \<open>
  The groups of an IPv6 address, as pairs of bytes, from position \<open>i\<close> on; \<open>n\<close> groups are left. The second
  component says whether they end in an embedded IPv4 address, for which two groups must be left.
\<close>

fun read_groups :: "nat \<Rightarrow> nat \<Rightarrow> string \<Rightarrow> bytes list \<times> bool \<times> string" where
  "read_groups i 0 s = ([], False, s)"
| "read_groups i (Suc n) s =
     (case (if 0 < n then read_separator (CHR '':'') i read_ipv4_addr s else None) of
        Some (v4, s) \<Rightarrow> ([take 2 v4, drop 2 v4], True, s)
      | None \<Rightarrow>
          (case read_separator (CHR '':'') i (read_number 16 (Some 4) True 65536) s of
             None \<Rightarrow> ([], False, s)
           | Some (g, s) \<Rightarrow>
               (let (gs, v4, s) = read_groups (Suc i) n s
                in ([of_nat (g div 256), of_nat (g mod 256)] # gs, v4, s))))"

definition read_ipv6_addr :: "bytes reader_of" where
  "read_ipv6_addr s =
     (let (head, head_ipv4, s) = read_groups 0 8 s in
      if length head = 8 then Some (concat head, s)
      else if head_ipv4 then None
      else
        case read_given_char (CHR '':'') s of
          None \<Rightarrow> None
        | Some (_, s) \<Rightarrow>
        case read_given_char (CHR '':'') s of
          None \<Rightarrow> None
        | Some (_, s) \<Rightarrow>
            (let (tail, _, s) = read_groups 0 (8 - (length head + 1)) s
             in Some (concat head @ replicate (2 * (8 - length head - length tail)) 0 @ concat tail, s)))"

definition read_port :: "u16 reader_of" where
  "read_port s =
     (case read_given_char (CHR '':'') s of
        None \<Rightarrow> None
      | Some (_, s) \<Rightarrow>
          (case read_number 10 None True 65536 s of None \<Rightarrow> None | Some (p, s) \<Rightarrow> Some (of_nat p, s)))"

definition read_socket_addr_v4 :: "SocketAddr reader_of" where
  "read_socket_addr_v4 s =
     (case read_ipv4_addr s of
        None \<Rightarrow> None
      | Some (a, s) \<Rightarrow>
          (case read_port s of None \<Rightarrow> None | Some (p, s) \<Rightarrow> Some (\<lparr>ip = V4 a, port = p\<rparr>, s)))"

text \<open>The optional scope \<open>%n\<close> is read and not kept.\<close>

definition skip_scope_id :: "string \<Rightarrow> string" where
  "skip_scope_id s =
     (case read_given_char (CHR ''%'') s of
        None \<Rightarrow> s
      | Some (_, t) \<Rightarrow> (case read_number 10 None True (2 ^ 32) t of None \<Rightarrow> s | Some (_, t) \<Rightarrow> t))"

definition read_socket_addr_v6 :: "SocketAddr reader_of" where
  "read_socket_addr_v6 s =
     (case read_given_char (CHR ''['') s of
        None \<Rightarrow> None
      | Some (_, s) \<Rightarrow>
      case read_ipv6_addr s of
        None \<Rightarrow> None
      | Some (a, s) \<Rightarrow>
      case read_given_char (CHR '']'') (skip_scope_id s) of
        None \<Rightarrow> None
      | Some (_, s) \<Rightarrow>
          (case read_port s of None \<Rightarrow> None | Some (p, s) \<Rightarrow> Some (\<lparr>ip = V6 a, port = p\<rparr>, s)))"

definition parse_socket_addr :: "string \<Rightarrow> SocketAddr option" where
  "parse_socket_addr s =
     (case (case read_socket_addr_v4 s of None \<Rightarrow> read_socket_addr_v6 s | r \<Rightarrow> r) of
        Some (a, []) \<Rightarrow> Some a
      | _ \<Rightarrow> None)"

subsection \<open>Addresses are well formed, and printed addresses are read back\<close>

lemma read_octets_length: "read_octets i n s = Some (bs, t) \<Longrightarrow> length bs = n"
  by (induction i n s arbitrary: bs t rule: read_octets.induct) (auto split: option.splits)

lemma read_groups_shape:
  "read_groups i n s = (gs, v4, t) \<Longrightarrow> length gs \<le> n \<and> (\<forall>g\<in>set gs. length g = 2)"
proof (induction i n s arbitrary: gs v4 t rule: read_groups.induct)
  case (2 i n s)
  then show ?case
    by (fastforce simp: read_ipv4_addr_def read_separator_def Let_def split: option.splits if_splits prod.splits
        dest: read_octets_length)
qed simp

lemma concat_pairs: "\<forall>g\<in>set gs. length g = 2 \<Longrightarrow> length (concat gs) = 2 * length gs"
  by (induction gs) auto

lemma read_ipv6_length: "read_ipv6_addr s = Some (a, t) \<Longrightarrow> length a = 16"
  by (auto simp: read_ipv6_addr_def Let_def concat_pairs split: prod.splits if_splits option.splits
      dest!: read_groups_shape)

text \<open>The digits of a number, most significant first.\<close>

fun nat_digits :: "nat \<Rightarrow> nat list" where
  "nat_digits n = (if n < 10 then [n] else nat_digits (n div 10) @ [n mod 10])"

declare nat_digits.simps [simp del]

lemma show_nat_digits: "show_nat n = map digit_char (nat_digits n)"
proof (induction n rule: show_nat.induct)
  case (1 n)
  then show ?case by (subst show_nat.simps, subst nat_digits.simps) simp
qed

lemma nat_digits_value [simp]: "digits_value 10 (nat_digits n) = n"
proof (induction n rule: nat_digits.induct)
  case (1 n)
  then show ?case by (subst nat_digits.simps) (simp add: digits_value_def)
qed

lemma nat_digits_shape: "nat_digits n \<noteq> [] \<and> (\<forall>d\<in>set (nat_digits n). d < 10) \<and> (hd (nat_digits n) = 0 \<longrightarrow> n = 0)"
proof (induction n rule: nat_digits.induct)
  case (1 n)
  then show ?case by (subst (1 2 3) nat_digits.simps) (auto simp: hd_append)
qed

lemma nat_digits_length: "n < 10 ^ k \<Longrightarrow> 0 < k \<Longrightarrow> length (nat_digits n) \<le> k"
proof (induction n arbitrary: k rule: nat_digits.induct)
  case (1 n)
  show ?case
  proof (cases "n < 10")
    case False
    with 1(2,3) obtain j where j: "k = Suc j" "0 < j" by (cases k; cases "k - 1") auto
    then have "n div 10 < 10 ^ j" using 1(2) by (simp add: less_mult_imp_div_less mult.commute)
    with 1(1) [OF False _ j(2)] False j show ?thesis by (subst nat_digits.simps) simp
  qed (use 1(3) in \<open>subst nat_digits.simps; simp\<close>)
qed

definition stops :: "string \<Rightarrow> bool" where
  "stops s \<longleftrightarrow> (case s of [] \<Rightarrow> True | c # _ \<Rightarrow> to_digit 10 c = None)"

lemma to_digit_char: "d < 10 \<Longrightarrow> to_digit 10 (digit_char d) = Some d"
  by (simp add: to_digit_def digit_char_def)

lemma span_digits_stop: "\<forall>d\<in>set ds. d < 10 \<Longrightarrow> stops rest \<Longrightarrow> span_digits 10 (map digit_char ds @ rest) = (ds, rest)"
  by (induction ds) (auto simp: to_digit_char stops_def split: list.splits)

lemma read_shown:
  assumes "n < limit" "stops rest" "case m of None \<Rightarrow> True | Some k \<Rightarrow> 0 < k \<and> n < 10 ^ k"
  shows "read_number 10 m z limit (show_nat n @ rest) = Some (n, rest)"
proof -
  have one: "length (nat_digits 0) = 1" by (subst nat_digits.simps) simp
  with nat_digits_shape [of n] span_digits_stop [of "nat_digits n" rest] assms nat_digits_length [of n "the m"] show ?thesis
    by (auto simp: read_number_def show_nat_digits split: option.splits)
qed

definition dotted :: "bytes \<Rightarrow> string" where
  "dotted bs = concat (map (\<lambda>b. ''.'' @ show_nat (unat b)) bs)"

text \<open>\<open>Display\<close> of an IPv4 socket address.\<close>

definition show_v4 :: "byte \<Rightarrow> bytes \<Rightarrow> u16 \<Rightarrow> string" where
  "show_v4 b bs p = show_nat (unat b) @ dotted bs @ '':'' @ show_nat (unat p)"

lemma stops_dotted: "stops rest \<Longrightarrow> stops (dotted bs @ rest)"
  by (cases bs) (simp_all add: dotted_def stops_def to_digit_def)

lemma unat_byte: "unat (b :: byte) < 256"
  using unsigned_less [where w = b] by simp

lemma read_dotted: "stops rest \<Longrightarrow> read_octets (Suc i) (length bs) (dotted bs @ rest) = Some (bs, rest)"
proof (induction bs arbitrary: i)
  case (Cons b bs)
  have "read_number 10 (Some 3) False 256 (show_nat (unat b) @ dotted bs @ rest) = Some (unat b, dotted bs @ rest)"
    using unat_byte [of b] by (intro read_shown) (simp_all add: stops_dotted Cons.prems)
  moreover have "dotted (b # bs) @ rest = CHR ''.'' # show_nat (unat b) @ dotted bs @ rest" by (simp add: dotted_def)
  ultimately show ?case using Cons.IH [OF Cons.prems, of "Suc i"] by (simp add: read_separator_def read_given_char_def)
qed (simp add: dotted_def)

lemma parse_shown:
  assumes "length bs = 3"
  shows "parse_socket_addr (show_v4 b bs p) = Some \<lparr>ip = V4 (b # bs), port = p\<rparr>"
proof -
  let ?port = "CHR '':'' # show_nat (unat p)"
  have st: "stops ?port" by (simp add: stops_def to_digit_def)
  have "read_number 10 (Some 3) False 256 (show_nat (unat b) @ dotted bs @ ?port) = Some (unat b, dotted bs @ ?port)"
    using unat_byte [of b] by (intro read_shown) (simp_all add: stops_dotted st)
  with read_dotted [OF st, of 0 bs] assms have "read_ipv4_addr (show_v4 b bs p) = Some (b # bs, ?port)"
    by (simp add: read_ipv4_addr_def show_v4_def read_separator_def numeral_eq_Suc)
  moreover have "unat p < 65536" using unsigned_less [where w = p] by simp
  then have "read_number 10 None True 65536 (show_nat (unat p) @ []) = Some (unat p, [])"
    by (intro read_shown) (simp_all add: stops_def)
  ultimately show ?thesis
    by (simp add: parse_socket_addr_def read_socket_addr_v4_def read_port_def read_given_char_def)
qed

lemma parse_addr_ok: "parse_socket_addr s = Some a \<Longrightarrow> case ip a of V4 o4 \<Rightarrow> length o4 = 4 | V6 o6 \<Rightarrow> length o6 = 16"
  by (auto simp: parse_socket_addr_def read_socket_addr_v4_def read_socket_addr_v6_def read_ipv4_addr_def
      split: option.splits list.splits dest!: read_octets_length read_ipv6_length)

end
