(* ===== verification/Derp_Mesh_Props.thy ===== *)
theory Derp_Mesh_Props
  imports Derp_System_Props Derp_Web
begin

text \<open>
  Two servers of a region: the mesh connection follows its peer, ends without a trace, and carries packets
  and presence from one server to the other, through the encoders, decoders, readers and writers of both.
\<close>

subsection \<open>The mesh connection\<close>

text \<open>
  C25: A mesh connection knows of its peer what the peer said: after any interleaving of the reader's
  and the writer's turns, the keys with a route through the connection are those announced and not withdrawn
  by the frames read, in their order, and the routes through the other connections are unchanged. A
  connection that has not failed has read a frame on every turn of the reader.
\<close>

theorem mesh_follows_peer:
  assumes "reachable C s" "mesh_loop C K mid ts input w s = (input', w', t, r)"
  shows "reachable C t \<and> other_routes mid t = other_routes mid s \<and>
    (\<exists>n \<le> count_list ts MeshRead. (r = None \<longrightarrow> n = count_list ts MeshRead) \<and>
       reached mid t = fold known_step (frames_in n input) (reached mid s))"
proof -
  from mesh_loop_handles [OF assms(2)] obtain n where n: "n \<le> count_list ts MeshRead"
    "r = None \<longrightarrow> n = count_list ts MeshRead"
    "handles (mesh_dispatch C mid) (taken C (MeshChan mid)) s (frames_in n input) t" by blast
  from mesh_conn.run_table [OF n(3) reachable_mesh_inv [OF assms(1)]] reach_steps [OF assms(1) handles_steps [OF n(3)]] n
  show ?thesis by blast
qed

definition announcement :: Frame where
  "announcement = PeerPresent (key_of 6) None None []"

lemma announcement_read:
  "read_frame (frame_bytes announcement (as_bytes (key_of 6)) @ rest, e) MESH_READ_LIMIT = Inr (announcement, (rest, e))"
proof -
  have "decode (kind announcement) (as_bytes (key_of 6)) = Inr (wire_normal announcement)"
    by (rule decode_payload) (simp_all add: announcement_def key_of_def nodekey_ok_def)
  then show ?thesis
    by (subst read_frame_bytes) (simp_all add: announcement_def key_of_def MESH_READ_LIMIT_def MAX_PACKET_SIZE_def)
qed

theorem mesh_follows_peer_witness:
  "\<exists>t w'. mesh_loop fifo byte_sink 9 [MeshWrite, MeshRead] (frame_bytes announcement (as_bytes (key_of 6)), UnexpectedEof) []
       meshed = (([], UnexpectedEof), w', t, None) \<and>
     reached 9 t = {key_of 5, key_of 6}"
proof -
  let ?in = "(frame_bytes announcement (as_bytes (key_of 6)), UnexpectedEof)"
  have rd: "read_frame ?in MESH_READ_LIMIT = Inr (announcement, ([], UnexpectedEof))" using announcement_read [of "[]"] by simp
  have q: "Option.bind (chans meshed (MeshChan 9)) (try_recv fifo) = None" by code_simp
  then obtain t where l: "mesh_loop fifo byte_sink 9 [MeshWrite, MeshRead] ?in [] meshed = (([], UnexpectedEof), [], t, None)"
    by (simp add: mesh_write_def mesh_read_def rd)
  have "map (\<lambda>(k, rs). (k, map mr_mesh_id rs)) (mesh_routes meshed) = [(key_of 5, [9])]" by code_simp
  then have "reached 9 meshed = {key_of 5}"
    by (cases "mesh_routes meshed") (auto simp: reached_def routes_of_def split: if_splits)
  with mesh_follows_peer [OF meshed_reachable l] l rd show ?thesis by (auto simp: announcement_def)
qed

text \<open>
  A mesh connection leaves no trace. However often it is retried, and whether an attempt could not
  connect, was refused, or ended later because the peer hung up, sent garbage or could not be written to:
  with fresh connection numbers, every key has afterwards the routes it had before.
\<close>

theorem mesh_retries_leave_nothing:
  assumes "reachable C s" "\<forall>k. \<forall>j < length attempts. nmid + of_nat j \<notin> mr_mesh_id ` set (routes_of s k)"
    and "mesh_task U B J C K srv peer mkey attempts nmid s = (nmid', t, True)"
  shows "reachable C t \<and> (\<forall>k. routes_of t k = routes_of s k)"
  by (rule mesh_task_ends [OF assms(1) _ assms(3)]) (use assms(2) in blast)

text \<open>Networks of which one cannot be reached and one hangs up.\<close>

definition url_ref :: "string \<Rightarrow> Url option" where
  "url_ref peer = Some \<lparr>url_host = Some peer, url_port = Some 80, url_scheme = ''http'', url_path = ''/''\<rparr>"

definition dial_ref :: "IoErrorKind + stream \<times> bytes \<Rightarrow> (stream \<times> bytes) dialer" where
  "dial_ref r = \<lparr>tcp_connect = (\<lambda>_ _. r), set_nodelay = (\<lambda>_. Inr ()), server_name_ok = (\<lambda>_. True), tls_connect = (\<lambda>_. Inr)\<rparr>"

lemma url_ref_ok: "url_lib_ok url_ref"
  by (simp add: url_lib_ok_def url_ref_def)

theorem mesh_retries_leave_nothing_witness:
  "\<exists>nmid' t. mesh_task url_ref open_box json_ref fifo byte_sink demo_server ''h'' []
       [(dial_ref (Inl OtherIo), [], []), (dial_ref (Inr (([], UnexpectedEof), [])), [], [])] 10 meshed = (nmid', t, True) \<and>
     routes_of t (key_of 5) = routes_of meshed (key_of 5)"
proof -
  let ?as = "[(dial_ref (Inl OtherIo), [] :: bytes, [] :: mesh_turn list), (dial_ref (Inr (([], UnexpectedEof), [])), [], [])]"
  have "map (\<lambda>(k, rs). (k, map mr_mesh_id rs)) (mesh_routes meshed) = [(key_of 5, [9])]" by code_simp
  then have f: "\<forall>k. \<forall>j < length ?as. 10 + of_nat j \<notin> mr_mesh_id ` set (routes_of meshed k)"
    by (cases "mesh_routes meshed") (auto simp: routes_of_def less_Suc_eq split: if_splits)
  have "mesh_run open_box json_ref fifo byte_sink [] demo_server request [] [] ([], UnexpectedEof) [] 10 meshed =
      (10, meshed, Some (SeIo UnexpectedEof))" for request
    by (simp add: mesh_run_def mesh_handshake_def byte_sink_def read_upgrade_def upgrade_loop.simps [of "[]"] ends_with_def
        str_bytes_def crlf_def)
  then obtain nmid' t where m: "mesh_task url_ref open_box json_ref fifo byte_sink demo_server ''h'' [] ?as 10 meshed = (nmid', t, True)"
    by (simp add: mesh_attempt_def mesh_connect_def url_ref_def dial_ref_def)
  from mesh_retries_leave_nothing [OF meshed_reachable f m] m show ?thesis by blast
qed

subsection \<open>A packet from server to server\<close>

lemma active_note_activity:
  "heap s i = Some h \<Longrightarrow> sh_key h \<noteq> k \<Longrightarrow> active_ix (note_activity i s) k = active_ix s k"
  by (auto simp: note_activity_def Let_def split: option.split)

lemma forward_sendable:
  assumes "nodekey_ok src" "nodekey_ok dst" "length packet \<le> MAX_PACKET_SIZE"
  shows "sendable READ_LIMIT (ForwardPacket src dst packet)"
  using assms by (simp add: sendable_def encode_eq payload_of_packets READ_LIMIT_def MAX_PACKET_SIZE_def FRAME_HEADER_LEN_def)

text \<open>
  C12: A packet crosses the mesh. A client of one server sends to a key that is not connected there, and
  the first route with room leads over an idle mesh connection; the other server serves that connection as
  a session with mesh permission, and the key is connected there. Then one turn of the first server's mesh
  writer and one turn of the second server's reader put the packet, unchanged and with the sender's key,
  at the end of the destination's queue.
\<close>

theorem packet_crosses_mesh:
  assumes C: "mpsc_ok C pend room" and K: "sink_ok K sent"
    and A: "reachable C s" "i \<in> live_set s" "active dst s = None"
      "find (\<lambda>r. snd (boxes pend room s (mr_tx r)) \<noteq> 0) (routes_of s dst) = Some r"
      "fst (boxes pend room s (MeshChan (mr_mesh_id r))) = []"
    and pkt: "nodekey_ok src" "nodekey_ok dst" "length packet \<le> MAX_PACKET_SIZE"
    and B: "reachable C t" "j \<in> live_set t" "heap t j = Some h" "can_mesh h" "sh_key h \<noteq> dst"
      "active dst t = Some d" "snd (boxes pend room t (SessionChan d)) \<noteq> 0"
  shows "\<exists>raw w' s' t'. mesh_loop C K (mr_mesh_id r) [MeshWrite] input w (route C now i src dst packet False s) =
      (input, w', s', None) \<and> sent w' = sent w @ raw \<and>
    reader C clk h 1 (raw, e) tb t = (t', None) \<and>
    fst (boxes pend room t' (SessionChan d)) = fst (boxes pend room t (SessionChan d)) @ [RecvPacket src packet]"
proof -
  have inv: "relay_inv s" "relay_inv t" using A(1) B(1) by (simp_all add: reachable_relay_inv)
  have tx: "mr_tx r = MeshChan (mr_mesh_id r)"
    using A(4) routes_of_inv [OF reachable_mesh_inv [OF A(1)], of dst] by (auto simp: find_Some_iff)
  let ?f = "ForwardPacket src dst packet" and ?s = "route C now i src dst packet False s" and ?c = "MeshChan (mr_mesh_id r)"
  obtain hi where hi: "heap s i = Some hi" using live_handle [OF _ A(2)] inv(1) by (auto simp: relay_inv_def)
  have "boxes pend room ?s = put ?c ?f (boxes pend room s)"
    using route_boxes_live [OF C inv(1) hi, of now src dst packet False] A(3,4) tx by simp
  moreover have "snd (boxes pend room s ?c) \<noteq> 0" using A(4) tx by (auto simp: find_Some_iff)
  ultimately have "fst (boxes pend room ?s ?c) = [?f]"
    using A(5) by (cases "boxes pend room s ?c"; cases "snd (boxes pend room s ?c)") (auto simp: put_offer)
  then obtain q where q: "chans ?s ?c = Some q" "pend q = [?f]" by (auto simp: boxes_def split: option.splits)
  have "\<forall>f\<in>set (pend q). sendable READ_LIMIT f" using q(2) forward_sendable [OF pkt] by simp
  from mesh_writes [OF C K q(1) this, of input w] q(2) obtain raw w' q' where
    w: "mesh_loop C K (mr_mesh_id r) [MeshWrite] input w ?s = (input, w', ?s\<lparr>chans := (chans ?s)(?c \<mapsto> q')\<rparr>, None)"
    "sent w' = sent w @ raw" "carries READ_LIMIT raw [?f]" by auto
  have rd: "read_frame (raw, e) READ_LIMIT = Inr (?f, ([], e))"
    using w(3) [unfolded carries_def, rule_format, of "[]" e] by (auto simp: try_res_Inr)
  obtain now1 wake later where clk: "clk 0 = (now1, wake, later)" by (cases "clk 0")
  have hj: "sh_id h = j" using live_tx [OF inv(2) B(2)] B(3) by auto
  let ?u = "note_activity j t" and ?t = "route C later j src dst packet True (note_activity j t)"
  have r1: "reader C clk h 1 (raw, e) tb t = (?t, None)"
    by (auto simp: rd reader_turn_def clk hj dispatch_def B(4) Let_def)
  have iu: "relay_inv ?u" by (rule note_activity_inv [OF inv(2)])
  obtain hu where hu: "heap ?u j = Some hu"
    using B(2) live_note_activity [OF inv(2), of j] live_handle [of ?u j] iu by (auto simp: relay_inv_def)
  have "active dst ?u = Some d" using active_note_activity [OF B(3,5)] B(6) by (simp add: active_def)
  then have "boxes pend room ?t = put (SessionChan d) (RecvPacket src packet) (boxes pend room t)"
    by (simp add: route_boxes_live [OF C iu hu] occ_quiet)
  with B(7) have "fst (boxes pend room ?t (SessionChan d)) = fst (boxes pend room t (SessionChan d)) @ [RecvPacket src packet]"
    by (cases "boxes pend room t (SessionChan d)"; cases "snd (boxes pend room t (SessionChan d))") (auto simp: put_offer)
  with r1 w(1,2) show ?thesis by blast
qed

text \<open>One server with a client and a mesh connection over which another key is reached.\<close>

definition linked :: "(Frame list \<times> nat) Relay" where
  "linked = add_mesh_route 9 (key_of 1) (MeshChan 9) (alone\<lparr>chans := (chans alone)(MeshChan 9 \<mapsto> channel fifo 64)\<rparr>)"

lemma linked_reachable: "reachable fifo linked"
proof -
  have a: "reachable fifo alone" using tasks.reach_inv [OF joined_reach] by (simp add: tasks_inv_def joined_state_def)
  show ?thesis unfolding linked_def
    by (intro reach.more [OF reach.more [OF a relay_step.mesh_connect] relay_step.add_route]) simp
qed

theorem packet_crosses_mesh_witness:
  "\<exists>raw h s' t' tb. heap demo 3 = Some h \<and>
    mesh_loop fifo byte_sink 9 [MeshWrite] ([], UnexpectedEof) []
      (route fifo 0 1 (key_of 5) (key_of 1) [42] False linked) = (([], UnexpectedEof), raw, s', None) \<and>
    reader fifo (\<lambda>_. (0, 0, 0)) h 1 (raw, UnexpectedEof) tb demo = (t', None) \<and>
    fst (boxes fst snd t' (SessionChan 1)) = [RecvPacket (key_of 5) [42]]"
proof -
  let ?r = "\<lparr>mr_mesh_id = 9, mr_tx = MeshChan 9\<rparr>"
  have a: "1 \<in> live_set linked" "active (key_of 1) linked = None"
    "find (\<lambda>r. snd (boxes fst snd linked (mr_tx r)) \<noteq> 0) (routes_of linked (key_of 1)) = Some ?r"
    "fst (boxes fst snd linked (MeshChan (mr_mesh_id ?r))) = []" by code_simp+
  have b: "3 \<in> live_set demo" "map_option (\<lambda>h. (can_mesh h, sh_key h)) (heap demo 3) = Some (True, key_of 3)"
    "active (key_of 1) demo = Some 1" "snd (boxes fst snd demo (SessionChan 1)) \<noteq> 0"
    "fst (boxes fst snd demo (SessionChan 1)) = []" by code_simp+
  from b(2) obtain h where h: "heap demo 3 = Some h" "can_mesh h" "sh_key h = key_of 3" by auto
  have k: "nodekey_ok (key_of 5)" "nodekey_ok (key_of 1)" "key_of 3 \<noteq> key_of 1" by (simp_all add: key_of_def nodekey_ok_def)
  then have "sh_key h \<noteq> key_of 1" using h(3) by simp
  from packet_crosses_mesh [OF fifo_ok byte_sink_ok linked_reachable a k(1,2), of "[42]" demo 3 h 1] demo_reachable b h this
  show ?thesis by (fastforce simp: MAX_PACKET_SIZE_def)
qed

subsection \<open>Two servers meet\<close>

lemma window_first:
  "window_pos pat xs = Some p \<Longrightarrow> starts_with pat (drop p xs) \<and> (\<forall>q<p. \<not> starts_with pat (drop q xs))"
proof (induction pat xs arbitrary: p rule: window_pos.induct)
  case (2 pat x xs)
  show ?case
  proof (cases "starts_with pat (x # xs)")
    case False
    with 2(2) obtain q where q: "window_pos pat xs = Some q" "p = Suc q" by auto
    from 2(1) [OF False q(1)] False show ?thesis by (auto simp: q(2) drop_Cons' gr0_conv_Suc)
  qed (use 2(2) in simp)
qed simp

lemma ends_with_take:
  "length pat \<le> l \<Longrightarrow> l \<le> length xs \<Longrightarrow> ends_with pat (take l xs) \<longleftrightarrow> starts_with pat (drop (l - length pat) xs)"
  by (simp add: ends_with_def starts_with_def drop_take)

lemma upgrade_loop_finds:
  assumes "window_pos head_end (buf @ input) = Some p" "length buf \<le> p + 4" "p + 4 \<le> 32769"
  shows "upgrade_loop buf input e = Inr (take (p + 4) (buf @ input), (drop (p + 4) (buf @ input), e))"
  using assms
proof (induction "p + 4 - length buf" arbitrary: buf input)
  case 0
  have he: "str_bytes crlf @ str_bytes crlf = head_end" by (simp add: head_end_def)
  from 0 have l: "length buf = p + 4" by simp
  have "ends_with head_end (take (length buf) (buf @ input))"
    using window_first [OF 0(2)] l by (subst ends_with_take) simp_all
  then show ?case using l by (simp add: upgrade_loop.simps [of buf] he)
next
  case (Suc n)
  have he: "str_bytes crlf @ str_bytes crlf = head_end" by (simp add: head_end_def)
  have l: "length buf < p + 4" using Suc.hyps(2) by simp
  have "\<not> ends_with head_end buf"
  proof (cases "4 \<le> length buf")
    case True
    then have "length buf - 4 < p" using l by simp
    then have "\<not> starts_with head_end (drop (length buf - 4) (buf @ input))" using window_first [OF Suc.prems(1)] by blast
    with ends_with_take [of head_end "length buf" "buf @ input"] True show ?thesis by simp
  qed (simp add: ends_with_def)
  moreover obtain b bs where input: "input = b # bs"
    using window_pos_found [OF Suc.prems(1)] l by (cases input) auto
  moreover have "upgrade_loop (buf @ [b]) bs e = Inr (take (p + 4) (buf @ input), (drop (p + 4) (buf @ input), e))"
    using Suc.hyps(1) [of "buf @ [b]" bs] Suc.hyps(2) Suc.prems input by simp
  ultimately show ?case using l Suc.prems(3) by (simp add: upgrade_loop.simps [of buf] he)
qed

lemma hex_no_cr:
  assumes "hex_lib_ok H"
  shows "no_cr (to_hex H k)" "length (to_hex H k) = 2 * length (as_bytes k)"
proof -
  have "set (to_hex H k) \<subseteq> set hex_digits" "length (to_hex H k) = 2 * length (as_bytes k)"
    using assms by (simp_all add: hex_lib_ok_def to_hex_def)
  then show "no_cr (to_hex H k)" "length (to_hex H k) = 2 * length (as_bytes k)"
    by (auto simp: no_cr_def hex_digits_def)
qed

text \<open>The mesh client accepts the front end's answer and leaves the frames behind it unread.\<close>

lemma read_upgrade_head:
  assumes "hex_lib_ok H" "nodekey_ok pk"
  shows "read_upgrade (str_bytes (upgrade_head H pk) @ rest, e) = Inr (rest, e)"
proof -
  let ?ls = "[''HTTP/1.1 101 Switching Protocols'', ''Upgrade: DERP'', ''Connection: Upgrade'', ''Derp-Version: 2'',
    ''Derp-Public-Key: '' @ to_hex H pk]"
  have h: "upgrade_head H pk = join_lines ?ls @ crlf" by (simp add: upgrade_head_def join_lines_def)
  have n: "no_cr (to_hex H pk)" "length (to_hex H pk) = 64" using hex_no_cr [OF assms(1), of pk] assms(2) by simp_all
  have "\<forall>l\<in>set ?ls. no_cr l \<and> l \<noteq> []" using n(1) by (simp add: no_cr_def)
  from window_pos_lines [OF this, of rest] have w: "window_pos head_end (str_bytes (upgrade_head H pk) @ rest) =
      Some (length (upgrade_head H pk) - 4)" unfolding h by (simp add: crlf_def)
  have l: "length (upgrade_head H pk) = 172" by (simp add: upgrade_head_def n(2) crlf_def)
  have lb: "length (str_bytes (upgrade_head H pk)) = length (upgrade_head H pk)" by (simp add: str_bytes_def)
  from upgrade_loop_finds [of "[]" "str_bytes (upgrade_head H pk) @ rest" "length (upgrade_head H pk) - 4" e] w l lb
  have u: "upgrade_loop [] (str_bytes (upgrade_head H pk) @ rest) e = Inr (str_bytes (upgrade_head H pk), (rest, e))" by simp
  have "\<exists>tl. str_bytes (upgrade_head H pk) = str_bytes ''HTTP/1.1 101 '' @ tl" by (simp add: upgrade_head_def str_bytes_def)
  then obtain tl where tl: "str_bytes (upgrade_head H pk) = str_bytes ''HTTP/1.1 101 '' @ tl" by blast
  have "ascii (str_bytes ''HTTP/1.1 101 '')" by code_simp
  from utf8_lossy_ascii [OF this, of tl] u [unfolded tl] show ?thesis by (simp add: read_upgrade_def tl)
qed

lemma public_ok:
  assumes "box_lib_ok B" "public B kp = Some k"
  shows "nodekey_ok k" "as_bytes k = box_public B (secret kp)"
  using assms by (auto simp: public_def NodeKey_new_def nodekey_ok_def box_lib_ok_def split: if_splits)

lemma seal_open:
  assumes "box_lib_ok B" "length nonce = NONCE_LEN" "public B a = Some pa" "public B b = Some pb"
    and "seal_to B nonce a pb m = (Inr sealed :: 'h KeyError + bytes)"
  shows "open_from B b pa sealed = (Inr m :: 'h KeyError + bytes)" "NONCE_LEN \<le> length sealed"
  using assms public_ok(2) [OF assms(1,3)] public_ok(2) [OF assms(1,4)]
  by (auto simp: seal_to_def open_from_def box_lib_ok_def split: option.splits)

lemma sink_write:
  assumes "sink_ok K sent"
  shows "\<exists>w1 w2. write_all K w bs = Inr w1 \<and> flush K w1 = Inr w2 \<and> sent w2 = sent w @ bs"
  using put_out_sink [OF assms, of "[]" w bs] by (auto simp: put_out_def split: sum.splits)

text \<open>
  C39: The default path of a mesh URL is never used, so a peer given without a path cannot be reached. For
  every \<open>http\<close> or \<open>https\<close> URL the request names the path of the URL, which is never empty; a URL without a
  path asks for the index page, and on the answer of another derp-rs server the handshake fails.
\<close>

theorem mesh_url_without_path:
  assumes "url_lib_ok U" "mesh_connect U D peer = Inr (request, io)" "sink_ok K sent"
  shows "\<exists>u tl. U peer = Some u \<and> request = ''GET '' @ url_path u @ '' HTTP/1.1'' @ tl \<and>
    (url_path u = ''/'' \<longrightarrow> (\<forall>rq r. rq_path rq = ''/'' \<longrightarrow> r = plain_response cfg rf rq s \<longrightarrow>
       mesh_handshake B J K nonce request kp mkey
         (str_bytes (response_head (rs_status r) (rs_reason r) (rs_headers r) (rs_body r)) @ rs_body r, e) w =
         Inl (SeBail ''mesh upgrade failed'')))"
proof -
  from assms(2) obtain u host prt where u: "U peer = Some u" "request = mesh_request (url_path u) host prt"
    "url_scheme u = ''http'' \<or> url_scheme u = ''https''"
    by (auto simp: mesh_connect_def split: option.splits sum.splits if_splits)
  with assms(1) have "url_path u \<noteq> []" unfolding url_lib_ok_def by fastforce
  then have rq: "\<exists>tl. request = ''GET '' @ url_path u @ '' HTTP/1.1'' @ tl" by (auto simp: u(2) mesh_request_def)
  have fails: "mesh_handshake B J K nonce request kp mkey
      (str_bytes (response_head (rs_status r) (rs_reason r) (rs_headers r) (rs_body r)) @ rs_body r, e) w = Inl (SeBail ''mesh upgrade failed'')"
    if "rq_path rq = ''/''" "r = plain_response cfg rf rq s" for rq r
  proof -
    let ?h = "response_head (rs_status r) (rs_reason r) (rs_headers r) (rs_body r)"
    have r: "r = \<lparr>rs_status = 200, rs_reason = ''OK'', rs_headers = [(''Content-Type'', ''text/html; charset=utf-8'')],
         rs_body = str_bytes (index_page @ newline)\<rparr>"
      using that by (simp add: plain_response_def starts_with_def)
    have w: "window_pos head_end (str_bytes ?h @ rs_body r) = Some (length ?h - 4)"
      using response_head_ends plain_response_ok(1) that(2) by blast
    have h: "?h = ''HTTP/1.1 200 OK'' @ drop 15 ?h" "4 \<le> length ?h" "length ?h \<le> 1000" unfolding r by code_simp+
    have hb: "str_bytes ?h = str_bytes ''HTTP/1.1 200 OK'' @ str_bytes (drop 15 ?h)" by (subst h(1)) (simp add: str_bytes_def)
    have lb: "length (str_bytes ?h) = length ?h" by (simp add: str_bytes_def)
    from upgrade_loop_finds [of "[]" "str_bytes ?h @ rs_body r" "length ?h - 4" e] w h(2,3) lb
    have up: "upgrade_loop [] (str_bytes ?h @ rs_body r) e = Inr (str_bytes ?h, (rs_body r, e))" by simp
    have "ascii (str_bytes ''HTTP/1.1 200 OK'')" by code_simp
    from utf8_lossy_ascii [OF this] have "\<not> starts_with (str_bytes ''HTTP/1.1 101 '') (utf8_lossy (str_bytes ?h))"
      unfolding hb by (simp add: starts_with_def str_bytes_def)
    then have "read_upgrade (str_bytes ?h @ rs_body r, e) = Inl (SeBail ''mesh upgrade failed'')" by (simp add: read_upgrade_def up)
    moreover obtain w1 w2 where "write_all K w (str_bytes request) = Inr w1" "flush K w1 = Inr w2" using sink_write [OF assms(3)] by blast
    ultimately show ?thesis by (simp add: mesh_handshake_def)
  qed
  from rq fails u(1) show ?thesis by blast
qed

theorem mesh_url_without_path_witness:
  "\<exists>request. mesh_connect url_ref (dial_ref (Inr (([], UnexpectedEof), []))) ''h'' = Inr (request, (([], UnexpectedEof), [])) \<and>
     take 14 request = ''GET / HTTP/1.1''"
proof -
  obtain request where r: "mesh_connect url_ref (dial_ref (Inr (([], UnexpectedEof), []))) ''h'' = Inr (request, (([], UnexpectedEof), []))"
    by (simp add: mesh_connect_def url_ref_def dial_ref_def)
  from mesh_url_without_path [OF url_ref_ok r byte_sink_ok] obtain u tl where
    u: "url_ref ''h'' = Some u" "request = ''GET '' @ url_path u @ '' HTTP/1.1'' @ tl" by blast
  have "url_path u = ''/''" using u(1) by (simp add: url_ref_def) (metis Url.select_convs(4))
  then have "take 14 request = ''GET / HTTP/1.1''" by (simp add: u(2))
  with r show ?thesis by blast
qed

text \<open>The four frames of the handshake as bytes, and how they are read.\<close>

definition greeting_bytes :: "NodeKey \<Rightarrow> bytes" where
  "greeting_bytes pk = frame_bytes (ServerKey pk) (MAGIC @ as_bytes pk)"

definition proof_bytes :: "NodeKey \<Rightarrow> bytes \<Rightarrow> bytes" where
  "proof_bytes k sealed = frame_bytes (ClientInfoF k sealed) (as_bytes k @ sealed)"

definition info_bytes :: "bytes \<Rightarrow> bytes" where
  "info_bytes sealed = frame_bytes (ServerInfoF sealed) sealed"

definition watch_bytes :: bytes where
  "watch_bytes = frame_bytes WatchConns []"

lemma handshake_frames:
  assumes "nodekey_ok k" "NONCE_LEN \<le> length sealed"
  shows "read_frame (greeting_bytes k @ rest, e) 1024 = Inr (ServerKey k, (rest, e))"
    and "length sealed \<le> MAX_CLIENT_INFO_SIZE + 64 \<Longrightarrow>
      read_frame (proof_bytes k sealed @ rest, e) CLIENT_INFO_LIMIT = Inr (ClientInfoF k sealed, (rest, e))"
    and "length sealed \<le> MAX_INFO_SIZE \<Longrightarrow>
      read_frame (info_bytes sealed @ rest, e) MAX_INFO_SIZE = Inr (ServerInfoF sealed, (rest, e))"
    and "read_frame (watch_bytes @ rest, e) READ_LIMIT = Inr (WatchConns, (rest, e))"
proof -
  have d: "frame_wf f \<Longrightarrow> frame_acceptable f \<Longrightarrow> payload_of f = Inr p \<Longrightarrow> length p < 2 ^ 32 \<Longrightarrow> length p \<le> m \<Longrightarrow>
      read_frame (frame_bytes f p @ rest, e) m = Inr (wire_normal f, (rest, e))" for f p m
    by (simp add: read_frame_bytes decode_payload)
  show "read_frame (greeting_bytes k @ rest, e) 1024 = Inr (ServerKey k, (rest, e))"
    unfolding greeting_bytes_def using assms(1) by (subst d) simp_all
  show "read_frame (proof_bytes k sealed @ rest, e) CLIENT_INFO_LIMIT = Inr (ClientInfoF k sealed, (rest, e))"
    if "length sealed \<le> MAX_CLIENT_INFO_SIZE + 64"
    unfolding proof_bytes_def using assms that by (subst d) (simp_all add: CLIENT_INFO_LIMIT_def)
  show "read_frame (info_bytes sealed @ rest, e) MAX_INFO_SIZE = Inr (ServerInfoF sealed, (rest, e))"
    if "length sealed \<le> MAX_INFO_SIZE"
    unfolding info_bytes_def using assms that by (subst d) simp_all
  show "read_frame (watch_bytes @ rest, e) READ_LIMIT = Inr (WatchConns, (rest, e))"
    unfolding watch_bytes_def by (subst d) simp_all
qed

lemma handshake_encodes:
  assumes "nodekey_ok k"
  shows "encode (ServerKey k) = Inr (greeting_bytes k)" "encode WatchConns = Inr watch_bytes"
    and "length sealed \<le> MAX_INFO_SIZE \<Longrightarrow> encode (ClientInfoF k sealed) = Inr (proof_bytes k sealed)"
    and "length sealed \<le> MAX_INFO_SIZE \<Longrightarrow> encode (ServerInfoF sealed) = Inr (info_bytes sealed)"
  using assms by (simp_all add: encode_eq greeting_bytes_def watch_bytes_def proof_bytes_def info_bytes_def)

text \<open>Each end, on the bytes that the other sends.\<close>

lemma mesh_client_side:
  assumes K: "sink_ok K sent" and H: "hex_lib_ok H" and keys: "box_lib_ok B" "public B kp = Some ck" "nodekey_ok pk"
    and info: "ci_to J (mesh_client_info mkey) = Some plain" "length nonce = NONCE_LEN"
      "seal_to B nonce kp pk plain = (Inr sealed :: unit KeyError + bytes)" "length sealed \<le> MAX_INFO_SIZE"
    and answer: "NONCE_LEN \<le> length ssealed" "length ssealed \<le> MAX_INFO_SIZE"
  shows "\<exists>w'. mesh_handshake B J K nonce request kp mkey
      (str_bytes (upgrade_head H pk) @ greeting_bytes pk @ info_bytes ssealed @ rest, e) w = Inr ((rest, e), w') \<and>
    sent w' = sent w @ str_bytes request @ proof_bytes ck sealed @ watch_bytes"
proof -
  have ck: "nodekey_ok ck" by (rule public_ok(1) [OF keys(1,2)])
  from sink_write [OF K, of w "str_bytes request"] obtain w1 w2 where
    a: "write_all K w (str_bytes request) = Inr w1" "flush K w1 = Inr w2" "sent w2 = sent w @ str_bytes request" by blast
  from put_frame_sink [OF K handshake_encodes(3) [OF ck info(4)], of w2] obtain w3 where
    b: "put_frame K w2 (ClientInfoF ck sealed) = Inr w3" "sent w3 = sent w2 @ proof_bytes ck sealed" by blast
  from put_frame_sink [OF K handshake_encodes(2) [OF ck], of w3] obtain w4 where
    c: "put_frame K w3 WatchConns = Inr w4" "sent w4 = sent w3 @ watch_bytes" by blast
  show ?thesis
    by (simp add: mesh_handshake_def a b c info(1,3) keys(2) read_upgrade_head [OF H keys(3)]
        handshake_frames(1) [OF keys(3) answer(1)] handshake_frames(3) [OF keys(3) answer] del: constant_values)
qed

lemma mesh_server_side:
  assumes K: "sink_ok K sent" "\<forall>x. \<not> late x" and keys: "box_lib_ok B" "public B kp = Some ck" "public B (srv_key srv) = Some pk"
    and J: "json_lib_ok J" "ci_to J (mesh_client_info mkey) = Some plain" "length plain \<le> MAX_CLIENT_INFO_SIZE"
    and sealed: "length nonce = NONCE_LEN" "seal_to B nonce kp pk plain = (Inr sealed :: unit KeyError + bytes)"
      "length sealed \<le> MAX_CLIENT_INFO_SIZE + 64"
    and key: "mesh_key s = Some mkey" and reg: "register C now ck remote True True False nideal s = (sid, t)"
  shows "\<exists>w'. accept_client B J H post C K late now srv remote nideal (proof_bytes ck sealed @ rest, e) w s =
      (t, Inr (sid, ck, (rest, e), w')) \<and> sent w' = sent w @ greeting_bytes pk"
proof -
  have ok: "nodekey_ok ck" "nodekey_ok pk" by (rule public_ok(1) [OF keys(1)], fact)+
  note box = seal_open [OF keys(1) sealed(1) keys(2,3) sealed(2)]
  from sink_write [OF K(1), of w "greeting_bytes pk"] obtain w1 w2 where
    w: "write_all K w (greeting_bytes pk) = Inr w1" "flush K w1 = Inr w2" "sent w2 = sent w @ greeting_bytes pk" by blast
  have "ci_from J plain = Some (mesh_client_info mkey)" using J(1,2) by (simp add: json_lib_ok_def)
  then have id: "client_identity B J (srv_key srv) (ClientInfoF ck sealed) = Inr (ck, mesh_client_info mkey)"
    using J(3) by (simp add: client_identity_def box(1))
  have "is_mesh_key (ci_mesh_key (mesh_client_info mkey)) s" by (simp add: is_mesh_key_def mesh_client_info_def key)
  with accept_ok [OF keys(3) K(2) [rule_format] handshake_encodes(1) [OF ok(2)] w(1,2)
      handshake_frames(2) [OF ok(1) box(2) sealed(3), of rest e] id, of s H post remote C now nideal sid t]
    reg w(3) show ?thesis by (auto simp: mesh_client_info_def)
qed

text \<open>
  C14: Two servers of a region that share the mesh key meet. The mesh client of one, on exactly the bytes
  that the other sends (the upgrade response, its key, its sealed information), completes the handshake and
  sends its request, the proof of its key and the wish to watch; the other, on exactly those bytes,
  accepts it without asking the admission controller, registers it under its server key with mesh permission,
  answers, and finds the wish to watch next. Both leave unread what follows.
\<close>

theorem mesh_peers_meet:
  assumes sinks: "sink_ok K sent" "sink_ok K' sent'" "\<forall>x. \<not> late x"
    and libs: "box_lib_ok B" "json_lib_ok J" "hex_lib_ok H"
    and keys: "public B kp = Some ck" "public B (srv_key srv) = Some pk"
    and client: "ci_to J (mesh_client_info mkey) = Some plain" "length plain \<le> MAX_CLIENT_INFO_SIZE"
      "length nonce = NONCE_LEN" "seal_to B nonce kp pk plain = (Inr sealed :: unit KeyError + bytes)" "length sealed \<le> MAX_CLIENT_INFO_SIZE + 64"
    and server: "si_to J (server_info (config srv)) = Some answer" "length nonce' = NONCE_LEN"
      "seal_to B nonce' (srv_key srv) ck answer = (Inr ssealed :: unit KeyError + bytes)" "length ssealed \<le> MAX_INFO_SIZE"
    and key: "mesh_key s = Some mkey" and reg: "register C now ck remote True True False nideal s = (sid, t)"
  shows "(\<exists>w'. mesh_handshake B J K nonce request kp mkey
      (str_bytes (upgrade_head H pk) @ greeting_bytes pk @ info_bytes ssealed @ rest, e) w = Inr ((rest, e), w') \<and>
      sent w' = sent w @ str_bytes request @ proof_bytes ck sealed @ watch_bytes) \<and>
    (\<exists>v1 v2. accept_client B J H post C K' late now srv remote nideal (proof_bytes ck sealed @ watch_bytes @ rest', e') v s =
        (t, Inr (sid, ck, (watch_bytes @ rest', e'), v1)) \<and> send_info B J K' nonce' srv ck v1 = Inr v2 \<and>
      sent' v2 = sent' v @ greeting_bytes pk @ info_bytes ssealed) \<and>
    read_frame (watch_bytes @ rest', e') READ_LIMIT = Inr (WatchConns, (rest', e'))"
proof -
  have ok: "nodekey_ok ck" "nodekey_ok pk" by (rule public_ok(1) [OF libs(1)], fact)+
  note box = seal_open [OF libs(1) server(2) keys(2,1) server(3)]
  have sl: "length sealed \<le> MAX_INFO_SIZE" using client(5) by simp
  note a = mesh_client_side [OF sinks(1) libs(3,1) keys(1) ok(2) client(1,3,4) sl box(2) server(4), where request = request and rest = rest and e = e and w = w]
  from mesh_server_side [OF sinks(2,3) libs(1) keys libs(2) client key reg, where rest = "watch_bytes @ rest'" and e = e' and w = v and H = H and post = post]
  obtain v1 where v1: "accept_client B J H post C K' late now srv remote nideal (proof_bytes ck sealed @ watch_bytes @ rest', e') v s =
        (t, Inr (sid, ck, (watch_bytes @ rest', e'), v1))" "sent' v1 = sent' v @ greeting_bytes pk" by blast
  from sink_write [OF sinks(2), of v1 "info_bytes ssealed"] obtain v2 v3 where
    "write_all K' v1 (info_bytes ssealed) = Inr v2" "flush K' v2 = Inr v3" "sent' v3 = sent' v1 @ info_bytes ssealed" by blast
  then have "send_info B J K' nonce' srv ck v1 = Inr v3" "sent' v3 = sent' v @ greeting_bytes pk @ info_bytes ssealed"
    using v1(2) by (simp_all add: send_info_def server(1,3) write_frame_def handshake_encodes(4) [OF ok(1) server(4)])
  with a v1(1) handshake_frames(4) [OF ok(2) box(2), of rest' e'] show ?thesis by blast
qed

text \<open>Two servers with the reference libraries.\<close>

abbreviation psk :: bytes where
  "psk \<equiv> replicate 32 7"

definition visitor :: NodeKeyPair where
  "visitor = generate (replicate 32 1)"

definition proof_box :: bytes where
  "proof_box = replicate 24 5 @ [1]"

lemma visitor_ok:
  "mesh_client_info psk = mesh_info" "ci_to json_ref (mesh_client_info psk) = Some [1]"
  "seal_to open_box (replicate 24 5) visitor pk [1] = (Inr proof_box :: unit KeyError + bytes)"
  "\<exists>ck. public open_box visitor = Some ck"
  by (simp_all add: mesh_client_info_def mesh_info_def json_ref_def plain_info_def PROTOCOL_VERSION_def seal_to_def open_box_def
      proof_box_def visitor_def public_def NodeKey_new_def numeral_eq_Suc)

lemma demo_server_answers:
  "si_to json_ref (server_info (config demo_server)) = Some [2]"
  "seal_to open_box (replicate 24 6) (srv_key demo_server) ck [2] = (Inr (replicate 24 6 @ [2]) :: unit KeyError + bytes)"
  by (simp_all add: json_ref_def demo_server_def seal_to_def open_box_def)

theorem mesh_peers_meet_witness:
  "\<exists>ck pk w' t sid. public open_box visitor = Some ck \<and> public open_box (srv_key demo_server) = Some pk \<and>
     mesh_handshake open_box json_ref byte_sink (replicate 24 5) ''GET'' visitor psk
       (str_bytes (upgrade_head hex_ref pk) @ greeting_bytes pk @ info_bytes (replicate 24 6 @ [2]), UnexpectedEof) [] =
         Inr (([], UnexpectedEof), w') \<and>
     accept_client open_box json_ref hex_ref (\<lambda>_ _. NoResponse) fifo byte_sink (\<lambda>_. False) 0 demo_server (ep_of 7) False
       (drop 3 w', UnexpectedEof) [] (server_relay demo_config (Some psk)) =
         (t, Inr (sid, ck, (watch_bytes, UnexpectedEof), greeting_bytes pk))"
proof -
  from visitor_ok(4) obtain ck where ck: "public open_box visitor = Some ck" by blast
  from demo_server_key obtain pk where pk: "public open_box (srv_key demo_server) = Some pk" by blast
  let ?s = "server_relay demo_config (Some psk) :: (Frame list \<times> nat) Relay"
  obtain sid t where reg: "register fifo 0 ck (ep_of 7) True True False False ?s = (sid, t)" by fastforce
  have sizes: "length [1 :: byte] \<le> MAX_CLIENT_INFO_SIZE" "length (replicate 24 5 :: bytes) = NONCE_LEN"
    "length proof_box \<le> MAX_CLIENT_INFO_SIZE + 64" "length (replicate 24 6 :: bytes) = NONCE_LEN"
    "length (replicate 24 6 @ [2] :: bytes) \<le> MAX_INFO_SIZE" "\<forall>x :: string. \<not> (\<lambda>_. False) x"
    "mesh_key ?s = Some psk" by (simp_all add: proof_box_def server_relay_def Relay_new_def)
  note m = mesh_peers_meet [OF byte_sink_ok byte_sink_ok sizes(6) open_box_ok json_ref_ok hex_ref_ok ck pk visitor_ok(2) sizes(1,2)
      visitor_ok(3) sizes(3) demo_server_answers(1) sizes(4) demo_server_answers(2) sizes(5,7) reg,
      where rest = "[]" and rest' = "[]" and request = "''GET''" and e = UnexpectedEof and e' = UnexpectedEof
        and w = "[]" and v = "[]" and post = "\<lambda>_ _. NoResponse"]
  then obtain v1 where a: "accept_client open_box json_ref hex_ref (\<lambda>_ _. NoResponse) fifo byte_sink (\<lambda>_. False) 0 demo_server
      (ep_of 7) False (proof_bytes ck proof_box @ watch_bytes, UnexpectedEof) [] ?s =
      (t, Inr (sid, ck, (watch_bytes, UnexpectedEof), v1))" by auto
  have "v1 = greeting_bytes pk" using a pk handshake_encodes(1) [OF public_ok(1) [OF open_box_ok pk]]
    by (auto simp: accept_client_def write_frame_def byte_sink_def Let_def split: sum.splits if_splits prod.splits)
  with m ck pk a show ?thesis by (auto simp: str_bytes_def)
qed

subsection \<open>Presence from server to server\<close>

lemma mesh_reads:
  assumes "reachable C v" "get_n (\<lambda>r. read_frame r MESH_READ_LIMIT) n input = Inr (fs, rest)"
  shows "\<exists>v'. mesh_loop C K mid (replicate n MeshRead) input w v = (rest, w, v', None) \<and>
    reached mid v' = fold known_step fs (reached mid v)"
proof -
  have "mesh_loop C K mid (replicate n MeshRead) input w s = (rest, w, fold (mesh_dispatch C mid) fs s, None)" for s
    using assms(2)
    by (induction n arbitrary: input fs s) (auto simp: mesh_read_def try_res_Inr split: prod.splits)
  then have l: "mesh_loop C K mid (replicate n MeshRead) input w v = (rest, w, fold (mesh_dispatch C mid) fs v, None)" .
  have "count_list (replicate n MeshRead) MeshRead = n" by (induction n) simp_all
  with mesh_loop_handles [OF l] frames_in_get_n [OF assms(2)]
  have "handles (mesh_dispatch C mid) (taken C (MeshChan mid)) v fs (fold (mesh_dispatch C mid) fs v)" by simp
  from mesh_conn.run_table [OF this reachable_mesh_inv [OF assms(1)]] l show ?thesis by blast
qed

lemma known_presents: "fold known_step (map (present_frame s) ps) M = M \<union> fst ` set ps"
  by (induction ps arbitrary: M) (auto simp: present_frame_def Let_def)

text \<open>
  C13: A server learns its mesh peer's clients. When a session with mesh permission asks to watch and its
  queue is empty and large enough, then on a connection that takes its writes in time the session's writer
  sends bytes from which the mesh client at the other end reads one announcement for each key connected to
  the first server, and afterwards has a route through this connection to each of them, in addition to
  those it had. No announcement is refused by the decoder, whatever the clients' keys and addresses.
\<close>

theorem mesh_learns_peers:
  assumes "mpsc_ok C pend room" "sink_ok K sent"
    and "reach (server_init cfg mkey) (server_step B J H post C K0 srv) S"
    and "heap (sys_relay S) i = Some h" "can_mesh h" "fst (boxes pend room (sys_relay S) (SessionChan i)) = []"
      "length (peers (sys_relay S)) \<le> snd (boxes pend room (sys_relay S) (SessionChan i))"
    and "list_all timely ts" "length (peers (sys_relay S)) \<le> length ts" "peers (sys_relay S) \<noteq> []" "reachable C v"
  shows "\<exists>q q' w' r raw ctl. chans (fst (watch C i (sys_relay S))) (SessionChan i) = Some q \<and>
    writer C K ts h q w = (q', w', r) \<and> sent w' = sent w @ raw @ ctl \<and>
    (\<forall>rest e. \<exists>v'. mesh_loop C K' mid (replicate (length (peers (sys_relay S))) MeshRead) (raw @ rest, e) u v =
        ((rest, e), u, v', None) \<and>
      reached mid v' = reached mid v \<union> fst ` set (peers (sys_relay S)))"
proof -
  let ?s = "sys_relay S" and ?fs = "map (present_frame (sys_relay S)) (peers (sys_relay S))"
  have ti: "tasks_inv C S" using assms(3) by (rule tasks.reach_inv)
  have pe: "people_inv mkey S" using assms(3) by (rule people.reach_rel)
  have inv: "relay_inv ?s" using ti reachable_relay_inv by (auto simp: tasks_inv_def)
  have "fst (boxes pend room (fst (watch C i ?s)) (SessionChan i)) = ?fs"
    using watch_boxes [OF assms(1) inv assms(4,5)] assms(6,7) by (simp add: fold_put_same)
  then obtain q where q: "chans (fst (watch C i ?s)) (SessionChan i) = Some q" "pend q = ?fs"
    using assms(10) by (auto simp: boxes_def split: option.splits)
  have "people_ok mkey (proved S) ?s" using pe by (simp add: people_inv_def)
  from good_present_frame [OF inv this] have "\<forall>f\<in>set (pend q). sendable MESH_READ_LIMIT f"
    using q(2) by (auto simp: good_frame_def)
  moreover have "\<forall>t\<in>set ts. timely t" "length (pend q) \<le> length ts" using assms(8,9) q(2) by (simp_all add: list_all_iff)
  ultimately obtain raw ctl q' w' r where
    w: "writer C K ts h q w = (q', w', r)" "sent w' = sent w @ raw @ ctl" "carries MESH_READ_LIMIT raw ?fs"
    using writer_run [OF assms(1,2)] q(2) by metis
  have "\<exists>v'. mesh_loop C K' mid (replicate (length (peers ?s)) MeshRead) (raw @ rest, e) u v = ((rest, e), u, v', None) \<and>
      reached mid v' = reached mid v \<union> fst ` set (peers ?s)" for rest e
  proof -
    have "get_n (\<lambda>r. read_frame r MESH_READ_LIMIT) (length (peers ?s)) (raw @ rest, e) = Inr (map wire_normal ?fs, (rest, e))"
      using w(3) by (simp add: carries_def)
    from mesh_reads [OF assms(11) this, of K' mid u] show ?thesis
      by (simp only: fold_known_wire known_presents)
  qed
  with q(1) w(1,2) show ?thesis by blast
qed

text \<open>The visiting server as a session of the other.\<close>

definition guest_key :: NodeKey where
  "guest_key = NodeKey (box_public open_box (secret visitor))"

definition hosting :: "(Frame list \<times> nat) Relay" where
  "hosting = snd (register fifo 0 guest_key (ep_of 7) True True False False (server_relay demo_config (Some psk)))"

definition hosting_state :: "(Frame list \<times> nat) server_state" where
  "hosting_state = \<lparr>sys_relay = hosting,
     serving = [1 \<mapsto> ((watch_bytes, UnexpectedEof), TokenBucket_new (rate_limit demo_config) (rate_burst demo_config) 0)],
     mesh_conns = {}, proved = {guest_key}, lost = {}\<rparr>"

lemma hosting_reach: "reach (server_init demo_config (Some psk)) demo_step hosting_state"
proof -
  let ?S = "\<lparr>sys_relay = server_relay demo_config (Some psk), serving = Map.empty, mesh_conns = {}, proved = {}, lost = {}\<rparr>
    :: (Frame list \<times> nat) server_state"
  have ck: "public open_box visitor = Some guest_key" using visitor_ok(4)
    by (auto simp: public_def guest_key_def NodeKey_new_def split: if_splits)
  from demo_server_key obtain pk where pk: "public open_box (srv_key demo_server) = Some pk" by blast
  obtain i t where reg: "register fifo 0 guest_key (ep_of 7) True True False False (sys_relay ?S) = (i, t)" by fastforce
  then have t: "t = hosting" and i: "i = 1"
    using register_id [of fifo 0 guest_key "ep_of 7" True True False False "sys_relay ?S"]
    by (simp_all add: hosting_def server_relay_def Relay_new_def)
  have sizes: "length [1 :: byte] \<le> MAX_CLIENT_INFO_SIZE" "length (replicate 24 5 :: bytes) = NONCE_LEN"
    "length proof_box \<le> MAX_CLIENT_INFO_SIZE + 64" "\<forall>x :: string. \<not> (\<lambda>_. False) x" "mesh_key (sys_relay ?S) = Some psk"
    by (simp_all add: proof_box_def server_relay_def Relay_new_def)
  from mesh_server_side [OF byte_sink_ok sizes(4) open_box_ok ck pk json_ref_ok visitor_ok(2) sizes(1,2) visitor_ok(3) sizes(3,5) reg,
      where H = hex_ref and post = "\<lambda>_ _. NoResponse" and rest = watch_bytes and e = UnexpectedEof and w = "[]"]
  obtain w' where a: "accept_client open_box json_ref hex_ref (\<lambda>_ _. NoResponse) fifo byte_sink (\<lambda>_. False) 0 demo_server (ep_of 7)
      False (proof_bytes guest_key proof_box @ watch_bytes, UnexpectedEof) [] (sys_relay ?S) =
      (t, Inr (i, guest_key, (watch_bytes, UnexpectedEof), w'))" by blast
  have "ids_left (sys_relay ?S)" by (simp add: server_relay_def Relay_new_def)
  moreover have "address_ok (ep_of 7)" by code_simp
  ultimately have "demo_step ?S hosting_state"
    using server_step.accept [OF a] by (simp add: hosting_state_def i t demo_server_def)
  moreover have "reach (server_init demo_config (Some psk)) demo_step ?S" by (rule reach.start) (simp add: server_init_def)
  ultimately show ?thesis by (blast intro: reach.more)
qed

theorem mesh_learns_peers_witness:
  "\<exists>q q' w' r raw ctl h v'. chans (fst (watch fifo 1 hosting)) (SessionChan 1) = Some q \<and>
    writer fifo byte_sink [\<lparr>keepalive_due = False, close_due = False, nonce8 = replicate 8 0, write_late = False\<rparr>] h q [] = (q', w', r) \<and>
    w' = raw @ ctl \<and>
    mesh_loop fifo byte_sink 9 [MeshRead] (raw, UnexpectedEof) [] meshed = (([], UnexpectedEof), [], v', None) \<and>
    reached 9 v' = reached 9 meshed \<union> {guest_key}"
proof -
  have a: "map_option can_mesh (heap hosting 1) = Some True" "boxes fst snd hosting (SessionChan 1) = ([], 64)"
    "map fst (peers hosting) = [guest_key]" by code_simp+
  from a(1) obtain h where h: "heap hosting 1 = Some h" "can_mesh h" by auto
  from a(3) obtain ps where ps: "peers hosting = [(guest_key, ps)]" by auto
  let ?t = "\<lparr>keepalive_due = False, close_due = False, nonce8 = replicate 8 0, write_late = False\<rparr>"
  have rel: "sys_relay hosting_state = hosting" by (simp add: hosting_state_def)
  from mesh_learns_peers [OF fifo_ok byte_sink_ok hosting_reach, where i = 1 and h = h and ts = "[?t]" and v = meshed
      and K' = byte_sink and mid = 9 and u = "[]" and w = "[]"] h a ps meshed_reachable
  obtain q q' w' r raw ctl where m: "chans (fst (watch fifo 1 hosting)) (SessionChan 1) = Some q"
    "writer fifo byte_sink [?t] h q [] = (q', w', r)" "w' = raw @ ctl"
    "\<forall>rest e. \<exists>v'. mesh_loop fifo byte_sink 9 [MeshRead] (raw @ rest, e) [] meshed = ((rest, e), [], v', None) \<and>
       reached 9 v' = reached 9 meshed \<union> {guest_key}"
    by (auto simp: rel timely_def)
  from m(4) [rule_format, of "[]" UnexpectedEof, unfolded append_Nil2] m(1-3) show ?thesis by blast
qed

end
