(* ===== verification/Derp_Main.thy ===== *)
theory Derp_Main
  imports Derp_Address Derp_Mesh_Props Derp_Web_Props
begin

text \<open>
  The program (\<open>src/src/main.rs\<close>): what it reads before it listens, the loop that accepts connections, and how it
  stops. What the listener and the signal handler report are the events of the loop; \<open>rustls\<close> with its PEM
  reader is a parameter; the command line is parsed by a crate.
\<close>

subsection \<open>Start-up\<close>

datatype 'h StartFailure = StartKey "'h KeyError" | StartOption "'h StartError" | StartTls

definition parse_stun_addr :: "string \<Rightarrow> 'h StartError + SocketAddr option" where
  "parse_stun_addr value =
     (if eq_ignore_ascii_case value ''off'' then Inr None
      else case parse_socket_addr value of
             None \<Rightarrow> Inl (StartMsg ''invalid --stun-addr'')
           | Some a \<Rightarrow> Inr (Some a))"

text \<open>The certificates and the first private key of a PEM file, and the acceptor made of them.\<close>

record ('c, 'k, 't) tls_lib =
  pem_certs :: "string \<Rightarrow> 'c list option"
  pem_key :: "string \<Rightarrow> 'k option option"
  tls_acceptor :: "'c list \<Rightarrow> 'k \<Rightarrow> 't option"

definition load_tls :: "('c, 'k, 't) tls_lib \<Rightarrow> Config \<Rightarrow> file_system \<Rightarrow> 'h StartFailure + 't option" where
  "load_tls L cfg fs =
     (case (tls_cert cfg, tls_key cfg) of
        (None, None) \<Rightarrow> Inr None
      | (Some cert_path, Some key_path) \<Rightarrow>
          (case read_to_string cert_path fs of
             Inl e \<Rightarrow> Inl (StartOption (StartIo e))
           | Inr cert_text \<Rightarrow>
           case pem_certs L cert_text of
             None \<Rightarrow> Inl StartTls
           | Some certs \<Rightarrow>
           case read_to_string key_path fs of
             Inl e \<Rightarrow> Inl (StartOption (StartIo e))
           | Inr private_text \<Rightarrow>
           case pem_key L private_text of
             None \<Rightarrow> Inl StartTls
           | Some None \<Rightarrow> Inl (StartOption (StartMsg ''TLS key file contained no private key''))
           | Some (Some key) \<Rightarrow>
               (case tls_acceptor L certs key of None \<Rightarrow> Inl StartTls | Some tls \<Rightarrow> Inr (Some tls)))
      | _ \<Rightarrow> Inl (StartOption (StartMsg ''--tls-cert and --tls-key must be used together'')))"

text \<open>What runs once start-up has succeeded: the server, its relay, the mesh connections and the STUN address.\<close>

record ('ch, 't) running =
  run_server :: DerpServer
  run_relay :: "'ch Relay"
  run_tls :: "'t option"
  run_mesh :: "(string \<times> bytes) list"
  run_stun :: "SocketAddr option"

definition start_up ::
    "'h hex_lib \<Rightarrow> ('c, 'k, 't) tls_lib \<Rightarrow> bytes \<Rightarrow> Config \<Rightarrow> file_system
       \<Rightarrow> ('h StartFailure + ('ch, 't) running) \<times> file_system" where
  "start_up H L rng cfg fs =
     (case load_or_create H rng (private_key cfg) fs of
        (Inl e, fs) \<Rightarrow> (Inl (StartKey e), fs)
      | (Inr key, fs) \<Rightarrow>
          (case load_mesh_key H (mesh_psk_file cfg) fs of
             Inl e \<Rightarrow> (Inl (StartOption e), fs)
           | Inr mkey \<Rightarrow>
           case load_tls L cfg fs of
             Inl e \<Rightarrow> (Inl e, fs)
           | Inr tls \<Rightarrow>
           case parse_stun_addr (stun_addr cfg) of
             Inl e \<Rightarrow> (Inl (StartOption e), fs)
           | Inr stun \<Rightarrow>
               (Inr \<lparr>run_server = \<lparr>config = cfg, srv_key = key\<rparr>, run_relay = server_relay cfg mkey, run_tls = tls,
                     run_mesh = spawn_mesh (mesh_with cfg) mkey, run_stun = stun\<rparr>, fs)))"

subsection \<open>Connections\<close>

definition crate_metrics_accept :: "'ch Relay \<Rightarrow> 'ch Relay" where
  "crate_metrics_accept s = upd_metrics (\<lambda>m. m\<lparr>accepts := inc (accepts m) 1\<rparr>) s"

text \<open>
  The task spawned for a connection: \<open>secured\<close> is the outcome of the TLS handshake, used when TLS is
  configured; \<open>serve\<close> is \<open>serve_connection\<close> on the stream.
\<close>

definition connection_task ::
    "'t option \<Rightarrow> (IoErrorKind + network) \<Rightarrow> network \<Rightarrow> (network \<Rightarrow> 'ch Relay \<Rightarrow> 'ch Relay \<times> session_status)
       \<Rightarrow> 'ch Relay \<Rightarrow> 'ch Relay \<times> session_status" where
  "connection_task tls secured stream serve s =
     (let io = (case tls of None \<Rightarrow> Inr stream | Some _ \<Rightarrow> secured)
      in case io of
           Inl e \<Rightarrow> (s, SessionEnded (Inl (SeContext ''TLS handshake'' (SeIo e))))
         | Inr io \<Rightarrow> serve io s)"

text \<open>
  What the main loop waits for: the signal, or an accepted connection with the outcome of \<open>set_nodelay\<close>.
  The tasks spawned so far run meanwhile; \<open>TasksRan g\<close> is what they did to the relay between two turns.
\<close>

datatype ('c, 'ch) main_event =
    Signalled "IoErrorKind + unit"
  | Accepted "IoErrorKind + 'c" "IoErrorKind + unit"
  | TasksRan "'ch Relay \<Rightarrow> 'ch Relay"

text \<open>The connections for which a task was spawned, and how the loop ended, if it has.\<close>

fun main_loop :: "('c, 'ch) main_event list \<Rightarrow> 'ch Relay \<Rightarrow> 'ch Relay \<times> 'c list \<times> (IoErrorKind + unit) option" where
  "main_loop [] s = (s, [], None)"
| "main_loop (Signalled r # es) s = (s, [], Some r)"
| "main_loop (Accepted (Inl e) nodelay # es) s = (s, [], Some (Inl e))"
| "main_loop (Accepted (Inr c) (Inl e) # es) s = (s, [], Some (Inl e))"
| "main_loop (Accepted (Inr c) (Inr _) # es) s =
     (let (s, spawned, ended) = main_loop es (crate_metrics_accept s) in (s, c # spawned, ended))"
| "main_loop (TasksRan g # es) s = main_loop es (g s)"

subsection \<open>Shutdown\<close>

definition shut_down :: "'ch mpsc \<Rightarrow> Config \<Rightarrow> 'ch Relay \<Rightarrow> 'ch Relay" where
  "shut_down C cfg s =
     (let (ms, try_for) = restart_window (shutdown_grace cfg) in broadcast_restart C ms try_for s)"

text \<open>
  The whole program: \<open>bound\<close> is the outcome of binding the listener. The last component says whether the STUN
  task was told to stop.
\<close>

definition main_program ::
    "'h hex_lib \<Rightarrow> ('x, 'k, 't) tls_lib \<Rightarrow> 'ch mpsc \<Rightarrow> bytes \<Rightarrow> Config \<Rightarrow> file_system \<Rightarrow> (IoErrorKind + unit)
       \<Rightarrow> ('c, 'ch) main_event list
       \<Rightarrow> ('h StartFailure + 'ch Relay \<times> 'c list \<times> (IoErrorKind + unit) option \<times> bool) \<times> file_system" where
  "main_program H L C rng cfg fs bound es =
     (case start_up H L rng cfg fs of
        (Inl e, fs) \<Rightarrow> (Inl e, fs)
      | (Inr r, fs) \<Rightarrow>
          (case bound of
             Inl e \<Rightarrow> (Inl (StartOption (StartIo e)), fs)
           | Inr _ \<Rightarrow>
               (case main_loop es (run_relay (r :: ('ch, 't) running)) of
                  (s, spawned, Some (Inr _)) \<Rightarrow> (Inr (shut_down C cfg s, spawned, Some (Inr ()), True), fs)
                | (s, spawned, ended) \<Rightarrow> (Inr (s, spawned, ended, False), fs))))"

subsection \<open>Properties\<close>






text \<open>Every registered session is offered the announcement, and nobody else.\<close>

lemma shut_down_boxes:
  assumes "mpsc_ok C pend room" "reachable C s" "restart_window (shutdown_grace cfg) = (ms, try_for)"
  shows "boxes pend room (shut_down C cfg s) = (\<lambda>c. case c of
      SessionChan i \<Rightarrow> if i \<in> live_set s then offer (Restarting ms try_for) (boxes pend room s c) else boxes pend room s c
    | MeshChan m \<Rightarrow> boxes pend room s c) \<and> live_set (shut_down C cfg s) = live_set s \<and> ms \<le> try_for"
proof -
  let ?js = "concat (map (\<lambda>(k, ps). sessions ps) (peers s))" and ?f = "Restarting ms try_for"
  have inv: "relay_inv s" "peers_inv s" using reachable_relay_inv [OF assms(2)] by (simp_all add: relay_inv_def)
  have flat: "fold (\<lambda>(k, ps) s. fold g (sessions ps) s) xs s = fold g (concat (map (\<lambda>(k, ps). sessions ps) xs)) s" for g xs
    and s :: "'a Relay" by (induction xs arbitrary: s) auto
  have set: "set ?js = live_set s" by (auto simp: live_set_def)
  have "length ?js = client_count s" by (simp add: client_count_def length_concat comp_def case_prod_unfold)
  then have "distinct ?js" using client_count_card [OF inv(2)] set by (intro card_distinct) simp
  moreover have "\<forall>i\<in>set ?js. tx_ok s i" unfolding set using live_handle [OF inv(2)] inv(1)
    by (metis relay_inv_def tx_ok_ids)
  from fold_put_boxes [OF assms(1) this, of ?f]
  have "boxes pend room (shut_down C cfg s) = fold (\<lambda>i. put (SessionChan i) ?f) ?js (boxes pend room s)"
    by (simp add: shut_down_def assms(3) broadcast_restart_def flat)
  ultimately have "boxes pend room (shut_down C cfg s) = (\<lambda>c. case c of
      SessionChan i \<Rightarrow> if i \<in> live_set s then offer ?f (boxes pend room s c) else boxes pend room s c
    | MeshChan m \<Rightarrow> boxes pend room s c)"
    by (simp add: fun_eq_iff fold_put_once set del: set_concat split: chan_id.split)
  moreover have "live_set (shut_down C cfg s) = live_set s" by (simp add: shut_down_def assms(3))
  moreover have "ms \<le> try_for" using restart_window_ok [OF assms(3)] by blast
  ultimately show ?thesis by blast
qed

text \<open>A printed address is read back, and is never taken for the switch.\<close>

lemma stun_addr_shown:
  assumes "length bs = 3"
  shows "parse_stun_addr (show_v4 b bs p) = Inr (Some \<lparr>ip = V4 (b # bs), port = p\<rparr>)"
proof -
  obtain d ds where d: "nat_digits (unat b) = d # ds" "d < 10"
    using nat_digits_shape [of "unat b"] by (cases "nat_digits (unat b)") auto
  then have "of_char (ascii_lower (digit_char d)) = (48 + d :: nat)" by (simp add: ascii_lower_def digit_char_def)
  then have "ascii_lower (digit_char d) \<noteq> CHR ''o''" using d(2) by auto
  then have "\<not> eq_ignore_ascii_case (show_v4 b bs p) ''off''"
    by (simp add: eq_ignore_ascii_case_def to_ascii_lowercase_def show_v4_def show_nat_digits d(1)) (simp add: ascii_lower_def)
  then show ?thesis by (simp add: parse_stun_addr_def parse_shown [OF assms])
qed

text \<open>The default options, with TLS switched on and STUN on the local address.\<close>

definition sample_config :: Config where
  "sample_config = demo_config\<lparr>stun_addr := show_v4 127 [0, 0, 1] 3478, tls_cert := Some ''cert.pem'', tls_key := Some ''key.pem'',
     shutdown_grace := 5000000000\<rparr>"

definition sample_files :: file_system where
  "sample_files = \<lparr>files = [''cert.pem'' \<mapsto> ''C'', ''key.pem'' \<mapsto> ''K''], fault = (\<lambda>_. None)\<rparr>"

definition tls_ref :: "(char, char, string) tls_lib" where
  "tls_ref = \<lparr>pem_certs = Some, pem_key = (\<lambda>t. Some (case t of [] \<Rightarrow> None | c # _ \<Rightarrow> Some c)), tls_acceptor = (\<lambda>cs k. Some (k # cs))\<rparr>"

lemma sample_starts:
  "\<exists>r fs'. start_up hex_ref tls_ref (replicate 32 255) sample_config sample_files =
      (Inr r :: unit StartFailure + (Frame list \<times> nat, string) running, fs') \<and>
     srv_key (run_server r) = generate (replicate 32 255) \<and> run_tls r = Some ''KC'' \<and>
     run_stun r = Some \<lparr>ip = V4 [127, 0, 0, 1], port = 3478\<rparr> \<and> run_relay r = server_relay demo_config None"
proof -
  have st: "parse_stun_addr (stun_addr sample_config) = (Inr (Some \<lparr>ip = V4 [127, 0, 0, 1], port = 3478\<rparr>) :: unit StartError + SocketAddr option)"
    by (simp add: sample_config_def stun_addr_shown)
  have k: "load_or_create hex_ref (replicate 32 255) (private_key sample_config) sample_files =
      (Inr (generate (replicate 32 255)), sample_files\<lparr>files := (files sample_files)(''derper.key'' \<mapsto> key_text hex_ref (generate (replicate 32 255)))\<rparr>)"
    by (simp add: load_or_create_def read_to_string_def fs_check_def sample_files_def sample_config_def demo_config_def Let_def)
  show ?thesis unfolding start_up_def k st
    by (auto simp: load_mesh_key_def load_tls_def read_to_string_def sample_files_def sample_config_def demo_config_def tls_ref_def server_relay_def)
qed


subsection \<open>The run of the program\<close>

text \<open>
  An event that does not end the loop: a connection that could be accepted, and tasks that leave the relay in a
  reachable state, as the tasks of connections and of the mesh do.
\<close>

definition harmless :: "'ch mpsc \<Rightarrow> ('c, 'ch) main_event \<Rightarrow> bool" where
  "harmless C e \<longleftrightarrow>
     (case e of
        Signalled _ \<Rightarrow> False
      | Accepted (Inr _) (Inr _) \<Rightarrow> True
      | Accepted _ _ \<Rightarrow> False
      | TasksRan g \<Rightarrow> (\<forall>s. reachable C s \<longrightarrow> reachable C (g s)))"

definition spawned_by :: "('c, 'ch) main_event list \<Rightarrow> 'c list" where
  "spawned_by = List.map_filter (\<lambda>e. case e of Accepted (Inr c) _ \<Rightarrow> Some c | _ \<Rightarrow> None)"

lemma spawned_by_simps [simp]:
  "spawned_by [] = []" "spawned_by (Accepted (Inr c) r # es) = c # spawned_by es" "spawned_by (TasksRan g # es) = spawned_by es"
  by (simp_all add: spawned_by_def map_filter_simps)

lemma crate_accept_step: "relay_step C s (crate_metrics_accept s)"
  unfolding crate_metrics_accept_def by (rule relay_step.counter) (simp_all add: balance_def)

lemma main_loop_runs:
  assumes "reachable C s" "\<forall>e\<in>set pre. harmless C e"
  shows "\<exists>t. reachable C t \<and> main_loop pre s = (t, spawned_by pre, None) \<and>
    (\<forall>es. main_loop (pre @ es) s = (case main_loop es t of (u, cs, r) \<Rightarrow> (u, spawned_by pre @ cs, r)))"
  using assms
proof (induction pre arbitrary: s)
  case (Cons e pre)
  have pre: "\<forall>e\<in>set pre. harmless C e" using Cons.prems(2) by simp
  consider c u where "e = Accepted (Inr c) (Inr u)" | g where "e = TasksRan g" "reachable C (g s)"
    using Cons.prems by (auto simp: harmless_def split: main_event.splits sum.splits)
  then show ?case
  proof cases
    case 1
    from Cons.IH [OF reach.more [OF Cons.prems(1) crate_accept_step] pre] 1 show ?thesis by (auto split: prod.split)
  next
    case 2
    from Cons.IH [OF 2(2) pre] 2(1) show ?thesis by simp
  qed
qed (auto split: prod.split)

lemma connection_harmless:
  "harmless C (TasksRan (\<lambda>s. if ids_left s then fst (connection_task tls secured stream
     (\<lambda>io. serve_connection P rf B J H L post C K late nonce acts now (events, progress, pipe) srv remote io w) s) else s))"
proof -
  have "reachable C (fst (connection_task tls secured stream
      (\<lambda>io. serve_connection P rf B J H L post C K late nonce acts now (events, progress, pipe) srv remote io w) s))"
    if "reachable C s" "ids_left s" for s
  proof -
    have "reachable C (fst (serve_connection P rf B J H L post C K late nonce acts now (events, progress, pipe) srv remote io w s))" for io
      using connection_reach [OF that] by (metis prod.collapse)
    then show ?thesis using that(1) by (auto simp: connection_task_def Let_def split: option.split sum.split)
  qed
  then show ?thesis by (simp add: harmless_def)
qed

lemma mesh_harmless:
  "harmless C (TasksRan (\<lambda>s. fst (snd (mesh_attempt U D B J C K nonce srv peer mkey ts nmid s))))"
proof -
  have "reachable C (fst (snd (mesh_attempt U D B J C K nonce srv peer mkey ts nmid s)))" if "reachable C s" for s
    using mesh_attempt_reach [OF that] by (metis prod.collapse)
  then show ?thesis by (simp add: harmless_def)
qed

lemma started_reachable: "start_up H L rng cfg fs = (Inr r, fs') \<Longrightarrow> reachable C (run_relay r)"
  by (auto simp: start_up_def relay_init_def server_relay_def split: prod.splits sum.splits intro!: reach.start exI)

text \<open>
  C27: The program serves until it is told to stop, and then says goodbye. After a successful start, whatever
  connections come in and whatever the tasks do, a task is spawned for each of them, and at the signal
  every session then registered is offered the restart announcement once, at the end of its queue, and no
  other queue changes; the retry window is not shorter than the reconnect window, and STUN is told to stop.
\<close>

theorem program_stops_orderly:
  assumes "mpsc_ok C pend room" "start_up H L rng cfg fs = (Inr r, fs')" "\<forall>e\<in>set pre. harmless C e"
    and "restart_window (shutdown_grace cfg) = (ms, try_for)"
  shows "\<exists>s. reachable C s \<and> main_loop pre (run_relay r) = (s, spawned_by pre, None) \<and>
    main_program H L C rng cfg fs (Inr ()) (pre @ Signalled (Inr ()) # es) =
      (Inr (shut_down C cfg s, spawned_by pre, Some (Inr ()), True), fs') \<and>
    boxes pend room (shut_down C cfg s) = (\<lambda>c. case c of
        SessionChan i \<Rightarrow> if i \<in> live_set s then offer (Restarting ms try_for) (boxes pend room s c) else boxes pend room s c
      | MeshChan m \<Rightarrow> boxes pend room s c) \<and> ms \<le> try_for"
proof -
  from main_loop_runs [OF started_reachable [OF assms(2)] assms(3)] obtain s where
    s: "reachable C s" "main_loop pre (run_relay r) = (s, spawned_by pre, None)"
    and run: "main_loop (pre @ Signalled (Inr ()) # es) (run_relay r) = (s, spawned_by pre, Some (Inr ()))" by auto
  from shut_down_boxes [OF assms(1) s(1) assms(4)] s run show ?thesis
    by (intro exI [of _ s]) (simp add: main_program_def assms(2))
qed

text \<open>A client joins, a connection comes in, and the operator stops the server.\<close>

definition join_task :: "(Frame list \<times> nat) Relay \<Rightarrow> (Frame list \<times> nat) Relay" where
  "join_task s = (if ids_left s then snd (register fifo 0 (key_of 5) (ep_of 7) False True False False s) else s)"

lemma join_task_harmless: "harmless fifo (TasksRan join_task)"
proof -
  have "reachable fifo (join_task s)" if "reachable fifo s" for s
    using that unfolding join_task_def by (auto intro: reach.more relay_step.register)
  then show ?thesis by (simp add: harmless_def)
qed

theorem program_stops_orderly_witness:
  "\<exists>t fs'. main_program hex_ref tls_ref fifo (replicate 32 255) sample_config sample_files (Inr ())
      [TasksRan join_task, Accepted (Inr 7) (Inr ()), Signalled (Inr ())] =
      (Inr (t, [7 :: nat], Some (Inr ()), True) :: unit StartFailure + _, fs') \<and>
    fst (boxes fst snd t (SessionChan 1)) = [Restarting 5000 15000]"
proof -
  from sample_starts obtain r fs' where r: "start_up hex_ref tls_ref (replicate 32 255) sample_config sample_files =
      (Inr r :: unit StartFailure + (Frame list \<times> nat, string) running, fs')" "run_relay r = server_relay demo_config None" by blast
  let ?pre = "[TasksRan join_task, Accepted (Inr (7 :: nat)) (Inr ())]"
  have pre: "\<forall>e\<in>set ?pre. harmless fifo e" using join_task_harmless by (simp add: harmless_def)
  obtain ms tf where w: "restart_window (shutdown_grace sample_config) = (ms, tf)" by fastforce
  then have v: "ms = 5000" "tf = 15000" by (auto simp: restart_window_def grace_ms_def sample_config_def)
  let ?s = "crate_metrics_accept (join_task (server_relay demo_config None))"
  have "1 \<in> live_set ?s" "boxes fst snd ?s (SessionChan 1) = ([], Suc 63)" by code_simp+
  moreover have "main_loop ?pre (run_relay r) = (?s, [7], None)" by (simp add: r(2))
  ultimately show ?thesis
    using program_stops_orderly [OF fifo_ok r(1) pre w, of "[]"] v by (auto simp: offer_def)
qed

text \<open>
  C38: A connection that cannot be accepted stops the server, without an announcement: a failed \<open>accept\<close> (or
  \<open>set_nodelay\<close> on the new connection) ends the loop with its error, and no session is told.
\<close>

theorem failed_accept_stops:
  assumes "start_up H L rng cfg fs = (Inr r, fs')" "\<forall>e\<in>set pre. harmless C e"
    and "bad = Accepted (Inl err) nodelay \<or> bad = Accepted (Inr c) (Inl err)"
  shows "\<exists>s. main_loop pre (run_relay r) = (s, spawned_by pre, None) \<and>
    main_program H L C rng cfg fs (Inr ()) (pre @ bad # es) = (Inr (s, spawned_by pre, Some (Inl err), False), fs')"
proof -
  from main_loop_runs [OF started_reachable [OF assms(1)] assms(2)] obtain s where
    "main_loop pre (run_relay r) = (s, spawned_by pre, None)"
    "\<forall>es. main_loop (pre @ es) (run_relay r) = (case main_loop es s of (u, cs, q) \<Rightarrow> (u, spawned_by pre @ cs, q))" by blast
  moreover have "main_loop (bad # es) s = (s, [], Some (Inl err))" using assms(3) by auto
  ultimately show ?thesis by (intro exI [of _ s]) (simp add: main_program_def assms(1))
qed

theorem failed_accept_stops_witness:
  "\<exists>s fs'. main_program hex_ref tls_ref fifo (replicate 32 255) sample_config sample_files (Inr ())
      [TasksRan join_task, Accepted (Inl OtherIo) (Inr ()), Signalled (Inr ())] =
      (Inr (s, [] :: nat list, Some (Inl OtherIo), False) :: unit StartFailure + _, fs') \<and> live_set s = {1}"
proof -
  from sample_starts obtain r fs' where r: "start_up hex_ref tls_ref (replicate 32 255) sample_config sample_files =
      (Inr r :: unit StartFailure + (Frame list \<times> nat, string) running, fs')" "run_relay r = server_relay demo_config None" by blast
  have pre: "\<forall>e\<in>set [TasksRan join_task :: (nat, _) main_event]. harmless fifo e" using join_task_harmless by simp
  have "live_set (join_task (server_relay demo_config None)) = {1}" by code_simp
  with failed_accept_stops [OF r(1) pre disjI1 [OF refl], of OtherIo "Inr ()" "[Signalled (Inr ())]"] r(2) show ?thesis by auto
qed

end
