(* ===== verification/Spec2Isabelle.thy ===== *)
theory Spec2Isabelle
  imports Derp_Codec_Props Derp_Keyfile Derp_Stun Derp_Relay_Findings Derp_Directory_Props Derp_Rate Derp_Web_Props Derp_Main
begin

text \<open>
  A verification development of derp-rs, a relay for the DERP protocol.

  \<^bold>\<open>The program.\<close> Clients connect over HTTP (\<open>http.rs\<close>), natively or through a WebSocket, and upgrade to a
  stream of frames (\<open>protocol.rs\<close>). A session (\<open>server.rs\<close>) begins with the proof of a node key (\<open>crypto.rs\<close>) and
  is then a reader and a writer that run concurrently: the reader hands the client's frames to the relay
  (\<open>relay.rs\<close>), the writer sends what the relay put into the session's queue. The relay knows the sessions of
  every key, the session that receives a key's packets, who watches, who sent to whom, and over which mesh
  connections other keys are reached. A mesh client (\<open>mesh.rs\<close>) keeps a connection to every other server of the
  region. Beside this run a STUN responder (\<open>stun.rs\<close>) and the counters (\<open>metrics.rs\<close>); \<open>main.rs\<close> reads the
  configuration (\<open>config.rs\<close>), starts everything, accepts connections and stops in order.

  \<^bold>\<open>The theories\<close>, in the order in which they depend on each other:

  \<^item> \<open>Derp_Prelude\<close>, \<open>Derp_Transition\<close>, \<open>Derp_Text\<close>, \<open>Derp_F64\<close>: lemmas on lists, words and results; transition
    systems with the locales \<open>inductive_invariant\<close>, \<open>relative_invariant\<close> and \<open>simulation\<close>; strings, decimal numbers
    and lossy UTF-8; binary64 arithmetic with its exact rounding.
  \<^item> \<open>Derp_Crypto\<close>, \<open>Derp_Keyfile\<close> (\<open>crypto.rs\<close>): node keys, boxes, clamping, the key file.
  \<^item> \<open>Derp_Protocol\<close>, \<open>Derp_Codec\<close>, \<open>Derp_Codec_Props\<close> (\<open>protocol.rs\<close>): the frames, encoder and decoder, reading and
    writing frames on streams; round trips for single frames and batches (locale \<open>stream_codec\<close>).
  \<^item> \<open>Derp_Limiter\<close> (\<open>PeerGoneLimiter\<close> in \<open>relay.rs\<close>, \<open>TokenBucket\<close> in \<open>server.rs\<close>), \<open>Derp_Metrics\<close> (\<open>metrics.rs\<close>).
  \<^item> \<open>Derp_Relay\<close> (\<open>relay.rs\<close>): the state as a record and one definition for each public operation.
    \<open>Derp_Relay_Inv\<close>, \<open>Derp_Relay_Ops\<close>, \<open>Derp_Relay_Steps\<close> and \<open>Derp_Relay_System\<close> prove its invariants step by step
    and give the step relation \<open>relay_step\<close>; \<open>Derp_Relay_Delivery\<close> says what each operation puts into which queue;
    \<open>Derp_Relay_Props\<close> has the properties of the operations and \<open>Derp_Relay_Findings\<close> the behaviours that contradict
    the documentation. \<open>Derp_Directory\<close> is the abstract specification of who is connected.
  \<^item> \<open>Derp_Config\<close> (\<open>config.rs\<close>), \<open>Derp_Address\<close> (socket addresses in text), \<open>Derp_Stun\<close> (\<open>stun.rs\<close>).
  \<^item> \<open>Derp_Server\<close> (\<open>server.rs\<close>): handshake, admission, reader, writer, the two interleaved (\<open>session_loop\<close>) and the whole
    \<open>serve_stream\<close>; \<open>Derp_Session\<close>, \<open>Derp_Writer\<close> and \<open>Derp_Session_Props\<close> show what they do,
    \<open>Derp_Rate\<close> what the reader's token bucket admits.
  \<^item> \<open>Derp_Io\<close>, \<open>Derp_Http\<close>, \<open>Derp_Web\<close>, \<open>Derp_Web_Props\<close> (\<open>http.rs\<close>): networks that split bytes arbitrarily, the stream with
    a prefix, requests, responses, the native and the WebSocket upgrade, the bridge.
  \<^item> \<open>Derp_Mesh\<close> (\<open>mesh.rs\<close>): dialling, upgrade, handshake, the two halves of a connection, its end, the retries.
  \<^item> \<open>Derp_System\<close>: the running server, a step relation over one relay, any number of sessions and mesh connections;
    \<open>Derp_Queues\<close>: what waits in its queues; \<open>Derp_System_Props\<close>, \<open>Derp_Directory_Props\<close>, \<open>Derp_Mesh_Props\<close>: what holds in
    all its states, between its clients, and between two servers.
  \<^item> \<open>Derp_Main\<close> (\<open>main.rs\<close>): start-up, the accept loop, the shutdown.

  \<^bold>\<open>How code and model correspond.\<close> A struct is a record, an enum a datatype, a machine integer a word with
  wrap-around, an error a value of the error types. A handle shared between tasks (\<open>Arc\<close>) lives in a store addressed
  by its session id, so that the aliasing of the session sets, the index and the watchers is explicit. A concurrent
  map that is iterated is an association list with distinct keys. Every operation of the relay is atomic, except
  \<open>unregister\<close>, which releases its lock between two critical sections and is therefore two definitions and their
  composition; \<open>Derp_Relay_Findings\<close> shows what can happen between them. One turn of a reader (a frame read and handled)
  and one turn of a writer (a batch or a control frame) are steps of the running server; \<open>proved\<close> and \<open>lost\<close> in its
  state are history variables.

  \<^bold>\<open>Parameters.\<close> Crates are arguments with their documented laws as named hypotheses, and each law has a reference
  instance that the witnesses use: \<open>hex\<close> (\<open>hex_lib_ok\<close>), \<open>crypto_box\<close> (\<open>box_lib_ok\<close>), \<open>serde_json\<close> on the two handshake
  payloads (\<open>json_lib_ok\<close>), the bounded channels of \<open>tokio\<close> (\<open>mpsc_ok\<close>), \<open>url\<close> (\<open>url_lib_ok\<close>), and without laws
  \<open>httparse\<close>, \<open>sha1\<close>, \<open>base64\<close>, \<open>crc32fast\<close>, the admission controller, the PEM reader and TLS. A connection that
  takes its writes is \<open>sink_ok\<close>; timeouts, the clock, random bytes and the file system are arguments, too.

  \<^bold>\<open>What is shown.\<close>

  \<^item> End to end: a packet gets from client to client and across the mesh, unchanged and with the sender's key; every
    queued frame is one that its reader takes, so writers do not fail on their contents; two servers meet, learn each
    other's clients and forget them when the connection ends.
  \<^item> Security: clients are registered only under the key they proved; without a mesh key every packet in every queue is in
    the name of a proved key; mesh permission is needed to forward, watch and close.
  \<^item> Invariants in every reachable state: the lock-free index, the session sets, the gauges, the packet counters, the
    reverse paths, the bounds of the queues; the token buckets keep to their rates in binary64; the
    registered sessions are exactly those served or dropped.
  \<^item> Refinement: the relay and the running server implement the directory; reading through prefix and network is reading
    from the bytes in one piece; the mesh routes follow the peer's announcements.
  \<^item> Codec: round trips for frames and batches, soundness of the decoder; requests are read whole whatever the chunks,
    responses cannot be split; keys and key files, the duration and address parsers, STUN answers.
  \<^item> Errors and endings: the reader returns on every finite stream, sessions and connections leave nothing behind, except
    where the code leaks, which is proved as such; the program stops in order at the signal, and not in order when the
    listener fails.

  \<^bold>\<open>Bounds.\<close> \<open>reader\<close> takes the number of frames it may read: a frame has at least five bytes, so the length of the
  stream divided by five and one more is enough (\<open>reader_returns\<close>). \<open>writer\<close>, \<open>session_loop\<close>, \<open>mesh_loop\<close>, \<open>mesh_task\<close>,
  \<open>stun_serve\<close> and \<open>main_loop\<close> take the turns or events that happen; their results say when a loop has not ended, and
  the properties quantify over all of them. All other recursions terminate by themselves. Session ids are 64-bit and wrap;
  statements about registration assume that the counter has not (\<open>ids_left\<close>).

  \<^bold>\<open>Not modelled.\<close> Sockets, TLS records, the framing of WebSocket messages by \<open>tungstenite\<close>, the command line (\<open>clap\<close>), log
  output, the capacity of buffers, the two seconds between mesh attempts and the grace period itself; the tests and the
  benchmarks. \<open>lib.rs\<close> only names the modules.
\<close>

end
